(* ===== verification/Rust_Prelude.thy ===== *)
theory Rust_Prelude
  imports Main "HOL-Library.Word" "HOL-Library.Monad_Syntax"
begin

text \<open>
  What every component shares: bytes and byte strings, the parts of the Rust standard
  library that the sources call (slicing, big- and little-endian integers, windows and
  positions, ASCII case, trimming, splitting, number parsing), the clock, and the generic
  list lemmas the component proofs use.

  Network data is a list of \<open>8 word\<close>. A \<open>String\<close> or \<open>&str\<close> is the HOL \<open>string\<close> of its
  UTF-8 bytes, so \<open>length\<close> is \<open>str::len\<close>. An operation that can panic (an index or a slice
  out of range) returns \<open>None\<close> for the panic; where the Rust function itself returns an
  \<open>Option\<close>, the two are nested. \<open>usize\<close> arithmetic that cannot come near \<open>2^32\<close> is \<open>nat\<close>.
  A \<open>Duration\<close> and an \<open>Instant\<close> are nanoseconds, as \<open>nat\<close>; an operation of a component that
  reads the clock takes the reading as an argument.
\<close>

unbundle bit_operations_syntax

named_theorems byte_simps \<open>slices, positions and integers on byte lists\<close>
named_theorems text_simps \<open>the string functions of the standard library\<close>

type_synonym byte = "8 word"
type_synonym bytes = "byte list"

definition NANOS :: nat where "NANOS = 1000000000"

section \<open>Slices and integers\<close>

text \<open>\<open>xs[i]\<close> and \<open>xs[a..b]\<close>: \<open>None\<close> is the out-of-range panic.\<close>

definition idx :: "'a list \<Rightarrow> nat \<Rightarrow> 'a option" where
  "idx xs i = (if i < length xs then Some (xs ! i) else None)"

definition slice :: "'a list \<Rightarrow> nat \<Rightarrow> nat \<Rightarrow> 'a list option" where
  "slice xs a b = (if a \<le> b \<and> b \<le> length xs then Some (take (b - a) (drop a xs)) else None)"

lemma idx_Some [byte_simps]: "i < length xs \<Longrightarrow> idx xs i = Some (xs ! i)"
  by (simp add: idx_def)

lemma idx_eq_None [byte_simps]: "idx xs i = None \<longleftrightarrow> length xs \<le> i"
  by (auto simp: idx_def)

lemma slice_Some [byte_simps]:
  "a \<le> b \<Longrightarrow> b \<le> length xs \<Longrightarrow> slice xs a b = Some (take (b - a) (drop a xs))"
  by (simp add: slice_def)

lemma slice_eq_None [byte_simps]: "slice xs a b = None \<longleftrightarrow> \<not> (a \<le> b \<and> b \<le> length xs)"
  by (auto simp: slice_def)

text \<open>\<open>u16::from_be_bytes\<close> and the three- and four-byte reads, as numbers.\<close>

definition u16_be :: "byte \<Rightarrow> byte \<Rightarrow> nat" where
  "u16_be b0 b1 = unat b0 * 256 + unat b1"

definition u24_be :: "byte \<Rightarrow> byte \<Rightarrow> byte \<Rightarrow> nat" where
  "u24_be b0 b1 b2 = unat b0 * 65536 + unat b1 * 256 + unat b2"

definition u24_le :: "byte \<Rightarrow> byte \<Rightarrow> byte \<Rightarrow> nat" where
  "u24_le b0 b1 b2 = unat b0 + unat b1 * 256 + unat b2 * 65536"

definition u32_le :: "byte \<Rightarrow> byte \<Rightarrow> byte \<Rightarrow> byte \<Rightarrow> nat" where
  "u32_le b0 b1 b2 b3 = unat b0 + unat b1 * 256 + unat b2 * 65536 + unat b3 * 16777216"

text \<open>\<open>to_be_bytes\<close> of a \<open>k\<close>-byte integer: the value is truncated to \<open>8 * k\<close> bits, as \<open>as\<close> does.\<close>

fun to_be :: "nat \<Rightarrow> nat \<Rightarrow> bytes" where
  "to_be 0 n = []"
| "to_be (Suc k) n = to_be k (n div 256) @ [of_nat (n mod 256)]"

definition from_be :: "bytes \<Rightarrow> nat" where
  "from_be = foldl (\<lambda>a b. a * 256 + unat b) 0"

lemma length_to_be [simp]: "length (to_be k n) = k"
  by (induction k arbitrary: n) auto

lemma from_be_snoc: "from_be (xs @ [b]) = from_be xs * 256 + unat b"
  by (simp add: from_be_def)

lemma unat_of_nat_mod [simp]: "unat (of_nat (n mod 256) :: byte) = n mod 256"
  by (simp add: unat_of_nat)

lemma from_be_to_be: "n < 256 ^ k \<Longrightarrow> from_be (to_be k n) = n"
proof (induction k arbitrary: n)
  case 0
  then show ?case by (simp add: from_be_def)
next
  case (Suc k)
  then have "n div 256 < 256 ^ k" by (simp add: less_mult_imp_div_less mult.commute)
  then show ?case using Suc.IH by (simp add: from_be_snoc)
qed

lemma unat_byte_bound [simp]: "unat (b :: byte) < 256"
  using unsigned_less [of b] by simp

lemma u16_be_bound: "u16_be a b < 65536"
proof -
  have "unat a \<le> 255" "unat b \<le> 255"
    using unat_byte_bound [of a] unat_byte_bound [of b] by linarith+
  then show ?thesis by (simp add: u16_be_def)
qed

section \<open>Searching\<close>

text \<open>\<open>xs.windows(pat.len()).position(|w| w == pat)\<close>, for a non-empty \<open>pat\<close>.\<close>

fun find_sub :: "'a list \<Rightarrow> 'a list \<Rightarrow> nat option" where
  "find_sub pat [] = None"
| "find_sub pat (x # xs) =
     (if take (length pat) (x # xs) = pat then Some 0 else map_option Suc (find_sub pat xs))"

fun position :: "('a \<Rightarrow> bool) \<Rightarrow> 'a list \<Rightarrow> nat option" where
  "position P [] = None"
| "position P (x # xs) = (if P x then Some 0 else map_option Suc (position P xs))"

lemma find_sub_Some:
  "find_sub pat xs = Some i \<Longrightarrow> i < length xs \<and> take (length pat) (drop i xs) = pat"
  by (induction xs arbitrary: i) (auto split: if_splits)

lemma find_sub_room:
  assumes "find_sub pat xs = Some i"
  shows "i + length pat \<le> length xs"
proof -
  have "i < length xs" and "take (length pat) (drop i xs) = pat"
    using find_sub_Some [OF assms] by auto
  then have "length pat \<le> length xs - i"
    by (metis length_drop length_take min.absorb_iff2 min.commute)
  with \<open>i < length xs\<close> show ?thesis by simp
qed

lemma find_sub_least:
  "find_sub pat xs = Some i \<Longrightarrow> j < i \<Longrightarrow> take (length pat) (drop j xs) \<noteq> pat"
  by (induction xs arbitrary: i j) (auto split: if_splits nat.splits simp: less_Suc_eq_0_disj)

lemma find_sub_split:
  assumes "find_sub pat xs = Some i"
  shows "xs = take i xs @ pat @ drop (i + length pat) xs"
proof -
  have "drop i xs = take (length pat) (drop i xs) @ drop (length pat) (drop i xs)"
    by (rule append_take_drop_id [symmetric])
  also have "\<dots> = pat @ drop (i + length pat) xs"
    using find_sub_Some [OF assms] by (simp add: add.commute)
  finally show ?thesis by (metis append_take_drop_id)
qed

lemma find_sub_None:
  "find_sub pat xs = None \<Longrightarrow> i < length xs \<Longrightarrow> take (length pat) (drop i xs) \<noteq> pat"
  by (induction xs arbitrary: i) (auto split: if_splits simp: nth_Cons' drop_Cons split: nat.splits)

lemma position_Some: "position P xs = Some i \<Longrightarrow> i < length xs \<and> P (xs ! i) \<and> (\<forall>j < i. \<not> P (xs ! j))"
  by (induction xs arbitrary: i) (auto split: if_splits simp: less_Suc_eq_0_disj)

lemma position_None: "position P xs = None \<longleftrightarrow> (\<forall>x \<in> set xs. \<not> P x)"
  by (induction xs) auto

section \<open>List lemmas\<close>

lemma take_add_split: "take (a + b) xs = take a xs @ take b (drop a xs)"
  by (simp add: take_add)

lemma concat_snoc: "concat (xss @ [ys]) = concat xss @ ys"
  by simp

lemma rotate_nth_eq: "map (\<lambda>i. xs ! ((n + i) mod length xs)) [0..<length xs] = rotate n xs"
  by (rule nth_equalityI) (auto simp: nth_rotate add.commute)

text \<open>\<open>sort\<close> and \<open>dedup\<close> together.\<close>

lemma strict_sorted_dedup:
  "sorted xs \<Longrightarrow> sorted_wrt (<) (remdups_adj (xs :: 'a :: linorder list))"
  by (induction xs rule: remdups_adj.induct) (auto simp: less_le)

text \<open>Keeping the first of equal elements, as the code's \<open>if !out.contains(x) { out.push(x) }\<close>.\<close>

definition push_new :: "'a \<Rightarrow> 'a list \<Rightarrow> 'a list" where
  "push_new x out = (if x \<in> set out then out else out @ [x])"

lemma set_push_new [simp]: "set (push_new x out) = insert x (set out)"
  by (auto simp: push_new_def)

lemma distinct_push_new [simp]: "distinct (push_new x out) = distinct out"
  by (auto simp: push_new_def)

lemma set_fold_push_new [simp]: "set (fold push_new xs out) = set xs \<union> set out"
  by (induction xs arbitrary: out) auto

lemma distinct_fold_push_new [simp]: "distinct (fold push_new xs out) = distinct out"
  by (induction xs arbitrary: out) auto

lemma prefix_fold_push_new: "\<exists>ys. fold push_new xs out = out @ ys"
proof (induction xs arbitrary: out)
  case (Cons x xs)
  from Cons [of "push_new x out"] obtain ys
    where ys: "fold push_new xs (push_new x out) = push_new x out @ ys" by blast
  show ?case
  proof (cases "x \<in> set out")
    case True
    with ys have "fold push_new (x # xs) out = out @ ys"
      by (simp add: push_new_def [of x out])
    then show ?thesis by blast
  next
    case False
    with ys have "fold push_new (x # xs) out = out @ (x # ys)"
      by (simp add: push_new_def [of x out])
    then show ?thesis by blast
  qed
qed simp

lemma hd_fold_push_new: "out \<noteq> [] \<Longrightarrow> hd (fold push_new xs out) = hd out"
  using prefix_fold_push_new [of xs out] by auto

section \<open>Running a stateful operation over a list of inputs\<close>

text \<open>A loop that feeds its inputs to \<open>step\<close> one after the other and collects the outputs.\<close>

fun run_all :: "('s \<Rightarrow> 'a \<Rightarrow> 'b \<times> 's) \<Rightarrow> 's \<Rightarrow> 'a list \<Rightarrow> 'b list \<times> 's" where
  "run_all step s [] = ([], s)"
| "run_all step s (x # xs) =
     (let (o1, s1) = step s x; (os, s2) = run_all step s1 xs in (o1 # os, s2))"

lemma run_all_Cons [simp]:
  "fst (run_all step s (x # xs)) = fst (step s x) # fst (run_all step (snd (step s x)) xs)"
  "snd (run_all step s (x # xs)) = snd (run_all step (snd (step s x)) xs)"
  by (simp_all split: prod.splits)

declare run_all.simps(2) [simp del]

lemma run_all_append:
  "fst (run_all step s (xs @ ys)) =
     fst (run_all step s xs) @ fst (run_all step (snd (run_all step s xs)) ys)"
  "snd (run_all step s (xs @ ys)) = snd (run_all step (snd (run_all step s xs)) ys)"
  by (induction xs arbitrary: s) simp_all

lemma length_run_all [simp]: "length (fst (run_all step s xs)) = length xs"
  by (induction xs arbitrary: s) simp_all

text \<open>An invariant kept by every step holds after the run.\<close>

lemma run_all_invariant:
  assumes "I s" and "\<And>s x. I s \<Longrightarrow> I (snd (step s x))"
  shows "I (snd (run_all step s xs))"
  using assms(1) by (induction xs arbitrary: s) (simp_all add: assms(2))

end
