(* ===== verification/Rust_Text.thy ===== *)
theory Rust_Text
  imports Rust_Prelude
begin

text \<open>
  The functions of \<open>str\<close> the sources call, on the UTF-8 bytes of a string. Trimming follows
  \<open>char::is_whitespace\<close>, that is the Unicode property \<open>White_Space\<close>, by the encodings of its
  25 code points. ASCII case mapping, splitting at ASCII characters and the tests on ASCII
  classes act on single bytes, which is exact because UTF-8 never uses a byte below 128 inside
  a longer encoding.
\<close>

section \<open>Character classes and case\<close>

abbreviation ord :: "char \<Rightarrow> nat" where "ord c \<equiv> of_char c"

definition is_ascii_digit :: "char \<Rightarrow> bool" where
  "is_ascii_digit c \<longleftrightarrow> 48 \<le> ord c \<and> ord c \<le> 57"

definition is_ascii_lowercase :: "char \<Rightarrow> bool" where
  "is_ascii_lowercase c \<longleftrightarrow> 97 \<le> ord c \<and> ord c \<le> 122"

definition is_ascii_uppercase :: "char \<Rightarrow> bool" where
  "is_ascii_uppercase c \<longleftrightarrow> 65 \<le> ord c \<and> ord c \<le> 90"

definition is_ascii_alphabetic :: "char \<Rightarrow> bool" where
  "is_ascii_alphabetic c \<longleftrightarrow> is_ascii_lowercase c \<or> is_ascii_uppercase c"

definition is_ascii_alphanumeric :: "char \<Rightarrow> bool" where
  "is_ascii_alphanumeric c \<longleftrightarrow> is_ascii_alphabetic c \<or> is_ascii_digit c"

lemmas class_defs = is_ascii_digit_def is_ascii_lowercase_def is_ascii_uppercase_def
  is_ascii_alphabetic_def is_ascii_alphanumeric_def

definition char_lower :: "char \<Rightarrow> char" where
  "char_lower c = (if is_ascii_uppercase c then char_of (ord c + 32) else c)"

definition to_ascii_lowercase :: "string \<Rightarrow> string" where
  "to_ascii_lowercase s = map char_lower s"

definition eq_ignore_ascii_case :: "string \<Rightarrow> string \<Rightarrow> bool" where
  "eq_ignore_ascii_case a b \<longleftrightarrow> to_ascii_lowercase a = to_ascii_lowercase b"

lemma ord_char_lower: "ord (char_lower c) = (if is_ascii_uppercase c then ord c + 32 else ord c)"
  by (auto simp: char_lower_def is_ascii_uppercase_def of_char_of)

lemma char_lower_idem [simp]: "char_lower (char_lower c) = char_lower c"
proof (cases "is_ascii_uppercase c")
  case True
  then have "\<not> is_ascii_uppercase (char_lower c)"
    by (auto simp: is_ascii_uppercase_def ord_char_lower)
  then show ?thesis by (simp add: char_lower_def [of "char_lower c"])
qed (simp add: char_lower_def)

lemma to_ascii_lowercase_idem [simp]:
  "to_ascii_lowercase (to_ascii_lowercase s) = to_ascii_lowercase s"
  by (simp add: to_ascii_lowercase_def)

lemma length_to_ascii_lowercase [simp]: "length (to_ascii_lowercase s) = length s"
  by (simp add: to_ascii_lowercase_def)

lemma to_ascii_lowercase_Nil [simp]: "to_ascii_lowercase s = [] \<longleftrightarrow> s = []"
  by (simp add: to_ascii_lowercase_def)

section \<open>Trimming\<close>

text \<open>The byte length of the white-space character at the head of \<open>s\<close>, 0 if there is none.\<close>

definition ws_len :: "string \<Rightarrow> nat" where
  "ws_len s =
     (let n = (\<lambda>i. if i < length s then ord (s ! i) else 256)
      in if 9 \<le> n 0 \<and> n 0 \<le> 13 \<or> n 0 = 32 then 1
         else if n 0 = 0xC2 \<and> (n 1 = 0x85 \<or> n 1 = 0xA0) then 2
         else if n 0 = 0xE1 \<and> n 1 = 0x9A \<and> n 2 = 0x80 then 3
         else if n 0 = 0xE2 \<and> n 1 = 0x80 \<and>
           (0x80 \<le> n 2 \<and> n 2 \<le> 0x8A \<or> n 2 = 0xA8 \<or> n 2 = 0xA9 \<or> n 2 = 0xAF) then 3
         else if n 0 = 0xE2 \<and> n 1 = 0x81 \<and> n 2 = 0x9F then 3
         else if n 0 = 0xE3 \<and> n 1 = 0x80 \<and> n 2 = 0x80 then 3
         else 0)"

text \<open>The same for the white-space character at the end of \<open>s\<close>.\<close>

definition ws_tail_len :: "string \<Rightarrow> nat" where
  "ws_tail_len s =
     (if 1 \<le> length s \<and> ws_len (drop (length s - 1) s) = 1 then 1
      else if 2 \<le> length s \<and> ws_len (drop (length s - 2) s) = 2 then 2
      else if 3 \<le> length s \<and> ws_len (drop (length s - 3) s) = 3 then 3
      else 0)"

lemma ws_len_Nil [simp]: "ws_len [] = 0"
  by (simp add: ws_len_def)

lemma ws_tail_len_Nil [simp]: "ws_tail_len [] = 0"
  by (simp add: ws_tail_len_def)

function trim_start :: "string \<Rightarrow> string" where
  "trim_start s = (if ws_len s = 0 then s else trim_start (drop (ws_len s) s))"
  by pat_completeness auto
termination
proof (relation "measure length")
  fix s assume "ws_len s \<noteq> 0"
  moreover from this have "s \<noteq> []" by auto
  ultimately show "(drop (ws_len s) s, s) \<in> measure length" by simp
qed simp

function trim_end :: "string \<Rightarrow> string" where
  "trim_end s =
     (if ws_tail_len s = 0 then s else trim_end (take (length s - ws_tail_len s) s))"
  by pat_completeness auto
termination by (relation "measure length") (auto simp: ws_tail_len_def split: if_splits)

declare trim_start.simps [simp del] trim_end.simps [simp del]

definition trim :: "string \<Rightarrow> string" where
  "trim s = trim_end (trim_start s)"

text \<open>\<open>trim_matches\<close>, \<open>trim_start_matches\<close> and \<open>trim_end_matches\<close> of one ASCII character.\<close>

definition trim_start_matches :: "char \<Rightarrow> string \<Rightarrow> string" where
  "trim_start_matches c s = dropWhile (\<lambda>x. x = c) s"

definition trim_end_matches :: "char \<Rightarrow> string \<Rightarrow> string" where
  "trim_end_matches c s = rev (dropWhile (\<lambda>x. x = c) (rev s))"

definition trim_matches :: "char \<Rightarrow> string \<Rightarrow> string" where
  "trim_matches c s = trim_end_matches c (trim_start_matches c s)"

text \<open>A printable ASCII character at an end protects that end.\<close>

definition is_graphic :: "char \<Rightarrow> bool" where
  "is_graphic c \<longleftrightarrow> 33 \<le> ord c \<and> ord c \<le> 126"

lemma ws_len_graphic: "is_graphic c \<Longrightarrow> ws_len (c # s) = 0"
  by (auto simp: ws_len_def is_graphic_def Let_def)

lemma nth_last_graphic:
  assumes "is_graphic c" and "k \<le> length s"
  shows "ws_len (drop (length s - k) (s @ [c])) \<noteq> Suc k"
  using assms by (auto simp: ws_len_def is_graphic_def Let_def nth_append split: if_splits)

lemma ws_tail_graphic:
  assumes "is_graphic c" shows "ws_tail_len (s @ [c]) = 0"
  using nth_last_graphic [OF assms, of 0 s] nth_last_graphic [OF assms, of 1 s]
    nth_last_graphic [OF assms, of 2 s]
  by (simp add: ws_tail_len_def numeral_eq_Suc)

lemma trim_graphic:
  assumes "s \<noteq> [] \<Longrightarrow> is_graphic (hd s) \<and> is_graphic (last s)"
  shows "trim s = s"
proof (cases s)
  case (Cons c cs)
  then have "ws_len s = 0" using assms ws_len_graphic by simp
  moreover have "ws_tail_len (butlast s @ [last s]) = 0"
    using assms Cons by (intro ws_tail_graphic) simp
  then have "ws_tail_len s = 0" using Cons by (metis append_butlast_last_id list.discI)
  ultimately show ?thesis
    by (simp add: trim_def trim_start.simps [of s] trim_end.simps [of s])
qed (simp add: trim_def trim_start.simps [of "[]"] trim_end.simps [of "[]"])

lemma trim_all_graphic: "\<forall>c \<in> set s. is_graphic c \<Longrightarrow> trim s = s"
  by (rule trim_graphic) simp

section \<open>Prefixes, splitting\<close>

definition starts_with :: "string \<Rightarrow> string \<Rightarrow> bool" where
  "starts_with p s \<longleftrightarrow> take (length p) s = p"

definition ends_with :: "string \<Rightarrow> string \<Rightarrow> bool" where
  "ends_with p s \<longleftrightarrow> length p \<le> length s \<and> drop (length s - length p) s = p"

definition strip_prefix :: "string \<Rightarrow> string \<Rightarrow> string option" where
  "strip_prefix p s = (if starts_with p s then Some (drop (length p) s) else None)"

definition strip_suffix :: "string \<Rightarrow> string \<Rightarrow> string option" where
  "strip_suffix p s = (if ends_with p s then Some (take (length s - length p) s) else None)"

text \<open>\<open>split\<close> at the characters of \<open>P\<close>: always at least one piece.\<close>

fun split_on :: "(char \<Rightarrow> bool) \<Rightarrow> string \<Rightarrow> string list" where
  "split_on P [] = [[]]"
| "split_on P (c # cs) =
     (if P c then [] # split_on P cs
      else (c # hd (split_on P cs)) # tl (split_on P cs))"

definition split_once :: "string \<Rightarrow> string \<Rightarrow> (string \<times> string) option" where
  "split_once pat s =
     map_option (\<lambda>i. (take i s, drop (i + length pat) s)) (find_sub pat s)"

text \<open>\<open>rsplit_once(c)\<close> for one ASCII character: the last occurrence.\<close>

definition rsplit_once :: "char \<Rightarrow> string \<Rightarrow> (string \<times> string) option" where
  "rsplit_once c s =
     map_option (\<lambda>i. (take (length s - Suc i) s, drop (length s - i) s))
       (position (\<lambda>x. x = c) (rev s))"

text \<open>\<open>split_whitespace\<close>: the maximal pieces without white space; \<open>w\<close> is the piece so far, reversed.\<close>

function words_from :: "string \<Rightarrow> string \<Rightarrow> string list" where
  "words_from w s =
     (if s = [] then (if w = [] then [] else [rev w])
      else if ws_len s = 0 then words_from (hd s # w) (tl s)
      else (if w = [] then [] else [rev w]) @ words_from [] (drop (ws_len s) s))"
  by pat_completeness auto
termination by (relation "measure (\<lambda>(w, s). length s)") auto

declare words_from.simps [simp del]

definition split_whitespace :: "string \<Rightarrow> string list" where
  "split_whitespace s = words_from [] s"

text \<open>\<open>str::lines\<close>: split at line feeds, one carriage return before each dropped, no empty last line.\<close>

definition strip_cr :: "string \<Rightarrow> string" where
  "strip_cr l = (if l \<noteq> [] \<and> last l = CHR 0x0D then butlast l else l)"

definition lines :: "string \<Rightarrow> string list" where
  "lines s =
     (let ps = split_on (\<lambda>c. c = CHR 0x0A) s
      in map strip_cr (butlast ps) @ (if last ps = [] then [] else [last ps]))"

lemma split_on_ne [simp]: "split_on P s \<noteq> []"
  by (cases s) auto

lemma split_on_none: "\<forall>c \<in> set s. \<not> P c \<Longrightarrow> split_on P s = [s]"
  by (induction s) auto

lemma split_on_append:
  "\<forall>c \<in> set s. \<not> P c \<Longrightarrow> P d \<Longrightarrow> split_on P (s @ d # t) = s # split_on P t"
  by (induction s) auto

lemma split_on_pieces: "p \<in> set (split_on P s) \<Longrightarrow> c \<in> set p \<Longrightarrow> c \<in> set s \<and> \<not> P c"
proof (induction s arbitrary: p)
  case (Cons x s)
  obtain w ws where ps: "split_on P s = w # ws" by (meson list.exhaust split_on_ne)
  show ?case using Cons.prems Cons.IH [of w] Cons.IH [of p] by (auto simp: ps split: if_splits)
qed simp

lemma split_on_covers:
  assumes "c \<in> set s" and "\<not> P c" shows "\<exists>p \<in> set (split_on P s). c \<in> set p"
  using assms(1)
proof (induction s)
  case (Cons x s)
  obtain w ws where ps: "split_on P s = w # ws" by (meson list.exhaust split_on_ne)
  show ?case using Cons assms(2) by (auto simp: ps)
qed simp

lemma words_graphic:
  "\<forall>c \<in> set s. is_graphic c \<Longrightarrow> words_from w s = (if w = [] \<and> s = [] then [] else [rev w @ s])"
  by (induction s arbitrary: w) (auto simp: words_from.simps [of _ "_ # _"]
      words_from.simps [of _ "[]"] ws_len_graphic)

section \<open>Numbers\<close>

definition digit_char :: "nat \<Rightarrow> char" where
  "digit_char n = char_of (48 + n)"

fun show_nat :: "nat \<Rightarrow> string" where
  "show_nat n = (if n < 10 then [digit_char n] else show_nat (n div 10) @ [digit_char (n mod 10)])"

declare show_nat.simps [simp del]

definition show_int :: "int \<Rightarrow> string" where
  "show_int i = (if i < 0 then ''-'' @ show_nat (nat (- i)) else show_nat (nat i))"

definition digits_value :: "string \<Rightarrow> nat" where
  "digits_value = foldl (\<lambda>a c. a * 10 + (ord c - 48)) 0"

definition all_digits :: "string \<Rightarrow> bool" where
  "all_digits s \<longleftrightarrow> s \<noteq> [] \<and> (\<forall>c \<in> set s. is_ascii_digit c)"

text \<open>\<open>parse\<close> of an unsigned type with values below \<open>lim\<close>, and of a signed one.\<close>

definition parse_unsigned :: "nat \<Rightarrow> string \<Rightarrow> nat option" where
  "parse_unsigned lim s =
     (let d = (if s \<noteq> [] \<and> hd s = CHR ''+'' then tl s else s)
      in if all_digits d \<and> digits_value d < lim then Some (digits_value d) else None)"

definition parse_signed :: "nat \<Rightarrow> string \<Rightarrow> int option" where
  "parse_signed lim s =
     (if s \<noteq> [] \<and> hd s = CHR ''-''
      then (if all_digits (tl s) \<and> digits_value (tl s) \<le> lim
            then Some (- int (digits_value (tl s))) else None)
      else map_option int (parse_unsigned lim s))"

abbreviation parse_u16 :: "string \<Rightarrow> nat option" where "parse_u16 \<equiv> parse_unsigned (2 ^ 16)"
abbreviation parse_u64 :: "string \<Rightarrow> nat option" where "parse_u64 \<equiv> parse_unsigned (2 ^ 64)"
abbreviation parse_i32 :: "string \<Rightarrow> int option" where "parse_i32 \<equiv> parse_signed (2 ^ 31)"

lemma ord_digit_char: "n < 10 \<Longrightarrow> ord (digit_char n) = 48 + n"
  by (simp add: digit_char_def of_char_of)

lemma digits_value_snoc: "digits_value (s @ [c]) = digits_value s * 10 + (ord c - 48)"
  by (simp add: digits_value_def)

lemma digits_value_Nil [simp]: "digits_value [] = 0"
  by (simp add: digits_value_def)

lemma show_nat_digits: "all_digits (show_nat n)"
proof (induction n rule: show_nat.induct)
  case (1 n)
  then show ?case
    by (subst show_nat.simps) (auto simp: all_digits_def is_ascii_digit_def ord_digit_char)
qed

lemma digits_value_show_nat: "digits_value (show_nat n) = n"
proof (induction n rule: show_nat.induct)
  case (1 n)
  then show ?case
    by (subst show_nat.simps)
      (auto simp: digits_value_snoc ord_digit_char digits_value_snoc [of "[]", simplified]
        digits_value_Nil)
qed

lemma all_digits_head: "all_digits d \<Longrightarrow> d \<noteq> [] \<and> hd d \<noteq> CHR ''+'' \<and> hd d \<noteq> CHR ''-''"
  by (cases d) (auto simp: all_digits_def is_ascii_digit_def)

lemma parse_unsigned_show_nat: "n < lim \<Longrightarrow> parse_unsigned lim (show_nat n) = Some n"
  using show_nat_digits [of n] all_digits_head [OF show_nat_digits [of n]]
  by (simp add: parse_unsigned_def digits_value_show_nat)

lemma parse_signed_show_int:
  assumes "- int lim \<le> i" and "i < int lim"
  shows "parse_signed lim (show_int i) = Some i"
proof (cases "i < 0")
  case True
  with assms show ?thesis
    by (auto simp: show_int_def parse_signed_def show_nat_digits digits_value_show_nat)
next
  case False
  moreover from False assms have "parse_unsigned lim (show_nat (nat i)) = Some (nat i)"
    by (intro parse_unsigned_show_nat) auto
  ultimately show ?thesis
    using all_digits_head [OF show_nat_digits [of "nat i"]]
    by (auto simp: show_int_def parse_signed_def)
qed

lemma show_nat_inj [simp]: "show_nat m = show_nat n \<longleftrightarrow> m = n"
  by (metis digits_value_show_nat)

lemma digit_graphic: "is_ascii_digit c \<Longrightarrow> is_graphic c"
  by (simp add: is_ascii_digit_def is_graphic_def)

lemma show_nat_graphic: "c \<in> set (show_nat n) \<Longrightarrow> is_graphic c"
  using show_nat_digits [of n] digit_graphic by (auto simp: all_digits_def)

section \<open>Bytes and text\<close>

definition as_bytes :: "string \<Rightarrow> bytes" where
  "as_bytes s = map (\<lambda>c. of_nat (ord c)) s"

definition text_of :: "bytes \<Rightarrow> string" where
  "text_of bs = map (\<lambda>b. char_of (unat b)) bs"

definition is_cont :: "byte \<Rightarrow> bool" where
  "is_cont b \<longleftrightarrow> b AND 0xC0 = 0x80"

text \<open>
  One step of \<open>Utf8Chunks\<close>: whether a character is well formed at the head of \<open>bs\<close>, and how
  many bytes it takes; for an ill-formed one, how many bytes one replacement stands for.
\<close>

definition utf8_step :: "bytes \<Rightarrow> bool \<times> nat" where
  "utf8_step bs =
     (let g = (\<lambda>i. if i < length bs then bs ! i else 0); b = g 0; n = g 1
      in if b < 0x80 then (True, 1)
         else if 0xC2 \<le> b \<and> b \<le> 0xDF then (if is_cont n then (True, 2) else (False, 1))
         else if 0xE0 \<le> b \<and> b \<le> 0xEF then
           if \<not> is_cont n \<or> b = 0xE0 \<and> n < 0xA0 \<or> b = 0xED \<and> 0x9F < n then (False, 1)
           else if is_cont (g 2) then (True, 3) else (False, 2)
         else if 0xF0 \<le> b \<and> b \<le> 0xF4 then
           if \<not> is_cont n \<or> b = 0xF0 \<and> n < 0x90 \<or> b = 0xF4 \<and> 0x8F < n then (False, 1)
           else if \<not> is_cont (g 2) then (False, 2)
           else if is_cont (g 3) then (True, 4) else (False, 3)
         else (False, 1))"

lemma utf8_step_pos: "0 < snd (utf8_step bs)"
  by (simp add: utf8_step_def Let_def)

text \<open>\<open>String::from_utf8_lossy\<close>: each ill-formed piece becomes U+FFFD, the bytes EF BF BD.\<close>

function utf8_lossy :: "bytes \<Rightarrow> bytes" where
  "utf8_lossy bs =
     (if bs = [] then []
      else (if fst (utf8_step bs) then take (snd (utf8_step bs)) bs else [0xEF, 0xBF, 0xBD])
        @ utf8_lossy (drop (snd (utf8_step bs)) bs))"
  by pat_completeness auto
termination
  by (relation "measure length") (simp_all add: utf8_step_pos)

declare utf8_lossy.simps [simp del]

definition from_utf8_lossy :: "bytes \<Rightarrow> string" where
  "from_utf8_lossy bs = text_of (utf8_lossy bs)"

definition is_utf8 :: "bytes \<Rightarrow> bool" where
  "is_utf8 bs \<longleftrightarrow> utf8_lossy bs = bs"

lemma utf8_lossy_ascii: "\<forall>b \<in> set bs. b < 0x80 \<Longrightarrow> utf8_lossy bs = bs"
proof (induction bs)
  case (Cons b bs)
  then have "utf8_step (b # bs) = (True, 1)" by (simp add: utf8_step_def)
  with Cons show ?case by (subst utf8_lossy.simps) simp
qed (simp add: utf8_lossy.simps)

lemma length_text_of [simp]: "length (text_of bs) = length bs"
  by (simp add: text_of_def)

lemma length_as_bytes [simp]: "length (as_bytes s) = length s"
  by (simp add: as_bytes_def)

lemma text_of_append [simp]: "text_of (xs @ ys) = text_of xs @ text_of ys"
  by (simp add: text_of_def)

lemma as_bytes_append [simp]: "as_bytes (xs @ ys) = as_bytes xs @ as_bytes ys"
  by (simp add: as_bytes_def)

lemma text_of_as_bytes [simp]: "text_of (as_bytes s) = s"
  by (simp add: text_of_def as_bytes_def comp_def unat_of_nat take_bit_eq_mod)

lemma as_bytes_text_of [simp]: "as_bytes (text_of bs) = bs"
  by (simp add: text_of_def as_bytes_def comp_def)

text \<open>\<open>contains(pat)\<close> for a non-empty pattern.\<close>

definition contains :: "string \<Rightarrow> string \<Rightarrow> bool" where
  "contains pat s \<longleftrightarrow> find_sub pat s \<noteq> None"

section \<open>I/O errors and readers\<close>

text \<open>The kinds of \<open>std::io::Error\<close> the sources tell apart, and the \<open>Display\<close> text.\<close>

datatype io_kind = TimedOut | WouldBlock | NotFound | InvalidData | InvalidInput | BrokenPipe | UnexpectedEof | OtherIo

record io_error =
  ie_kind :: io_kind
  ie_msg :: string

abbreviation io_err :: "io_kind \<Rightarrow> string \<Rightarrow> io_error" where
  "io_err k m \<equiv> \<lparr>ie_kind = k, ie_msg = m\<rparr>"

text \<open>
  A reader is the list of bytes that will still arrive and the error that the first read
  beyond them returns (end of file, a reset connection, a timeout). \<open>read_exact\<close> of \<open>n\<close> bytes:
\<close>

definition read_exact :: "io_error \<Rightarrow> nat \<Rightarrow> bytes \<Rightarrow> io_error + (bytes \<times> bytes)" where
  "read_exact e n bs = (if n \<le> length bs then Inr (take n bs, drop n bs) else Inl e)"

end
