(* ===== verification/Mtproto.thy ===== *)
theory Mtproto
  imports Rust_Prelude
begin

text \<open>
  \<open>mtproto.rs\<close>, the cryptographic half: the obfuscated2 handshake of a direct client, the
  relay-init packet the proxy sends in its place, and the re-encrypting session context.

  AES-256-CTR comes from the \<open>aes\<close> and \<open>ctr\<close> crates, which are not part of the repository:
  the keystream is the parameter \<open>ks\<close>, a function from key, IV and byte position. What the
  code relies on is only that a CTR stream XORs the data with the keystream at the current
  position and moves on (the interface \<open>stream_cipher\<close> below), and that \<open>new_from_slices\<close>
  accepts exactly a 32-byte key and a 16-byte IV. The random generator is an argument: the
  list of the 64-byte draws of the loop.
\<close>

section \<open>The interface: byte streams and stream ciphers\<close>

locale byte_stream =
  fixes push :: "'s \<Rightarrow> bytes \<Rightarrow> bytes \<times> 's"
  assumes push_Nil: "push s [] = ([], s)"
    and push_length: "length (fst (push s xs)) = length xs"
    and push_append: "push s (xs @ ys) =
      (fst (push s xs) @ fst (push (snd (push s xs)) ys), snd (push (snd (push s xs)) ys))"
begin

text \<open>How the input is cut into chunks does not matter.\<close>

lemma run_all_concat:
  "concat (fst (run_all push s cs)) = fst (push s (concat cs)) \<and>
   snd (run_all push s cs) = snd (push s (concat cs))"
  by (induction cs arbitrary: s) (simp_all add: push_Nil push_append)

lemma run_all_lengths: "map length (fst (run_all push s cs)) = map length cs"
  by (induction cs arbitrary: s) (simp_all add: push_length)

end

locale stream_cipher = byte_stream push
  for push :: "'s \<Rightarrow> bytes \<Rightarrow> bytes \<times> 's" +
  assumes push_involution: "fst (push s (fst (push s xs))) = xs"
    and push_state: "length xs = length ys \<Longrightarrow> snd (push s xs) = snd (push s ys)"
begin

text \<open>A receiver in the sender's state reads what the sender wrote, whatever the chunks.\<close>

lemma decrypts_any_chunking:
  assumes "concat cs = fst (push s xs)"
  shows "concat (fst (run_all push s cs)) = xs \<and> snd (run_all push s cs) = snd (push s xs)"
proof
  have "concat (fst (run_all push s cs)) = fst (push s (concat cs))"
    by (simp add: run_all_concat)
  also have "\<dots> = xs" unfolding assms by (rule push_involution)
  finally show "concat (fst (run_all push s cs)) = xs" .
  have "snd (run_all push s cs) = snd (push s (concat cs))"
    by (simp add: run_all_concat)
  also have "\<dots> = snd (push s xs)"
    unfolding assms by (rule push_state) (rule push_length)
  finally show "snd (run_all push s cs) = snd (push s xs)" .
qed

end

section \<open>The CTR stream\<close>

type_synonym keystream = "bytes \<Rightarrow> bytes \<Rightarrow> nat \<Rightarrow> byte"

record aes_ctr =
  ctr_key :: bytes
  ctr_iv :: bytes
  ctr_pos :: nat

text \<open>\<open>None\<close> is the error \<open>InvalidLength\<close> of \<open>new_from_slices\<close>.\<close>

definition new_ctr :: "bytes \<Rightarrow> bytes \<Rightarrow> aes_ctr option" where
  "new_ctr k i =
     (if length k = 32 \<and> length i = 16 then Some \<lparr>ctr_key = k, ctr_iv = i, ctr_pos = 0\<rparr>
      else None)"

definition apply_keystream :: "keystream \<Rightarrow> aes_ctr \<Rightarrow> bytes \<Rightarrow> bytes \<times> aes_ctr" where
  "apply_keystream ks c data =
     (map2 (\<lambda>b j. b XOR ks (ctr_key c) (ctr_iv c) (ctr_pos c + j)) data [0..<length data],
      c\<lparr>ctr_pos := ctr_pos c + length data\<rparr>)"

lemma length_apply_keystream [simp]: "length (fst (apply_keystream ks c xs)) = length xs"
  by (simp add: apply_keystream_def)

lemma snd_apply_keystream [simp]:
  "snd (apply_keystream ks c xs) = c\<lparr>ctr_pos := ctr_pos c + length xs\<rparr>"
  by (simp add: apply_keystream_def)

lemma nth_apply_keystream:
  "n < length xs \<Longrightarrow>
   fst (apply_keystream ks c xs) ! n = xs ! n XOR ks (ctr_key c) (ctr_iv c) (ctr_pos c + n)"
  by (simp add: apply_keystream_def)

interpretation ctr: stream_cipher "apply_keystream ks" for ks
proof unfold_locales
  fix s xs and ys :: bytes
  show "apply_keystream ks s [] = ([], s)"
    by (simp add: apply_keystream_def)
  show "length (fst (apply_keystream ks s xs)) = length xs"
    by simp
  show "apply_keystream ks s (xs @ ys) =
      (fst (apply_keystream ks s xs) @
         fst (apply_keystream ks (snd (apply_keystream ks s xs)) ys),
       snd (apply_keystream ks (snd (apply_keystream ks s xs)) ys))"
  proof (rule prod_eqI; simp only: fst_conv snd_conv)
    show "fst (apply_keystream ks s (xs @ ys)) = fst (apply_keystream ks s xs) @
         fst (apply_keystream ks (snd (apply_keystream ks s xs)) ys)"
      by (rule nth_equalityI) (auto simp: nth_apply_keystream nth_append)
  qed (simp add: add.assoc)
  show "fst (apply_keystream ks s (fst (apply_keystream ks s xs))) = xs"
    by (rule nth_equalityI) (auto simp: nth_apply_keystream xor.assoc)
  show "length xs = length ys \<Longrightarrow> snd (apply_keystream ks s xs) = snd (apply_keystream ks s ys)"
    by simp
qed

section \<open>Constants\<close>

definition HANDSHAKE_LEN :: nat where "HANDSHAKE_LEN = 64"
definition SKIP_LEN :: nat where "SKIP_LEN = 8"
definition PREKEY_LEN :: nat where "PREKEY_LEN = 32"
definition IV_LEN :: nat where "IV_LEN = 16"
definition PROTO_TAG_POS :: nat where "PROTO_TAG_POS = 56"

definition PROTO_ABRIDGED_INT :: "32 word" where "PROTO_ABRIDGED_INT = 0xEFEFEFEF"
definition PROTO_INTERMEDIATE_INT :: "32 word" where "PROTO_INTERMEDIATE_INT = 0xEEEEEEEE"
definition PROTO_PADDED_INTERMEDIATE_INT :: "32 word" where
  "PROTO_PADDED_INTERMEDIATE_INT = 0xDDDDDDDD"

definition PROTO_TAG_ABRIDGED :: bytes where "PROTO_TAG_ABRIDGED = [0xef, 0xef, 0xef, 0xef]"
definition PROTO_TAG_INTERMEDIATE :: bytes where
  "PROTO_TAG_INTERMEDIATE = [0xee, 0xee, 0xee, 0xee]"
definition PROTO_TAG_SECURE :: bytes where "PROTO_TAG_SECURE = [0xdd, 0xdd, 0xdd, 0xdd]"

text \<open>16 MiB plus the largest length header, and the WebSocket frame cap.\<close>

definition MAX_MTPROTO_PACKET :: nat where "MAX_MTPROTO_PACKET = 16 * 1024 * 1024 + 4"
definition MAX_WS_PAYLOAD :: nat where "MAX_WS_PAYLOAD = 16 * 1024 * 1024 + 64"

definition reserved_first_bytes :: "byte list" where "reserved_first_bytes = [0xEF]"

definition reserved_starts :: "bytes list" where
  "reserved_starts =
     [[0x48, 0x45, 0x41, 0x44], [0x50, 0x4F, 0x53, 0x54], [0x47, 0x45, 0x54, 0x20],
      [0xee, 0xee, 0xee, 0xee], [0xdd, 0xdd, 0xdd, 0xdd], [0x16, 0x03, 0x01, 0x02],
      [0, 0, 0, 0]]"

lemmas layout_defs = HANDSHAKE_LEN_def SKIP_LEN_def PREKEY_LEN_def IV_LEN_def PROTO_TAG_POS_def
lemmas tag_defs = PROTO_TAG_ABRIDGED_def PROTO_TAG_INTERMEDIATE_def PROTO_TAG_SECURE_def
lemmas proto_defs = PROTO_ABRIDGED_INT_def PROTO_INTERMEDIATE_INT_def
  PROTO_PADDED_INTERMEDIATE_INT_def

section \<open>The client handshake\<close>

record handshake_info =
  hi_dc :: int
  hi_is_media :: bool
  hi_dc_in_pkt :: bool
  hi_proto_int :: "32 word"
  hi_handshake :: bytes

datatype mtproto_error = HandshakeLength nat | InvalidKeyIv | UnknownProtoTag bytes

definition valid_dc :: "int \<Rightarrow> bool" where
  "valid_dc dc \<longleftrightarrow> (1 \<le> dc \<and> dc \<le> 5) \<or> dc = 203"

text \<open>\<open>i16::from_le_bytes\<close> and \<open>u16::to_le_bytes\<close>.\<close>

definition i16_le :: "byte \<Rightarrow> byte \<Rightarrow> int" where
  "i16_le b0 b1 = sint (ucast b0 OR push_bit 8 (ucast b1) :: 16 word)"

definition u16_to_le :: "16 word \<Rightarrow> bytes" where
  "u16_to_le w = [ucast w, ucast (drop_bit 8 w)]"

text \<open>\<open>&h[SKIP_LEN..SKIP_LEN + PREKEY_LEN]\<close> and the 16 bytes after it.\<close>

definition prekey :: "bytes \<Rightarrow> bytes option" where
  "prekey h = slice h SKIP_LEN (SKIP_LEN + PREKEY_LEN)"

definition prekey_iv :: "bytes \<Rightarrow> bytes option" where
  "prekey_iv h = slice h (SKIP_LEN + PREKEY_LEN) (SKIP_LEN + PREKEY_LEN + IV_LEN)"

definition proto_int_of :: "bytes \<Rightarrow> 32 word" where
  "proto_int_of tag =
     (if tag = PROTO_TAG_ABRIDGED then PROTO_ABRIDGED_INT
      else if tag = PROTO_TAG_INTERMEDIATE then PROTO_INTERMEDIATE_INT
      else PROTO_PADDED_INTERMEDIATE_INT)"

definition proto_tag_for :: "32 word \<Rightarrow> bytes" where
  "proto_tag_for proto_int =
     (if proto_int = PROTO_ABRIDGED_INT then PROTO_TAG_ABRIDGED
      else if proto_int = PROTO_INTERMEDIATE_INT then PROTO_TAG_INTERMEDIATE
      else PROTO_TAG_SECURE)"

text \<open>
  The two keystream calls on one stream: the first skips 56 bytes, the second decrypts the
  tail. The slices cannot fail once the length is 64, so there is no panic to model.
\<close>

definition parse_direct_handshake :: "keystream \<Rightarrow> bytes \<Rightarrow> mtproto_error + handshake_info" where
  "parse_direct_handshake ks h =
     (if length h \<noteq> HANDSHAKE_LEN then Inl (HandshakeLength (length h))
      else
        let dec_key = take PREKEY_LEN (drop SKIP_LEN h);
            dec_iv = take IV_LEN (drop (SKIP_LEN + PREKEY_LEN) h)
        in case new_ctr dec_key dec_iv of
             None \<Rightarrow> Inl InvalidKeyIv
           | Some stream \<Rightarrow>
               let stream1 = snd (apply_keystream ks stream (replicate PROTO_TAG_POS 0));
                   tail = fst (apply_keystream ks stream1 (drop PROTO_TAG_POS h));
                   tag = take 4 tail
               in if tag \<noteq> PROTO_TAG_ABRIDGED \<and> tag \<noteq> PROTO_TAG_INTERMEDIATE
                    \<and> tag \<noteq> PROTO_TAG_SECURE
                  then Inl (UnknownProtoTag tag)
                  else
                    let dc_idx = i16_le (tail ! 4) (tail ! 5);
                        media0 = dc_idx < 0;
                        dc0 = (if dc_idx < 0 then - dc_idx else dc_idx)
                    in Inr \<lparr>hi_dc = (if valid_dc dc0 then dc0 else 0),
                            hi_is_media = (valid_dc dc0 \<and> media0),
                            hi_dc_in_pkt = valid_dc dc0,
                            hi_proto_int = proto_int_of tag,
                            hi_handshake = h\<rparr>)"

section \<open>The relay-init packet\<close>

text \<open>A draw of the random generator is redrawn when its start looks like another protocol.\<close>

definition draw_rejected :: "bytes \<Rightarrow> bool" where
  "draw_rejected rnd \<longleftrightarrow>
     rnd ! 0 \<in> set reserved_first_bytes \<or>
     [rnd ! 0, rnd ! 1, rnd ! 2, rnd ! 3] \<in> set reserved_starts \<or>
     [rnd ! 4, rnd ! 5, rnd ! 6, rnd ! 7] = [0, 0, 0, 0]"

definition seal_relay_init :: "keystream \<Rightarrow> bytes \<Rightarrow> int \<Rightarrow> bytes \<Rightarrow> mtproto_error + bytes" where
  "seal_relay_init ks proto_tag dc_idx rnd =
     (let enc_key = take PREKEY_LEN (drop SKIP_LEN rnd);
          enc_iv = take IV_LEN (drop (SKIP_LEN + PREKEY_LEN) rnd)
      in case new_ctr enc_key enc_iv of
           None \<Rightarrow> Inl InvalidKeyIv
         | Some stream \<Rightarrow>
             let encrypted_full = fst (apply_keystream ks stream rnd);
                 tail_plain = proto_tag @ u16_to_le (word_of_int dc_idx) @ [rnd ! 62, rnd ! 63];
                 encrypted_tail =
                   map (\<lambda>i. tail_plain ! i XOR encrypted_full ! (PROTO_TAG_POS + i)
                            XOR rnd ! (PROTO_TAG_POS + i)) [0..<8]
             in Inr (take PROTO_TAG_POS rnd @ encrypted_tail @ drop (PROTO_TAG_POS + 8) rnd))"

text \<open>
  The loop over the draws: \<open>None\<close> when every draw so far was rejected, that is, the loop is
  still running.
\<close>

fun generate_relay_init ::
  "keystream \<Rightarrow> bytes \<Rightarrow> int \<Rightarrow> bytes list \<Rightarrow> (mtproto_error + bytes) option" where
  "generate_relay_init ks proto_tag dc_idx [] = None"
| "generate_relay_init ks proto_tag dc_idx (rnd # rnds) =
     (if draw_rejected rnd then generate_relay_init ks proto_tag dc_idx rnds
      else Some (seal_relay_init ks proto_tag dc_idx rnd))"

section \<open>The session context\<close>

record crypto_ctx =
  clt_dec :: aes_ctr
  clt_enc :: aes_ctr
  tg_enc :: aes_ctr
  tg_dec :: aes_ctr

record crypto_up =
  up_clt_dec :: aes_ctr
  up_tg_enc :: aes_ctr

record crypto_down =
  down_tg_dec :: aes_ctr
  down_clt_enc :: aes_ctr

definition recrypt ::
  "keystream \<Rightarrow> aes_ctr \<times> aes_ctr \<Rightarrow> bytes \<Rightarrow> bytes \<times> (aes_ctr \<times> aes_ctr)" where
  "recrypt ks ab input =
     (let (out1, a') = apply_keystream ks (fst ab) input;
          (out2, b') = apply_keystream ks (snd ab) out1
      in (out2, (a', b')))"

definition split_ctx :: "crypto_ctx \<Rightarrow> crypto_up \<times> crypto_down" where
  "split_ctx c =
     (\<lparr>up_clt_dec = clt_dec c, up_tg_enc = tg_enc c\<rparr>,
      \<lparr>down_tg_dec = tg_dec c, down_clt_enc = clt_enc c\<rparr>)"

text \<open>
  \<open>CryptoCtx::build_direct\<close>: the outer \<open>None\<close> is the slice panic on a short argument. The
  client and relay streams in the direction of the telegram servers have already consumed the
  64 bytes of the handshake; the other two use the reversed key material and start at 0.
\<close>

definition build_direct ::
  "keystream \<Rightarrow> bytes \<Rightarrow> bytes \<Rightarrow> (mtproto_error + crypto_ctx) option" where
  "build_direct ks h relay_init = do {
     clt_dec_key \<leftarrow> prekey h;
     clt_dec_iv \<leftarrow> prekey_iv h;
     piv \<leftarrow> slice h SKIP_LEN (SKIP_LEN + PREKEY_LEN + IV_LEN);
     relay_enc_key \<leftarrow> prekey relay_init;
     relay_enc_iv \<leftarrow> prekey_iv relay_init;
     rpiv \<leftarrow> slice relay_init SKIP_LEN (SKIP_LEN + PREKEY_LEN + IV_LEN);
     Some (case (new_ctr clt_dec_key clt_dec_iv,
                 new_ctr (take PREKEY_LEN (rev piv)) (drop PREKEY_LEN (rev piv)),
                 new_ctr relay_enc_key relay_enc_iv,
                 new_ctr (take PREKEY_LEN (rev rpiv)) (drop PREKEY_LEN (rev rpiv))) of
             (Some cd, Some ce, Some te, Some td) \<Rightarrow>
               Inr \<lparr>clt_dec = snd (apply_keystream ks cd (replicate HANDSHAKE_LEN 0)),
                    clt_enc = ce,
                    tg_enc = snd (apply_keystream ks te (replicate HANDSHAKE_LEN 0)),
                    tg_dec = td\<rparr>
           | _ \<Rightarrow> Inl InvalidKeyIv)
   }"

definition client_to_telegram :: "keystream \<Rightarrow> crypto_up \<Rightarrow> bytes \<Rightarrow> bytes \<times> crypto_up" where
  "client_to_telegram ks u input =
     (let (out, (a, b)) = recrypt ks (up_clt_dec u, up_tg_enc u) input
      in (out, u\<lparr>up_clt_dec := a, up_tg_enc := b\<rparr>))"

definition telegram_to_client :: "keystream \<Rightarrow> crypto_down \<Rightarrow> bytes \<Rightarrow> bytes \<times> crypto_down" where
  "telegram_to_client ks d input =
     (let (out, (a, b)) = recrypt ks (down_tg_dec d, down_clt_enc d) input
      in (out, d\<lparr>down_tg_dec := a, down_clt_enc := b\<rparr>))"

definition new_relay_decrypt_stream :: "keystream \<Rightarrow> bytes \<Rightarrow> (mtproto_error + aes_ctr) option" where
  "new_relay_decrypt_stream ks relay_init = do {
     enc_key \<leftarrow> prekey relay_init;
     enc_iv \<leftarrow> prekey_iv relay_init;
     Some (case new_ctr enc_key enc_iv of
             None \<Rightarrow> Inl InvalidKeyIv
           | Some c \<Rightarrow> Inr (snd (apply_keystream ks c (replicate HANDSHAKE_LEN 0))))
   }"

section \<open>The streams of a session\<close>

text \<open>
  What the obfuscated2 protocol prescribes for a 64-byte init packet \<open>h\<close>: the sender of the
  packet encrypts with the key material read forwards, from position 64; its peer answers with
  the material reversed, from position 0.
\<close>

definition obf_forward :: "bytes \<Rightarrow> aes_ctr" where
  "obf_forward h = \<lparr>ctr_key = take 32 (drop 8 h), ctr_iv = take 16 (drop 40 h), ctr_pos = 64\<rparr>"

definition obf_backward :: "bytes \<Rightarrow> aes_ctr" where
  "obf_backward h =
     (let r = rev (take 48 (drop 8 h))
      in \<lparr>ctr_key = take 32 r, ctr_iv = drop 32 r, ctr_pos = 0\<rparr>)"

lemma prekey_64: "length h = 64 \<Longrightarrow> prekey h = Some (take 32 (drop 8 h))"
  by (simp add: prekey_def layout_defs byte_simps)

lemma prekey_iv_64: "length h = 64 \<Longrightarrow> prekey_iv h = Some (take 16 (drop 40 h))"
  by (simp add: prekey_iv_def layout_defs byte_simps)

lemma build_direct_64:
  assumes "length h = 64" and "length r = 64"
  shows "build_direct ks h r =
    Some (Inr \<lparr>clt_dec = obf_forward h, clt_enc = obf_backward h,
               tg_enc = obf_forward r, tg_dec = obf_backward r\<rparr>)"
  using assms
  by (simp add: build_direct_def prekey_64 prekey_iv_64 byte_simps layout_defs new_ctr_def
      obf_forward_def obf_backward_def Let_def)

lemma new_relay_decrypt_stream_64:
  "length r = 64 \<Longrightarrow> new_relay_decrypt_stream ks r = Some (Inr (obf_forward r))"
  by (simp add: new_relay_decrypt_stream_def prekey_64 prekey_iv_64 layout_defs new_ctr_def
      obf_forward_def)

lemma recrypt_fst: "fst (recrypt ks (a, b) xs) =
    fst (apply_keystream ks b (fst (apply_keystream ks a xs)))"
  by (simp add: recrypt_def split_def Let_def)

lemma recrypt_snd: "snd (recrypt ks (a, b) xs) =
    (a\<lparr>ctr_pos := ctr_pos a + length xs\<rparr>, b\<lparr>ctr_pos := ctr_pos b + length xs\<rparr>)"
  by (simp add: recrypt_def split_def Let_def)

text \<open>Each relay direction is a byte stream again, so its chunking is immaterial.\<close>

interpretation rc: byte_stream "recrypt ks" for ks
proof unfold_locales
  fix s :: "aes_ctr \<times> aes_ctr" and xs ys :: bytes
  obtain a b where s: "s = (a, b)" by fastforce
  show "recrypt ks s [] = ([], s)"
    by (simp add: s recrypt_def ctr.push_Nil)
  show "length (fst (recrypt ks s xs)) = length xs"
    by (simp add: s recrypt_fst)
  show "recrypt ks s (xs @ ys) =
      (fst (recrypt ks s xs) @ fst (recrypt ks (snd (recrypt ks s xs)) ys),
       snd (recrypt ks (snd (recrypt ks s xs)) ys))"
    by (simp add: s prod_eq_iff recrypt_fst recrypt_snd ctr.push_append add.assoc)
qed

lemma client_to_telegram_recrypt:
  "client_to_telegram ks u xs =
     (fst (recrypt ks (up_clt_dec u, up_tg_enc u) xs),
      u\<lparr>up_clt_dec := fst (snd (recrypt ks (up_clt_dec u, up_tg_enc u) xs)),
        up_tg_enc := snd (snd (recrypt ks (up_clt_dec u, up_tg_enc u) xs))\<rparr>)"
  by (simp add: client_to_telegram_def split_def Let_def)

lemma telegram_to_client_recrypt:
  "telegram_to_client ks d xs =
     (fst (recrypt ks (down_tg_dec d, down_clt_enc d) xs),
      d\<lparr>down_tg_dec := fst (snd (recrypt ks (down_tg_dec d, down_clt_enc d) xs)),
        down_clt_enc := snd (snd (recrypt ks (down_tg_dec d, down_clt_enc d) xs))\<rparr>)"
  by (simp add: telegram_to_client_def split_def Let_def)

interpretation up: byte_stream "client_to_telegram ks" for ks
  by unfold_locales
    (simp_all add: client_to_telegram_recrypt rc.push_Nil rc.push_length rc.push_append)

interpretation down: byte_stream "telegram_to_client ks" for ks
  by unfold_locales
    (simp_all add: telegram_to_client_recrypt rc.push_Nil rc.push_length rc.push_append)

section \<open>Round trip of the relay-init packet\<close>

lemma u16_le_join:
  "(ucast (ucast (w :: 16 word) :: byte) OR push_bit 8 (ucast (ucast (drop_bit 8 w) :: byte))
     :: 16 word) = w"
  by (rule bit_word_eqI) (auto simp: bit_simps)

lemma i16_le_to_le: "i16_le (u16_to_le w ! 0) (u16_to_le w ! 1) = sint w"
  by (simp add: i16_le_def u16_to_le_def u16_le_join)

lemma sint_word_of_int_16:
  assumes "- 32768 \<le> d" and "d < 32768"
  shows "sint (word_of_int d :: 16 word) = d"
  using assms by (simp add: sint_sbintrunc' signed_take_bit_int_eq_self)

lemma sealed_relay_init:
  assumes len: "length rnd = 64" and tag: "length tag = 4"
  obtains relay where "seal_relay_init ks tag d rnd = Inr relay" and "length relay = 64"
    and "take 56 relay = take 56 rnd"
    and "fst (apply_keystream ks
        \<lparr>ctr_key = take 32 (drop 8 rnd), ctr_iv = take 16 (drop 40 rnd), ctr_pos = 56\<rparr>
        (drop 56 relay)) = tag @ u16_to_le (word_of_int d) @ [rnd ! 62, rnd ! 63]"
proof -
  define c where
    "c = \<lparr>ctr_key = take 32 (drop 8 rnd), ctr_iv = take 16 (drop 40 rnd), ctr_pos = 0\<rparr>"
  define plain where "plain = tag @ u16_to_le (word_of_int d) @ [rnd ! 62, rnd ! 63]"
  define tl where "tl = map (\<lambda>i. plain ! i XOR fst (apply_keystream ks c rnd) ! (56 + i)
      XOR rnd ! (56 + i)) [0..<8]"
  define relay where "relay = take 56 rnd @ tl"
  have plen: "length plain = 8" using tag by (simp add: plain_def u16_to_le_def)
  have seal: "seal_relay_init ks tag d rnd = Inr relay"
    using len by (simp add: seal_relay_init_def layout_defs new_ctr_def c_def plain_def tl_def
        relay_def Let_def)
  have dec: "fst (apply_keystream ks (c\<lparr>ctr_pos := 56\<rparr>) (drop 56 relay)) = plain"
    (is "?l = _")
  proof (rule nth_equalityI)
    show "length ?l = length plain" using len plen by (simp add: relay_def tl_def)
    fix i assume "i < length ?l"
    then have i: "i < 8" using len by (simp add: relay_def tl_def)
    then have "?l ! i = tl ! i XOR ks (ctr_key c) (ctr_iv c) (56 + i)"
      using len by (subst nth_apply_keystream) (auto simp: relay_def tl_def)
    also have "\<dots> = plain ! i"
      using i len by (simp add: tl_def nth_apply_keystream c_def xor.assoc xor.left_commute)
    finally show "?l ! i = plain ! i" .
  qed
  show thesis
  proof (rule that [OF seal])
    show "length relay = 64" using len by (simp add: relay_def tl_def)
    show "take 56 relay = take 56 rnd" using len by (simp add: relay_def)
  qed (use dec in \<open>simp add: c_def plain_def\<close>)
qed

definition known_tag :: "bytes \<Rightarrow> bool" where
  "known_tag tag \<longleftrightarrow>
     tag = PROTO_TAG_ABRIDGED \<or> tag = PROTO_TAG_INTERMEDIATE \<or> tag = PROTO_TAG_SECURE"

lemma known_tag_length: "known_tag tag \<Longrightarrow> length tag = 4"
  by (auto simp: known_tag_def tag_defs)

lemma proto_tag_for_known: "known_tag (proto_tag_for p)"
  by (simp add: proto_tag_for_def known_tag_def)

lemma proto_int_of_tag_for:
  "p \<in> {PROTO_ABRIDGED_INT, PROTO_INTERMEDIATE_INT, PROTO_PADDED_INTERMEDIATE_INT} \<Longrightarrow>
   proto_int_of (proto_tag_for p) = p"
  by (auto simp: proto_int_of_def proto_tag_for_def tag_defs proto_defs)

lemma valid_dc_bounds: "valid_dc dc \<Longrightarrow> 1 \<le> dc \<and> dc \<le> 203"
  by (auto simp: valid_dc_def)

lemma parse_tail:
  assumes "length h = 64"
    and tail: "fst (apply_keystream ks
        \<lparr>ctr_key = take 32 (drop 8 h), ctr_iv = take 16 (drop 40 h), ctr_pos = 56\<rparr>
        (drop 56 h)) = tag @ u16_to_le (word_of_int d) @ rest"
    and tag: "known_tag tag"
    and d: "- 32768 \<le> d" "d < 32768"
  shows "parse_direct_handshake ks h =
    Inr \<lparr>hi_dc = (if valid_dc \<bar>d\<bar> then \<bar>d\<bar> else 0), hi_is_media = (valid_dc \<bar>d\<bar> \<and> d < 0),
         hi_dc_in_pkt = valid_dc \<bar>d\<bar>, hi_proto_int = proto_int_of tag, hi_handshake = h\<rparr>"
proof -
  note l4 = known_tag_length [OF tag]
  have idx: "i16_le ((tag @ u16_to_le (word_of_int d) @ rest) ! 4)
      ((tag @ u16_to_le (word_of_int d) @ rest) ! 5) = d"
    using i16_le_to_le [of "word_of_int d"] sint_word_of_int_16 [OF d] l4
    by (simp add: nth_append u16_to_le_def)
  have "take 4 (tag @ u16_to_le (word_of_int d) @ rest) = tag" using l4 by simp
  then show ?thesis
    using assms(1) tail idx tag
    by (auto simp: parse_direct_handshake_def layout_defs new_ctr_def Let_def known_tag_def)
qed

lemma generate_relay_init_found:
  "\<exists>rnd \<in> set rnds. \<not> draw_rejected rnd \<Longrightarrow>
   \<exists>rnd \<in> set rnds. \<not> draw_rejected rnd \<and>
     generate_relay_init ks tag d rnds = Some (seal_relay_init ks tag d rnd)"
  by (induction rnds) auto

text \<open>
  C21: As soon as one random draw is acceptable, \<open>generate_relay_init\<close> returns a 64-byte packet
  that the proxy's own \<open>parse_direct_handshake\<close> reads back as the same transport, the same
  DC and the same media flag (the sign of \<open>dc_idx\<close>), for each transport tag and valid DC.
\<close>

theorem relay_init_roundtrip:
  assumes "\<forall>rnd \<in> set rnds. length rnd = 64" and "\<exists>rnd \<in> set rnds. \<not> draw_rejected rnd"
    and "known_tag tag" and "valid_dc \<bar>d\<bar>"
  shows "\<exists>relay. generate_relay_init ks tag d rnds = Some (Inr relay) \<and> length relay = 64 \<and>
    parse_direct_handshake ks relay =
      Inr \<lparr>hi_dc = \<bar>d\<bar>, hi_is_media = (d < 0), hi_dc_in_pkt = True,
           hi_proto_int = proto_int_of tag, hi_handshake = relay\<rparr>"
proof -
  from generate_relay_init_found [OF assms(2)] obtain rnd where rnd: "rnd \<in> set rnds"
    and gen: "generate_relay_init ks tag d rnds = Some (seal_relay_init ks tag d rnd)" by blast
  from rnd assms(1) have len: "length rnd = 64" by blast
  from sealed_relay_init [OF len known_tag_length [OF assms(3)]] obtain relay
    where seal: "seal_relay_init ks tag d rnd = Inr relay" and rlen: "length relay = 64"
      and pre: "take 56 relay = take 56 rnd"
      and dec: "fst (apply_keystream ks
        \<lparr>ctr_key = take 32 (drop 8 rnd), ctr_iv = take 16 (drop 40 rnd), ctr_pos = 56\<rparr>
        (drop 56 relay)) = tag @ u16_to_le (word_of_int d) @ [rnd ! 62, rnd ! 63]" .
  have key: "take 32 (drop 8 relay) = take 32 (drop 8 rnd)"
      "take 16 (drop 40 relay) = take 16 (drop 40 rnd)"
    using arg_cong [OF pre, of "\<lambda>x. take 32 (drop 8 x)"]
      arg_cong [OF pre, of "\<lambda>x. take 16 (drop 40 x)"] by (simp_all add: drop_take)
  have "parse_direct_handshake ks relay =
      Inr \<lparr>hi_dc = (if valid_dc \<bar>d\<bar> then \<bar>d\<bar> else 0), hi_is_media = (valid_dc \<bar>d\<bar> \<and> d < 0),
           hi_dc_in_pkt = valid_dc \<bar>d\<bar>, hi_proto_int = proto_int_of tag, hi_handshake = relay\<rparr>"
    using valid_dc_bounds [OF assms(4)] dec
    by (intro parse_tail [OF rlen _ assms(3)]) (auto simp: key)
  with gen seal rlen assms(4) show ?thesis by auto
qed

definition sample_draw :: bytes where
  "sample_draw = map of_nat [1..<65]"

lemma sample_draw_facts: "length sample_draw = 64" "\<not> draw_rejected sample_draw"
  by (simp_all add: sample_draw_def draw_rejected_def reserved_first_bytes_def
      reserved_starts_def upt_rec_numeral)

theorem relay_init_roundtrip_witness:
  "\<exists>relay. generate_relay_init (\<lambda>k i n. of_nat n) PROTO_TAG_INTERMEDIATE (- 4) [sample_draw]
       = Some (Inr relay) \<and> length relay = 64 \<and>
     parse_direct_handshake (\<lambda>k i n. of_nat n) relay =
       Inr \<lparr>hi_dc = \<bar>- 4\<bar>, hi_is_media = (- 4 < (0::int)), hi_dc_in_pkt = True,
            hi_proto_int = proto_int_of PROTO_TAG_INTERMEDIATE, hi_handshake = relay\<rparr>"
  using relay_init_roundtrip [of "[sample_draw]" PROTO_TAG_INTERMEDIATE "- 4"
      "\<lambda>k i n. of_nat n"] sample_draw_facts
  by (simp add: known_tag_def valid_dc_def)

text \<open>
  The packet \<open>generate_relay_init\<close> returns still starts with the bytes of an accepted
  draw: it does not look like HTTP, TLS or an unobfuscated transport, and its second word is
  not zero, so a middlebox or the server cannot mistake it for one.
\<close>

lemma relay_init_not_reserved:
  assumes "\<forall>rnd \<in> set rnds. length rnd = 64" and "length tag = 4"
    and "generate_relay_init ks tag d rnds = Some (Inr relay)"
  shows "\<not> draw_rejected relay"
proof -
  from assms(3) have "\<exists>rnd \<in> set rnds. \<not> draw_rejected rnd"
    by (induction rnds) (auto split: if_splits)
  from generate_relay_init_found [OF this] obtain rnd
    where rnd: "rnd \<in> set rnds" "\<not> draw_rejected rnd"
      and gen: "generate_relay_init ks tag d rnds = Some (seal_relay_init ks tag d rnd)" by blast
  from rnd assms(1) have len: "length rnd = 64" by blast
  from sealed_relay_init [OF len assms(2)] obtain relay' where
    "seal_relay_init ks tag d rnd = Inr relay'" and pre: "take 56 relay' = take 56 rnd" .
  with gen assms(3) have [simp]: "relay' = relay" by simp
  have "relay ! i = rnd ! i" if "i < 56" for i
    using arg_cong [OF pre, of "\<lambda>x. x ! i"] that by simp
  with rnd(2) show ?thesis by (simp add: draw_rejected_def)
qed

lemma relay_init_not_reserved_witness:
  "\<exists>relay. generate_relay_init (\<lambda>k i n. of_nat n) PROTO_TAG_ABRIDGED 2 [sample_draw]
      = Some (Inr relay) \<and> \<not> draw_rejected relay"
proof -
  obtain relay where "seal_relay_init (\<lambda>k i n. of_nat n) PROTO_TAG_ABRIDGED 2 sample_draw
      = Inr relay"
    using sealed_relay_init [OF sample_draw_facts(1), of PROTO_TAG_ABRIDGED]
    by (metis known_tag_def known_tag_length)
  then have gen: "generate_relay_init (\<lambda>k i n. of_nat n) PROTO_TAG_ABRIDGED 2 [sample_draw]
      = Some (Inr relay)"
    using sample_draw_facts(2) by simp
  moreover have "\<not> draw_rejected relay"
    by (rule relay_init_not_reserved [OF _ _ gen])
      (simp_all add: sample_draw_facts(1) tag_defs)
  ultimately show ?thesis by blast
qed

text \<open>
  C1: A session is transparent in both directions: whatever the chunks in which the bytes
  arrive, Telegram, holding the keys of the relay-init packet, decrypts exactly the bytes the
  client encrypted, and the client, holding the keys of its handshake, decrypts exactly the
  bytes Telegram encrypted.
\<close>

theorem session_transparent:
  assumes "length h = 64" and "length r = 64"
    and "concat ups = fst (apply_keystream ks (obf_forward h) p)"
    and "concat downs = fst (apply_keystream ks (obf_backward r) q)"
  shows "\<exists>c. build_direct ks h r = Some (Inr c) \<and>
    fst (apply_keystream ks (obf_forward r)
      (concat (fst (run_all (client_to_telegram ks) (fst (split_ctx c)) ups)))) = p \<and>
    fst (apply_keystream ks (obf_backward h)
      (concat (fst (run_all (telegram_to_client ks) (snd (split_ctx c)) downs)))) = q"
  using assms
  by (simp add: build_direct_64 up.run_all_concat down.run_all_concat split_ctx_def
      client_to_telegram_recrypt telegram_to_client_recrypt recrypt_fst ctr.push_involution)

theorem session_transparent_witness:
  "\<exists>c. build_direct (\<lambda>k i n. k ! 0 + of_nat n) sample_draw sample_draw = Some (Inr c) \<and>
    fst (apply_keystream (\<lambda>k i n. k ! 0 + of_nat n) (obf_forward sample_draw)
      (concat (fst (run_all (client_to_telegram (\<lambda>k i n. k ! 0 + of_nat n)) (fst (split_ctx c))
        [fst (apply_keystream (\<lambda>k i n. k ! 0 + of_nat n) (obf_forward sample_draw) [1, 2, 3]),
         []])))) = [1, 2, 3] \<and>
    fst (apply_keystream (\<lambda>k i n. k ! 0 + of_nat n) (obf_backward sample_draw)
      (concat (fst (run_all (telegram_to_client (\<lambda>k i n. k ! 0 + of_nat n)) (snd (split_ctx c))
        [fst (apply_keystream (\<lambda>k i n. k ! 0 + of_nat n) (obf_backward sample_draw) [7])]))))
      = [7]"
  by (rule session_transparent) (simp_all add: sample_draw_facts(1))



end
