(* ===== verification/Routing.thy ===== *)
theory Routing
  imports Rust_Text Mtproto
begin

text \<open>
  \<open>mtproto.rs\<close>, the routing half: the front IP settings, the compiled-in IP tables and the
  functions that choose the address to dial for a datacenter. The three \<open>RwLock\<close> cells
  \<open>FRONT_IP\<close>, \<open>DC_FRONT_IPS\<close> and \<open>FRONT_DCS\<close> are the record \<open>front_state\<close>; the tables are
  association lists with distinct keys, so that the iteration order of the source's hash maps
  is immaterial.
\<close>

section \<open>State and tables\<close>

record front_state =
  fs_front_ip :: string
  fs_dc_front_ips :: "int \<rightharpoonup> string"
  fs_front_dcs :: "int list"

definition DEFAULT_FRONT_DCS :: "int list" where "DEFAULT_FRONT_DCS = [2, 4]"

definition init_front :: front_state where
  "init_front = \<lparr>fs_front_ip = ''149.154.167.220'', fs_dc_front_ips = Map.empty,
     fs_front_dcs = DEFAULT_FRONT_DCS\<rparr>"

definition set_front_dcs :: "int list \<Rightarrow> front_state \<Rightarrow> front_state" where
  "set_front_dcs dcs st = st\<lparr>fs_front_dcs := dcs\<rparr>"

definition set_front_ip :: "string \<Rightarrow> front_state \<Rightarrow> front_state" where
  "set_front_ip ip st = st\<lparr>fs_front_ip := ip\<rparr>"

definition set_dc_front_ips :: "(int \<rightharpoonup> string) \<Rightarrow> front_state \<Rightarrow> front_state" where
  "set_dc_front_ips m st = st\<lparr>fs_dc_front_ips := m\<rparr>"

definition set_dc_front_ip :: "int \<Rightarrow> string \<Rightarrow> front_state \<Rightarrow> front_state" where
  "set_dc_front_ip dc ip st = st\<lparr>fs_dc_front_ips := (fs_dc_front_ips st)(dc \<mapsto> ip)\<rparr>"

text \<open>DC203 is folded to DC2 wherever the source writes \<open>if dc == 203 { 2 } else { dc }\<close>.\<close>

definition fold_dc :: "int \<Rightarrow> int" where
  "fold_dc dc = (if dc = 203 then 2 else dc)"

definition dc_default_ips :: "(int \<times> string) list" where
  "dc_default_ips =
     [(1, ''149.154.175.50''), (2, ''149.154.167.51''), (3, ''149.154.175.100''),
      (4, ''149.154.167.91''), (5, ''149.154.171.5''), (203, ''91.105.192.100'')]"

text \<open>A \<open>DcAltEntry\<close> is the pair of its DC and its media flag.\<close>

definition dc_alt_ips :: "(string \<times> (int \<times> bool)) list" where
  "dc_alt_ips =
     [(''149.154.162.123'', (2, True)), (''149.154.175.211'', (1, True)),
      (''149.154.171.255'', (5, True)), (''91.108.56.155'', (5, True)),
      (''149.154.175.58'', (1, False)), (''149.154.175.53'', (1, False)),
      (''149.154.167.41'', (2, False)), (''149.154.167.50'', (2, False)),
      (''149.154.167.35'', (2, False))]"

section \<open>Choosing an address\<close>

definition front_applies_to_dc :: "front_state \<Rightarrow> int \<Rightarrow> bool" where
  "front_applies_to_dc st dc \<longleftrightarrow> fold_dc dc \<in> set (fs_front_dcs st)"

definition dc_front_ip :: "front_state \<Rightarrow> int \<Rightarrow> string" where
  "dc_front_ip st dc =
     (let global = (if front_applies_to_dc st dc then fs_front_ip st else '''');
          second = (case fs_dc_front_ips st dc of
                      Some ip \<Rightarrow> if ip \<noteq> '''' then ip else global
                    | None \<Rightarrow> global)
      in case fs_dc_front_ips st (fold_dc dc) of
           Some ip \<Rightarrow> if ip \<noteq> '''' then ip else second
         | None \<Rightarrow> second)"

definition dc_default_ip :: "int \<Rightarrow> string option" where
  "dc_default_ip dc = map_of dc_default_ips (fold_dc dc)"

definition ws_target_ip :: "front_state \<Rightarrow> int \<Rightarrow> string \<Rightarrow> string" where
  "ws_target_ip st dc orig_ip =
     (let front = dc_front_ip st dc
      in if front \<noteq> '''' then front
         else if orig_ip \<noteq> '''' then orig_ip
         else case map_of dc_default_ips dc of Some s \<Rightarrow> s | None \<Rightarrow> '''')"

definition ws_redirect_blacklist_warranted :: "front_state \<Rightarrow> int \<Rightarrow> string \<Rightarrow> bool" where
  "ws_redirect_blacklist_warranted st dc target_ip =
     (if target_ip = '''' then True
      else
        let dc_key = fold_dc dc; front = dc_front_ip st dc_key
        in if front = '''' \<or> front \<noteq> target_ip then True
           else target_ip = fs_front_ip st \<and> (dc_key = 2 \<or> dc_key = 4))"

text \<open>The closure \<open>add\<close> of the source: skip the empty string and what is already listed.\<close>

definition add_target :: "string \<Rightarrow> string list \<Rightarrow> string list" where
  "add_target ip out = (if ip = '''' then out else push_new ip out)"

definition tcp_fallback_targets ::
  "front_state \<Rightarrow> int \<Rightarrow> string \<Rightarrow> bool \<Rightarrow> bool \<Rightarrow> bool \<Rightarrow> string list" where
  "tcp_fallback_targets st dc orig_ip is_media blocked_cdn ws_blacklisted =
     (let known = (orig_ip \<noteq> '''' \<and> map_of dc_alt_ips orig_ip \<noteq> None)
      in if is_media \<and> ws_blacklisted
         then let out = add_target (ws_target_ip st dc orig_ip) []
              in if known then add_target orig_ip out else out
         else let out = (if is_media \<and> \<not> blocked_cdn \<and> known then add_target orig_ip [] else [])
              in add_target (ws_target_ip st dc orig_ip) out)"

definition kws_host :: "int \<Rightarrow> string" where
  "kws_host dc = ''kws'' @ show_int dc @ ''.web.telegram.org''"

definition kws_media_host :: "int \<Rightarrow> string" where
  "kws_media_host dc = ''kws'' @ show_int dc @ ''-1.web.telegram.org''"

definition ws_domains :: "int \<Rightarrow> bool \<Rightarrow> string list" where
  "ws_domains dc is_media =
     (let dc = fold_dc dc
      in if is_media then [kws_media_host dc, kws_host dc] else [kws_host dc, kws_media_host dc])"

text \<open>The first table by key, the second by a search for the address.\<close>

definition dc_from_hardcoded :: "string \<Rightarrow> (int \<times> bool) option" where
  "dc_from_hardcoded ip =
     (case map_of dc_alt_ips ip of
        Some ep \<Rightarrow> Some ep
      | None \<Rightarrow> map_option (\<lambda>(dc, addr). (dc, False)) (find (\<lambda>(dc, addr). addr = ip) dc_default_ips))"

section \<open>Properties\<close>

lemma default_tables_distinct:
  "distinct (map fst dc_default_ips)" "distinct (map snd dc_default_ips)"
  "distinct (map fst dc_alt_ips)"
  by (simp_all add: dc_default_ips_def dc_alt_ips_def)

lemma dc_default_ips_valid: "valid_dc dc \<Longrightarrow> \<exists>ip. map_of dc_default_ips dc = Some ip \<and> ip \<noteq> ''''"
  unfolding valid_dc_def dc_default_ips_def
  by (cases "dc = 1"; cases "dc = 2"; cases "dc = 3"; cases "dc = 4"; cases "dc = 5") auto

lemma dc_default_ip_valid: "valid_dc dc \<Longrightarrow> \<exists>ip. dc_default_ip dc = Some ip \<and> ip \<noteq> ''''"
  unfolding dc_default_ip_def
  by (rule dc_default_ips_valid) (auto simp: fold_dc_def valid_dc_def)

lemma dc_alt_ips_valid: "map_of dc_alt_ips ip = Some (dc, m) \<Longrightarrow> valid_dc dc"
  by (auto simp: dc_alt_ips_def valid_dc_def split: if_splits)

lemma dc_from_hardcoded_valid: "dc_from_hardcoded ip = Some (dc, m) \<Longrightarrow> valid_dc dc"
  by (auto simp: dc_from_hardcoded_def dc_default_ips_def valid_dc_def
      split: option.splits if_splits dest: dc_alt_ips_valid)

lemma ws_target_ip_valid_ne: "valid_dc dc \<Longrightarrow> ws_target_ip st dc orig_ip \<noteq> ''''"
  using dc_default_ips_valid [of dc] by (auto simp: ws_target_ip_def Let_def)

lemma set_add_target [simp]: "set (add_target ip out) = set out \<union> (if ip = '''' then {} else {ip})"
  by (auto simp: add_target_def)

lemma distinct_add_target [simp]: "distinct (add_target ip out) = distinct out"
  by (simp add: add_target_def)

text \<open>
  An explicit per-DC front address (of the folded DC first, then of the DC itself) wins over
  the global front; without one the global front applies exactly to the DCs in scope, and an
  out-of-scope DC has no front at all.
\<close>

lemma dc_front_ip_precedence:
  "dc_front_ip st dc =
     (if fs_dc_front_ips st (fold_dc dc) \<notin> {None, Some ''''} then the (fs_dc_front_ips st (fold_dc dc))
      else if fs_dc_front_ips st dc \<notin> {None, Some ''''} then the (fs_dc_front_ips st dc)
      else if fold_dc dc \<in> set (fs_front_dcs st) then fs_front_ip st else '''')"
  by (auto simp: dc_front_ip_def front_applies_to_dc_def Let_def split: option.splits)



text \<open>
  On the stock front, an answer of redirects only blacklists the direct WebSocket of DC2 and
  DC4 (and DC203, which folds to DC2) but never of another DC that was pointed at it: there a
  redirect is expected and means "use the CF worker".
\<close>

lemma redirect_blacklist_scope:
  assumes "fs_front_ip st \<noteq> ''''" and "dc_front_ip st (fold_dc dc) = fs_front_ip st"
  shows "ws_redirect_blacklist_warranted st dc (fs_front_ip st) \<longleftrightarrow> fold_dc dc \<in> {2, 4}"
  using assms by (auto simp: ws_redirect_blacklist_warranted_def Let_def)

lemma redirect_blacklist_scope_witness:
  "ws_redirect_blacklist_warranted init_front 203 (fs_front_ip init_front) \<and>
   \<not> ws_redirect_blacklist_warranted (set_front_dcs [1, 2, 3, 4, 5] init_front) 1
       (fs_front_ip init_front)"
proof
  show "ws_redirect_blacklist_warranted init_front 203 (fs_front_ip init_front)"
    by (subst redirect_blacklist_scope)
      (simp_all add: init_front_def fold_dc_def dc_front_ip_def front_applies_to_dc_def
        DEFAULT_FRONT_DCS_def)
  have "ws_redirect_blacklist_warranted (set_front_dcs [1, 2, 3, 4, 5] init_front) 1
       (fs_front_ip (set_front_dcs [1, 2, 3, 4, 5] init_front)) \<longleftrightarrow> fold_dc 1 \<in> {2, 4}"
    by (rule redirect_blacklist_scope)
      (simp_all add: init_front_def set_front_dcs_def fold_dc_def dc_front_ip_def
        front_applies_to_dc_def)
  then show "\<not> ws_redirect_blacklist_warranted (set_front_dcs [1, 2, 3, 4, 5] init_front) 1
       (fs_front_ip init_front)"
    by (simp add: set_front_dcs_def fold_dc_def)
qed

end
