(* ===== verification/Dc_Learn.thy ===== *)
theory Dc_Learn
  imports Routing "HOL-Library.AList" "HOL-Library.Product_Lexorder"
begin

text \<open>
  \<open>dc_learn.rs\<close>: the self-learning map from an address to its datacenter. The in-memory hash
  map is an association list with distinct keys; the persisted file is its lines. \<open>learn\<close>
  appends one line for each newly learned address (the source does so in the background: the
  lines of different addresses may come in any order, and no address comes twice). Logging is
  left out. A file that cannot be read is \<open>None\<close>.
\<close>

section \<open>Parsing\<close>

text \<open>
  \<open>Ipv4Addr::from_str\<close>: four decimal octets of at most three digits, none above 255, no
  superfluous leading zero.
\<close>

definition parse_octet :: "string \<Rightarrow> nat option" where
  "parse_octet s =
     (if all_digits s \<and> length s \<le> 3 \<and> (hd s = CHR ''0'' \<longrightarrow> length s = 1) \<and> digits_value s \<le> 255
      then Some (digits_value s) else None)"

definition is_ipv4 :: "string \<Rightarrow> bool" where
  "is_ipv4 s \<longleftrightarrow>
     (let ps = split_on (\<lambda>c. c = CHR ''.'') s in length ps = 4 \<and> (\<forall>p \<in> set ps. parse_octet p \<noteq> None))"

definition media_words :: "string list" where
  "media_words = [''media'', ''1'', ''true'', ''m'']"

definition parse_line :: "string \<Rightarrow> (string \<times> int \<times> bool) option" where
  "parse_line l =
     (let line = trim (hd (split_on (\<lambda>c. c = CHR ''#'') l))
      in if line = '''' then None
         else case split_whitespace line of
                [] \<Rightarrow> None
              | ip # rest \<Rightarrow>
                  if \<not> is_ipv4 ip then None
                  else case rest of
                         [] \<Rightarrow> None
                       | d # rest2 \<Rightarrow>
                           (case parse_i32 d of
                              None \<Rightarrow> None
                            | Some dc \<Rightarrow>
                                if \<not> valid_dc dc then None
                                else Some (ip, dc,
                                  (case rest2 of [] \<Rightarrow> False
                                   | w # _ \<Rightarrow> to_ascii_lowercase w \<in> set media_words))))"

section \<open>State and operations\<close>

type_synonym learned_map = "(string \<times> (int \<times> bool)) list"

record dc_learn =
  dl_learned :: learned_map
  dl_file :: "string list"

fun load_lines :: "string list \<Rightarrow> learned_map \<Rightarrow> learned_map" where
  "load_lines [] m = m"
| "load_lines (l # ls) m =
     load_lines ls (case parse_line l of
        Some (ip, dc, media) \<Rightarrow> AList.update ip (dc, media) m | None \<Rightarrow> m)"

definition load_file :: "string list option \<Rightarrow> learned_map \<Rightarrow> learned_map" where
  "load_file f m = (case f of None \<Rightarrow> m | Some ls \<Rightarrow> load_lines ls m)"

text \<open>\<open>load\<close>: clear, then the learned file, then the operator's file on top.\<close>

definition load_learned :: "string list option \<Rightarrow> string list option \<Rightarrow> learned_map" where
  "load_learned learned manual = load_file manual (load_file learned [])"

definition learned_lookup :: "learned_map \<Rightarrow> string \<Rightarrow> (int \<times> bool) option" where
  "learned_lookup m ip = map_of m ip"

definition observed_slots :: "learned_map \<Rightarrow> (int \<times> bool) list" where
  "observed_slots m = remdups_adj (sort (map snd m))"

definition persist_line :: "string \<Rightarrow> int \<Rightarrow> bool \<Rightarrow> string" where
  "persist_line ip dc is_media =
     ip @ '' '' @ show_int dc @ (if is_media then '' media'' else '''')"

definition learn :: "string \<Rightarrow> int \<Rightarrow> bool \<Rightarrow> dc_learn \<Rightarrow> dc_learn" where
  "learn ip dc is_media s =
     (if ip = '''' \<or> \<not> valid_dc dc \<or> dc_from_hardcoded ip \<noteq> None then s
      else if map_of (dl_learned s) ip \<noteq> None then s
      else s\<lparr>dl_learned := AList.update ip (dc, is_media) (dl_learned s),
             dl_file := dl_file s @ [persist_line ip dc is_media]\<rparr>)"

definition learned_len :: "learned_map \<Rightarrow> nat" where
  "learned_len m = length m"

text \<open>\<open>mtproto::dc_from_orig_dst\<close>: the compiled-in tables first, then what was learned.\<close>

definition dc_from_orig_dst :: "learned_map \<Rightarrow> string \<Rightarrow> (int \<times> bool) option" where
  "dc_from_orig_dst m ip =
     (case dc_from_hardcoded ip of Some v \<Rightarrow> Some v | None \<Rightarrow> learned_lookup m ip)"

section \<open>The file lines\<close>

lemma parse_line_valid: "parse_line l = Some (ip, dc, media) \<Longrightarrow> is_ipv4 ip \<and> valid_dc dc"
  by (auto simp: parse_line_def Let_def split: if_splits list.splits option.splits)

lemma is_ipv4_chars:
  assumes "is_ipv4 ip" and "c \<in> set ip"
  shows "is_graphic c \<and> c \<noteq> CHR ''#''"
proof -
  have "c = CHR ''.'' \<or> (\<exists>p \<in> set (split_on (\<lambda>c. c = CHR ''.'') ip). c \<in> set p)"
    using split_on_covers [OF assms(2), of "\<lambda>c. c = CHR ''.''"] by blast
  moreover have "is_ascii_digit c" if "p \<in> set (split_on (\<lambda>c. c = CHR ''.'') ip)" "c \<in> set p" for p
    using assms(1) that
    by (auto simp: is_ipv4_def Let_def parse_octet_def all_digits_def split: if_splits)
  ultimately have "is_ascii_digit c \<or> c = CHR ''.''" by blast
  then show ?thesis by (auto simp: is_ascii_digit_def is_graphic_def)
qed

lemma is_ipv4_ne: "is_ipv4 ip \<Longrightarrow> ip \<noteq> ''''"
  by (auto simp: is_ipv4_def)

lemma show_int_chars:
  assumes "valid_dc dc" and "c \<in> set (show_int dc)"
  shows "is_graphic c \<and> c \<noteq> CHR ''#''"
proof -
  have "c \<in> set (show_nat (nat dc))"
    using assms valid_dc_bounds [OF assms(1)] by (simp add: show_int_def)
  then have "is_ascii_digit c" using show_nat_digits by (auto simp: all_digits_def)
  then show ?thesis by (auto simp: is_ascii_digit_def is_graphic_def)
qed

lemma show_int_ne: "show_int i \<noteq> []"
  using show_nat_digits by (auto simp: show_int_def all_digits_def)

lemma words_from_word:
  assumes "\<forall>c \<in> set u. is_graphic c"
  shows "words_from w (u @ CHR '' '' # rest) =
    (if w = [] \<and> u = [] then [] else [rev w @ u]) @ words_from [] rest"
  using assms
proof (induction u arbitrary: w)
  case Nil
  have "ws_len (CHR '' '' # rest) = 1" by (simp add: ws_len_def Let_def)
  then show ?case by (simp add: words_from.simps [of w "CHR '' '' # rest"])
next
  case (Cons c u)
  then show ?case by (simp add: words_from.simps [of w "c # _"] ws_len_graphic)
qed

lemma parse_persist_line:
  assumes ip: "is_ipv4 ip" and dc: "valid_dc dc"
  shows "parse_line (persist_line ip dc m) = Some (ip, dc, m)"
proof -
  let ?l = "persist_line ip dc m"
  have ipg: "\<forall>c \<in> set ip. is_graphic c" and dcg: "\<forall>c \<in> set (show_int dc). is_graphic c"
    using is_ipv4_chars [OF ip] show_int_chars [OF dc] by blast+
  have nohash: "\<forall>c \<in> set ?l. c \<noteq> CHR ''#''"
    using is_ipv4_chars [OF ip] show_int_chars [OF dc] by (auto simp: persist_line_def)
  have "is_graphic (last ?l)"
    using dcg last_in_set [OF show_int_ne [of dc]] show_int_ne [of dc]
    by (auto simp: persist_line_def is_graphic_def)
  then have trim: "trim ?l = ?l"
    using ipg is_ipv4_ne [OF ip] by (intro trim_graphic) (auto simp: persist_line_def)
  have words: "split_whitespace ?l = ip # show_int dc # (if m then [''media''] else [])"
  proof (cases m)
    case True
    have "words_from [] (show_int dc @ CHR '' '' # ''media'') = [show_int dc, ''media'']"
      using words_from_word [OF dcg, of "[]" "''media''"] show_int_ne [of dc]
        words_graphic [of "''media''" "[]"]
      by (simp add: is_graphic_def)
    with True show ?thesis
      using words_from_word [OF ipg, of "[]" "show_int dc @ '' media''"] is_ipv4_ne [OF ip]
      by (simp add: split_whitespace_def persist_line_def)
  next
    case False
    then show ?thesis
      using words_from_word [OF ipg, of "[]" "show_int dc"] is_ipv4_ne [OF ip]
        words_graphic [OF dcg, of "[]"] show_int_ne [of dc]
      by (simp add: split_whitespace_def persist_line_def)
  qed
  have "parse_i32 (show_int dc) = Some dc"
    using valid_dc_bounds [OF dc] by (intro parse_signed_show_int) auto
  moreover have "to_ascii_lowercase ''media'' \<in> set media_words"
    by (simp add: to_ascii_lowercase_def char_lower_def is_ascii_uppercase_def media_words_def)
  moreover have "?l \<noteq> ''''" using is_ipv4_ne [OF ip] by (simp add: persist_line_def)
  ultimately show ?thesis
    using trim words ip dc
    by (simp add: parse_line_def split_on_none nohash Let_def)
qed

section \<open>Invariants and properties\<close>

text \<open>The operations a running daemon performs on the map are calls of \<open>learn\<close>.\<close>

fun learn_all :: "(string \<times> int \<times> bool) list \<Rightarrow> dc_learn \<Rightarrow> dc_learn" where
  "learn_all [] s = s"
| "learn_all ((ip, dc, m) # xs) s = learn_all xs (learn ip dc m s)"

definition learned_ok :: "learned_map \<Rightarrow> bool" where
  "learned_ok m \<longleftrightarrow> distinct (map fst m) \<and> (\<forall>(ip, dc, media) \<in> set m. valid_dc dc)"

lemma set_update_subset: "set (AList.update k v m) \<subseteq> insert (k, v) (set m)"
  by (induction m) auto

lemma learned_ok_update: "learned_ok m \<Longrightarrow> valid_dc dc \<Longrightarrow> learned_ok (AList.update ip (dc, b) m)"
  using set_update_subset [of ip "(dc, b)" m]
  by (auto simp: learned_ok_def distinct_update)

lemma load_lines_ok: "learned_ok m \<Longrightarrow> learned_ok (load_lines ls m)"
proof (induction ls arbitrary: m)
  case (Cons l ls)
  then show ?case
    by (auto split: option.splits intro!: Cons.IH learned_ok_update dest: parse_line_valid)
qed simp

lemma load_learned_ok: "learned_ok (load_learned f g)"
proof -
  have "learned_ok []" by (simp add: learned_ok_def)
  then show ?thesis
    by (auto simp: load_learned_def load_file_def intro!: load_lines_ok split: option.splits)
qed

lemma learn_ok: "learned_ok (dl_learned s) \<Longrightarrow> learned_ok (dl_learned (learn ip dc m s))"
  by (auto simp: learn_def learned_ok_update)

lemma learn_all_ok: "learned_ok (dl_learned s) \<Longrightarrow> learned_ok (dl_learned (learn_all xs s))"
  by (induction xs s rule: learn_all.induct) (auto intro: learn_ok)

lemma learn_keeps: "map_of (dl_learned s) i = Some v \<Longrightarrow> map_of (dl_learned (learn ip dc m s)) i = Some v"
  by (cases v) (auto simp: learn_def update_conv')

lemma learn_skips_hardcoded:
  "map_of (dl_learned s) i = None \<Longrightarrow> dc_from_hardcoded i \<noteq> None \<Longrightarrow>
   map_of (dl_learned (learn ip dc m s)) i = None"
  by (auto simp: learn_def update_conv')

lemma load_lines_append: "load_lines (xs @ ys) m = load_lines ys (load_lines xs m)"
  by (induction xs arbitrary: m) auto

lemma load_lines_over:
  "map_of (load_lines ls m) i =
     (case map_of (load_lines ls []) i of Some v \<Rightarrow> Some v | None \<Rightarrow> map_of m i)"
proof (induction ls arbitrary: m rule: rev_induct)
  case (snoc l ls)
  note IH = snoc.IH [of m]
  show ?case
    by (cases "parse_line l") (auto simp: load_lines_append update_conv' IH split: option.splits)
qed simp

lemma learn_file_agrees:
  assumes "map_of (load_lines (dl_file s) []) = map_of (dl_learned s)" and "is_ipv4 ip"
  shows "map_of (load_lines (dl_file (learn ip dc m s)) []) = map_of (dl_learned (learn ip dc m s))"
  using assms
  by (auto simp: learn_def load_lines_append parse_persist_line update_conv')

text \<open>
  C37: What the daemon learned survives a restart: for any sequence of observations of IPv4
  destinations from an empty start, loading the persisted file yields the same resolution of
  every address as the map that was in memory, and an operator's file overrides it exactly
  on the addresses it names.
\<close>

theorem restart_preserves_learned:
  assumes "\<forall>(ip, dc, m) \<in> set obs. is_ipv4 ip"
  shows "map_of (load_learned (Some (dl_file (learn_all obs \<lparr>dl_learned = [], dl_file = []\<rparr>))) manual) i =
    (case map_of (load_learned None manual) i of
       Some v \<Rightarrow> Some v
     | None \<Rightarrow> map_of (dl_learned (learn_all obs \<lparr>dl_learned = [], dl_file = []\<rparr>)) i)"
proof -
  have "map_of (load_lines (dl_file (learn_all obs s)) []) = map_of (dl_learned (learn_all obs s))"
    if "map_of (load_lines (dl_file s) []) = map_of (dl_learned s)" for s
    using assms that
    by (induction obs s rule: learn_all.induct) (auto simp: learn_file_agrees)
  from this [of "\<lparr>dl_learned = [], dl_file = []\<rparr>"] show ?thesis
    by (cases manual)
      (simp_all add: load_learned_def load_file_def load_lines_over [where m = "load_lines _ _"]
        split: option.split)
qed

theorem restart_preserves_learned_witness:
  "\<exists>s. s = learn_all [(''10.0.0.1'', 2, True), (''10.0.0.1'', 4, False)] \<lparr>dl_learned = [], dl_file = []\<rparr> \<and>
    map_of (load_learned (Some (dl_file s)) None) ''10.0.0.1'' =
    (case map_of (load_learned None None) ''10.0.0.1'' of
       Some v \<Rightarrow> Some v | None \<Rightarrow> map_of (dl_learned s) ''10.0.0.1'')"
proof -
  have "is_ipv4 ''10.0.0.1''"
    by (simp add: is_ipv4_def Let_def parse_octet_def all_digits_def is_ascii_digit_def
        digits_value_def)
  then have obs: "\<forall>(ip, dc, m) \<in> set [(''10.0.0.1'', 2 :: int, True), (''10.0.0.1'', 4, False)].
      is_ipv4 ip" by simp
  show ?thesis by (intro exI conjI, rule refl) (rule restart_preserves_learned [OF obs])
qed

text \<open>
  The first observation of an address stands: no later \<open>learn\<close> changes or removes a
  resolution, an address of the compiled-in tables is never stored, and every stored DC is a
  valid one, each address once.
\<close>

lemma first_observation_wins:
  assumes "learned_ok (dl_learned s)"
  shows "learned_ok (dl_learned (learn_all obs s)) \<and>
    (\<forall>v. map_of (dl_learned s) ip = Some v \<longrightarrow> map_of (dl_learned (learn_all obs s)) ip = Some v) \<and>
    (map_of (dl_learned s) ip = None \<and> dc_from_hardcoded ip \<noteq> None \<longrightarrow>
       map_of (dl_learned (learn_all obs s)) ip = None)"
proof (intro conjI allI impI)
  show "learned_ok (dl_learned (learn_all obs s))" using assms by (rule learn_all_ok)
  show "map_of (dl_learned (learn_all obs s)) ip = Some v"
    if "map_of (dl_learned s) ip = Some v" for v
    using that by (induction obs s rule: learn_all.induct) (auto intro: learn_keeps)
  show "map_of (dl_learned (learn_all obs s)) ip = None"
    if "map_of (dl_learned s) ip = None \<and> dc_from_hardcoded ip \<noteq> None"
    using that
    by (induction obs s rule: learn_all.induct) (simp_all add: learn_skips_hardcoded)
qed

lemma first_observation_wins_witness:
  "\<exists>s. s = learn_all [(''10.0.0.1'', 2, True)] \<lparr>dl_learned = [], dl_file = []\<rparr> \<and>
    learned_ok (dl_learned (learn_all [(''10.0.0.1'', 4, False)] s)) \<and>
    map_of (dl_learned (learn_all [(''10.0.0.1'', 4, False)] s)) ''10.0.0.1'' = Some (2, True)"
proof -
  let ?s = "learn_all [(''10.0.0.1'', 2, True)] \<lparr>dl_learned = [], dl_file = []\<rparr>"
  have s: "map_of (dl_learned ?s) ''10.0.0.1'' = Some (2, True)"
    by (simp add: learn_def valid_dc_def dc_from_hardcoded_def dc_alt_ips_def dc_default_ips_def)
  have "learned_ok (dl_learned ?s)"
    by (rule learn_all_ok) (simp add: learned_ok_def)
  from first_observation_wins [OF this, of "[(''10.0.0.1'', 4, False)]" "''10.0.0.1''"] s
  show ?thesis by blast
qed

text \<open>
  \<open>observed_slots\<close> is strictly sorted (so without duplicates) and lists exactly the DC and
  media pairs some address resolves to, all of them with a valid DC.
\<close>

lemma observed_slots_exact:
  assumes "learned_ok m"
  shows "sorted_wrt (<) (observed_slots m) \<and>
    set (observed_slots m) = {v. \<exists>ip. learned_lookup m ip = Some v} \<and>
    (\<forall>(dc, b) \<in> set (observed_slots m). valid_dc dc)"
proof (intro conjI)
  show "sorted_wrt (<) (observed_slots m)"
    by (simp add: observed_slots_def strict_sorted_dedup)
  show "set (observed_slots m) = {v. \<exists>ip. learned_lookup m ip = Some v}"
    using assms by (force simp: observed_slots_def learned_lookup_def learned_ok_def)
  show "\<forall>(dc, b) \<in> set (observed_slots m). valid_dc dc"
    using assms by (auto simp: observed_slots_def learned_ok_def)
qed

lemma observed_slots_exact_witness:
  "\<exists>m. m = load_learned (Some [''1.2.3.4 5 media # cdn'', ''garbage'', ''1.2.3.5 5 M'']) None \<and>
    sorted_wrt (<) (observed_slots m)"
  using observed_slots_exact [OF load_learned_ok] by blast

end
