(* ===== verification/Splitter.thy ===== *)
theory Splitter
  imports Mtproto
begin

text \<open>
  \<open>splitter.rs\<close>: \<open>MsgSplitter\<close> cuts the re-encrypted client stream back into MTProto transport
  packets, one WebSocket message each. It decrypts a copy of the relay stream to read the
  length headers; the ciphertext is what it forwards. The lengths come back as the source's
  \<open>i32\<close>: \<open>-1\<close> for "wait for more", \<open>0\<close> for "not a packet: stop splitting", else the packet's
  length, at most \<open>MAX_MTPROTO_PACKET\<close> and so far from overflow. The two buffers always have
  the same length (\<open>splitter_ok\<close>), so no index is out of range.

  The interface \<open>framing\<close> states what a length function must promise; the correctness of the
  loop is proved from it once and holds for each of the transports.
\<close>

section \<open>The interface: a prefix-stable framing\<close>

locale framing =
  fixes nlen :: "bytes \<Rightarrow> int"
  assumes nlen_lower: "- 1 \<le> nlen p"
    and nlen_upper: "nlen p \<le> int (length p)"
    and nlen_Nil: "nlen [] = - 1"
    and nlen_stable: "nlen p \<noteq> - 1 \<Longrightarrow> nlen (p @ q) = nlen p"
    and nlen_exact: "0 < nlen p \<Longrightarrow> nlen (take (nat (nlen p)) p) = nlen p"
begin

text \<open>
  The abstract splitter, on ciphertext bytes paired with their plaintext: the packets, what is
  left waiting, and whether splitting has stopped.
\<close>

function cut :: "(byte \<times> byte) list \<Rightarrow> (byte \<times> byte) list list \<times> (byte \<times> byte) list \<times> bool" where
  "cut xs =
     (let n = nlen (map snd xs)
      in if n = - 1 then ([], xs, False)
         else if n = 0 then ([xs], [], True)
         else case cut (drop (nat n) xs) of
                (ps, r, d) \<Rightarrow> (take (nat n) xs # ps, r, d))"
  by pat_completeness auto
termination
proof (relation "measure length")
  fix xs :: "(byte \<times> byte) list" and n
  assume "n = nlen (map snd xs)" and "n \<noteq> - 1" and "n \<noteq> 0"
  moreover from this have "0 < n" using nlen_lower [of "map snd xs"] by linarith
  moreover have "n \<le> int (length xs)" using nlen_upper [of "map snd xs"] calculation(1) by simp
  ultimately show "(drop (nat n) xs, xs) \<in> measure length" by simp
qed simp

declare cut.simps [simp del]

lemma cut_wait: "nlen (map snd xs) = - 1 \<Longrightarrow> cut xs = ([], xs, False)"
  by (subst cut.simps) simp

lemma cut_stop: "nlen (map snd xs) = 0 \<Longrightarrow> cut xs = ([xs], [], True)"
  by (subst cut.simps) simp

lemma cut_packet:
  "0 < nlen (map snd xs) \<Longrightarrow>
   cut xs = (case cut (drop (nat (nlen (map snd xs))) xs) of
     (ps, r, d) \<Rightarrow> (take (nat (nlen (map snd xs))) xs # ps, r, d))"
  by (subst cut.simps) (simp add: Let_def)

lemma nlen_cases:
  obtains "nlen p = - 1" | "nlen p = 0" | "0 < nlen p" "nat (nlen p) \<le> length p"
  using nlen_lower [of p] nlen_upper [of p] by linarith

lemma cut_induct [case_names wait stop packet]:
  assumes wait: "\<And>xs. nlen (map snd xs) = - 1 \<Longrightarrow> P xs"
    and stop: "\<And>xs. nlen (map snd xs) = 0 \<Longrightarrow> P xs"
    and packet: "\<And>xs. 0 < nlen (map snd xs) \<Longrightarrow> nat (nlen (map snd xs)) \<le> length xs \<Longrightarrow>
      P (drop (nat (nlen (map snd xs))) xs) \<Longrightarrow> P xs"
  shows "P xs"
proof (induction xs rule: measure_induct_rule [of length])
  case (less xs)
  show ?case
  proof (rule nlen_cases [of "map snd xs"])
    assume "nlen (map snd xs) = - 1"
    then show "P xs" by (rule wait)
  next
    assume "nlen (map snd xs) = 0"
    then show "P xs" by (rule stop)
  next
    assume n: "0 < nlen (map snd xs)" "nat (nlen (map snd xs)) \<le> length (map snd xs)"
    then have "length (drop (nat (nlen (map snd xs))) xs) < length xs" by auto
    then have "P (drop (nat (nlen (map snd xs))) xs)" by (rule less)
    moreover have "nat (nlen (map snd xs)) \<le> length xs" using n(2) by (simp only: length_map)
    ultimately show "P xs" using n(1) packet by blast
  qed
qed

lemma cut_concat: "cut xs = (ps, r, d) \<Longrightarrow> concat ps @ r = xs"
proof (induction xs arbitrary: ps rule: cut_induct)
  case (packet xs)
  then show ?case by (auto simp: cut_packet split: prod.splits)
qed (simp_all add: cut_wait cut_stop)

lemma cut_rest: "cut xs = (ps, r, d) \<Longrightarrow> if d then r = [] else nlen (map snd r) = - 1"
proof (induction xs arbitrary: ps rule: cut_induct)
  case (packet xs)
  then show ?case by (auto simp: cut_packet split: prod.splits)
qed (auto simp: cut_wait cut_stop)

lemma cut_append:
  "cut xs = (ps, r, False) \<Longrightarrow>
   cut (xs @ ys) = (case cut (r @ ys) of (qs, r', d) \<Rightarrow> (ps @ qs, r', d))"
proof (induction xs arbitrary: ps rule: cut_induct)
  case (packet xs)
  let ?n = "nat (nlen (map snd xs))"
  have same: "nlen (map snd (xs @ ys)) = nlen (map snd xs)"
    using packet.hyps(1) nlen_stable [of "map snd xs" "map snd ys"] by simp
  from packet.prems packet.hyps(1) obtain ps' where
    ps': "cut (drop ?n xs) = (ps', r, False)" "ps = take ?n xs # ps'"
    by (auto simp: cut_packet split: prod.splits)
  from packet.IH [OF ps'(1)] show ?case
    using packet.hyps ps'(2)
    by (simp add: cut_packet [of "xs @ ys"] same [simplified] split: prod.splits)
qed (auto simp: cut_wait cut_stop)

lemma cut_append_stopped:
  "cut xs = (ps, r, True) \<Longrightarrow>
   ps \<noteq> [] \<and> cut (xs @ ys) = (butlast ps @ [last ps @ ys], [], True)"
proof (induction xs arbitrary: ps rule: cut_induct)
  case (stop xs)
  then show ?case
    using nlen_stable [of "map snd xs" "map snd ys"] by (auto simp: cut_stop)
next
  case (packet xs)
  let ?n = "nat (nlen (map snd xs))"
  have same: "nlen (map snd (xs @ ys)) = nlen (map snd xs)"
    using packet.hyps(1) nlen_stable [of "map snd xs" "map snd ys"] by simp
  from packet.prems packet.hyps(1) obtain ps' where
    ps': "cut (drop ?n xs) = (ps', r, True)" "ps = take ?n xs # ps'"
    by (auto simp: cut_packet split: prod.splits)
  from packet.IH [OF ps'(1)] show ?case
    using packet.hyps ps'(2)
    by (simp add: cut_packet [of "xs @ ys"] same [simplified] split: prod.splits)
qed (simp add: cut_wait)

lemma cut_packets:
  "cut xs = (ps, r, d) \<Longrightarrow> p \<in> set (if d then butlast ps else ps) \<Longrightarrow>
   0 < length p \<and> nlen (map snd p) = int (length p)"
proof (induction xs arbitrary: ps rule: cut_induct)
  case (packet xs)
  let ?n = "nat (nlen (map snd xs))"
  from packet.prems(1) packet.hyps(1) obtain ps' where
    ps': "cut (drop ?n xs) = (ps', r, d)" "ps = take ?n xs # ps'"
    by (auto simp: cut_packet split: prod.splits)
  have first: "0 < length (take ?n xs) \<and> nlen (map snd (take ?n xs)) = int (length (take ?n xs))"
    using packet.hyps nlen_exact [of "map snd xs"] by (simp add: take_map min_def)
  from packet.prems(2) ps'(2) consider "p = take ?n xs" | "p \<in> set (if d then butlast ps' else ps')"
    by (auto split: if_splits)
  then show ?case
  proof cases
    case 1
    with first show ?thesis by simp
  next
    case 2
    with packet.IH [OF ps'(1)] show ?thesis by simp
  qed
qed (auto simp: cut_wait cut_stop)

end

section \<open>The splitter\<close>

record msg_splitter =
  sp_dec :: aes_ctr
  sp_proto :: "32 word"
  sp_cipher_buf :: bytes
  sp_plain_buf :: bytes
  sp_disabled :: bool

definition splitter_new :: "keystream \<Rightarrow> bytes \<Rightarrow> 32 word \<Rightarrow> (mtproto_error + msg_splitter) option" where
  "splitter_new ks relay_init proto_int =
     map_option
       (\<lambda>r. case r of
          Inl e \<Rightarrow> Inl e
        | Inr dec \<Rightarrow> Inr \<lparr>sp_dec = dec, sp_proto = proto_int, sp_cipher_buf = [],
                         sp_plain_buf = [], sp_disabled = False\<rparr>)
       (new_relay_decrypt_stream ks relay_init)"

definition next_abridged_len :: "bytes \<Rightarrow> nat \<Rightarrow> nat \<Rightarrow> int" where
  "next_abridged_len plain offset avail =
     (let first = plain ! offset
      in if first = 0x7F \<or> first = 0xFF then
           if avail < 4 then - 1
           else
             let payload_len =
                   u24_le (plain ! (offset + 1)) (plain ! (offset + 2)) (plain ! (offset + 3)) * 4;
                 packet_len = 4 + payload_len
             in if packet_len > MAX_MTPROTO_PACKET then 0
                else if avail < packet_len then - 1
                else int packet_len
         else
           let payload_len = unat (first AND 0x7F) * 4
           in if payload_len = 0 then 0
              else
                let packet_len = 1 + payload_len
                in if packet_len > MAX_MTPROTO_PACKET then 0
                   else if avail < packet_len then - 1
                   else int packet_len)"

text \<open>\<open>& 0x7FFF_FFFF\<close> on the 32-bit length is the remainder modulo \<open>2^31\<close>.\<close>

definition next_intermediate_len :: "bytes \<Rightarrow> nat \<Rightarrow> nat \<Rightarrow> int" where
  "next_intermediate_len plain offset avail =
     (if avail < 4 then - 1
      else
        let payload_len = u32_le (plain ! offset) (plain ! (offset + 1)) (plain ! (offset + 2))
              (plain ! (offset + 3)) mod 2 ^ 31
        in if payload_len = 0 then 0
           else
             let packet_len = 4 + payload_len
             in if packet_len > MAX_MTPROTO_PACKET then 0
                else if avail < packet_len then - 1
                else int packet_len)"

definition next_packet_len :: "32 word \<Rightarrow> bytes \<Rightarrow> nat \<Rightarrow> nat \<Rightarrow> int" where
  "next_packet_len proto plain offset avail =
     (if avail = 0 then - 1
      else if proto = PROTO_ABRIDGED_INT then next_abridged_len plain offset avail
      else if proto = PROTO_INTERMEDIATE_INT \<or> proto = PROTO_PADDED_INTERMEDIATE_INT
      then next_intermediate_len plain offset avail
      else 0)"

lemma next_abridged_len_lower: "- 1 \<le> next_abridged_len plain offset avail"
  unfolding next_abridged_len_def Let_def by (auto split: if_split)

lemma next_intermediate_len_lower: "- 1 \<le> next_intermediate_len plain offset avail"
  unfolding next_intermediate_len_def Let_def by (auto split: if_split)

lemma next_packet_len_lower: "- 1 \<le> next_packet_len proto plain offset avail"
  using next_abridged_len_lower next_intermediate_len_lower by (simp add: next_packet_len_def)

text \<open>
  The \<open>while\<close> loop of \<open>split\<close>: the parts pushed so far, the final offset, and whether the
  splitter was disabled on the way.
\<close>

function split_loop ::
  "32 word \<Rightarrow> bytes \<Rightarrow> bytes \<Rightarrow> nat \<Rightarrow> bytes list \<Rightarrow> bytes list \<times> nat \<times> bool" where
  "split_loop proto cipher plain offset parts =
     (if offset < length cipher then
        let n = next_packet_len proto plain offset (length cipher - offset)
        in if n = - 1 then (parts, offset, False)
           else if n = 0 then (parts @ [drop offset cipher], length cipher, True)
           else split_loop proto cipher plain (offset + nat n)
                  (parts @ [take (nat n) (drop offset cipher)])
      else (parts, offset, False))"
  by pat_completeness auto
termination
proof (relation "measure (\<lambda>(proto, cipher, plain, offset, parts). length cipher - offset)")
  fix proto cipher plain offset n and parts :: "bytes list"
  assume "offset < length (cipher :: bytes)"
    and "n = next_packet_len proto plain offset (length cipher - offset)" "n \<noteq> - 1" "n \<noteq> 0"
  moreover from this have "0 < n"
    using next_packet_len_lower [of proto plain offset "length cipher - offset"] by linarith
  ultimately show "((proto, cipher, plain, offset + nat n,
        parts @ [take (nat n) (drop offset cipher)]), (proto, cipher, plain, offset, parts))
      \<in> measure (\<lambda>(proto, cipher, plain, offset, parts). length cipher - offset)"
    by simp
qed simp

declare split_loop.simps [simp del]

definition splitter_split :: "keystream \<Rightarrow> msg_splitter \<Rightarrow> bytes \<Rightarrow> bytes list \<times> msg_splitter" where
  "splitter_split ks s chunk =
     (if chunk = [] then ([], s)
      else if sp_disabled s then ([chunk], s)
      else
        let cipher = sp_cipher_buf s @ chunk;
            (plain_chunk, dec) = apply_keystream ks (sp_dec s) chunk;
            plain = sp_plain_buf s @ plain_chunk;
            (parts, offset, dis) = split_loop (sp_proto s) cipher plain 0 []
        in (parts, s\<lparr>sp_dec := dec, sp_cipher_buf := drop offset cipher,
                     sp_plain_buf := drop offset plain, sp_disabled := dis\<rparr>))"

definition splitter_flush :: "msg_splitter \<Rightarrow> bytes list \<times> msg_splitter" where
  "splitter_flush s =
     (if sp_cipher_buf s = [] then ([], s)
      else ([sp_cipher_buf s], s\<lparr>sp_cipher_buf := [], sp_plain_buf := []\<rparr>))"

section \<open>The transports are prefix-stable framings\<close>

definition packet_len :: "32 word \<Rightarrow> bytes \<Rightarrow> int" where
  "packet_len proto p = next_packet_len proto p 0 (length p)"

lemma next_packet_len_drop:
  assumes "off \<le> length plain"
  shows "next_packet_len proto plain off (length plain - off) = packet_len proto (drop off plain)"
  using assms
  by (simp add: packet_len_def next_packet_len_def next_abridged_len_def next_intermediate_len_def Let_def)

text \<open>The four header bytes of a prefix are those of the whole.\<close>

lemma header_cases:
  obtains (short) "length p < 4" | (long) a b c d r where "p = a # b # c # d # r"
proof (cases "length p < 4")
  case False
  then have "Suc (Suc (Suc (Suc 0))) \<le> length p" by simp
  then show ?thesis using long by (auto simp: Suc_le_length_iff)
qed (rule short)

lemma abridged_stable:
  assumes "next_abridged_len p 0 (length p) \<noteq> - 1" and "p \<noteq> []"
  shows "next_abridged_len (p @ q) 0 (length p + length q) = next_abridged_len p 0 (length p)"
proof -
  obtain x xs where p: "p = x # xs" using assms(2) by (cases p) auto
  show ?thesis
  proof (cases "x = 0x7F \<or> x = 0xFF")
    case True
    then show ?thesis
    proof (cases p rule: header_cases)
      case short
      with True assms p show ?thesis by (simp add: next_abridged_len_def Let_def)
    next
      case (long a b c d r)
      define k where "k = u24_le b c d * 4"
      from True long p assms(1) show ?thesis
        by (simp add: next_abridged_len_def Let_def k_def [symmetric] split: if_split_asm)
    qed
  next
    case False
    define k where "k = unat (x AND 0x7F) * 4"
    from False p assms(1) show ?thesis
      by (simp add: next_abridged_len_def Let_def k_def [symmetric] split: if_split_asm)
  qed
qed

lemma intermediate_stable:
  assumes "next_intermediate_len p 0 (length p) \<noteq> - 1"
  shows "next_intermediate_len (p @ q) 0 (length p + length q) = next_intermediate_len p 0 (length p)"
proof (cases p rule: header_cases)
  case short
  with assms show ?thesis by (simp add: next_intermediate_len_def Let_def)
next
  case (long a b c d r)
  define k where "k = u32_le a b c d mod 2 ^ 31"
  have k: "u32_le a b c d mod 2147483648 = k" by (simp add: k_def)
  from long assms show ?thesis
    by (simp add: next_intermediate_len_def Let_def k split: if_split_asm)
qed

lemma abridged_exact:
  assumes "0 < next_abridged_len p 0 (length p)" and "p \<noteq> []"
  shows "next_abridged_len p 0 (length p) \<le> int (length p)
    \<and> next_abridged_len p 0 (length p) \<le> int MAX_MTPROTO_PACKET
    \<and> next_abridged_len (take (nat (next_abridged_len p 0 (length p))) p) 0
        (nat (next_abridged_len p 0 (length p))) = next_abridged_len p 0 (length p)"
proof -
  obtain x xs where p: "p = x # xs" using assms(2) by (cases p) auto
  show ?thesis
  proof (cases "x = 0x7F \<or> x = 0xFF")
    case True
    then show ?thesis
    proof (cases p rule: header_cases)
      case short
      with True assms p show ?thesis by (simp add: next_abridged_len_def Let_def)
    next
      case (long a b c d r)
      define k where "k = u24_le b c d * 4"
      have n: "next_abridged_len p 0 (length p) = int (4 + k)" "4 + k \<le> length p"
        "4 + k \<le> MAX_MTPROTO_PACKET"
        using True long p assms(1)
        by (simp_all add: next_abridged_len_def Let_def k_def [symmetric] split: if_split_asm)
      have "take (4 + k) p = a # b # c # d # take k r"
    by (simp add: long take_Cons' numeral_eq_Suc)
      moreover have "next_abridged_len (a # b # c # d # take k r) 0 (4 + k) = int (4 + k)"
        using True long p n(3) by (simp add: next_abridged_len_def Let_def k_def [symmetric])
      ultimately show ?thesis using n by (simp only: nat_int) simp
    qed
  next
    case False
    define k where "k = unat (x AND 0x7F) * 4"
    have n: "next_abridged_len p 0 (length p) = int (1 + k)" "1 + k \<le> length p"
      "1 + k \<le> MAX_MTPROTO_PACKET" "k \<noteq> 0"
      using False p assms(1)
      by (simp_all add: next_abridged_len_def Let_def k_def [symmetric] split: if_split_asm)
    have "take (1 + k) p = x # take k xs" by (simp add: p)
    moreover have "next_abridged_len (x # take k xs) 0 (1 + k) = int (1 + k)"
      using False n(3,4) by (simp add: next_abridged_len_def Let_def k_def [symmetric])
    ultimately show ?thesis using n by (simp only: nat_int) simp
  qed
qed

lemma intermediate_exact:
  assumes "0 < next_intermediate_len p 0 (length p)"
  shows "next_intermediate_len p 0 (length p) \<le> int (length p)
    \<and> next_intermediate_len p 0 (length p) \<le> int MAX_MTPROTO_PACKET
    \<and> next_intermediate_len (take (nat (next_intermediate_len p 0 (length p))) p) 0
        (nat (next_intermediate_len p 0 (length p))) = next_intermediate_len p 0 (length p)"
proof (cases p rule: header_cases)
  case short
  with assms show ?thesis by (simp add: next_intermediate_len_def Let_def)
next
  case (long a b c d r)
  define k where "k = u32_le a b c d mod 2 ^ 31"
  have k: "u32_le a b c d mod 2147483648 = k" by (simp add: k_def)
  have n: "next_intermediate_len p 0 (length p) = int (4 + k)" "4 + k \<le> length p"
    "4 + k \<le> MAX_MTPROTO_PACKET" "k \<noteq> 0"
    using long assms by (simp_all add: next_intermediate_len_def Let_def k split: if_split_asm)
  have "take (4 + k) p = a # b # c # d # take k r"
    by (simp add: long take_Cons' numeral_eq_Suc)
  moreover have "next_intermediate_len (a # b # c # d # take k r) 0 (4 + k) = int (4 + k)"
    using n(3,4) by (simp add: next_intermediate_len_def Let_def k)
  ultimately show ?thesis using n by (simp only: nat_int) simp
qed

lemma packet_len_exact:
  assumes "0 < packet_len proto p"
  shows "packet_len proto p \<le> int (length p) \<and> packet_len proto p \<le> int MAX_MTPROTO_PACKET \<and>
    packet_len proto (take (nat (packet_len proto p)) p) = packet_len proto p"
proof -
  let ?n = "packet_len proto p"
  have ne: "p \<noteq> []" using assms by (auto simp: packet_len_def next_packet_len_def)
  consider "?n = next_abridged_len p 0 (length p)" "proto = PROTO_ABRIDGED_INT"
    | "?n = next_intermediate_len p 0 (length p)"
      "proto = PROTO_INTERMEDIATE_INT \<or> proto = PROTO_PADDED_INTERMEDIATE_INT"
      "proto \<noteq> PROTO_ABRIDGED_INT"
    using assms by (auto simp: packet_len_def next_packet_len_def split: if_splits)
  then show ?thesis
  proof cases
    case 1
    with assms ne abridged_exact [of p] show ?thesis
      by (auto simp: packet_len_def [of _ "take _ _"] next_packet_len_def)
  next
    case 2
    with assms intermediate_exact [of p] show ?thesis
      by (auto simp: packet_len_def [of _ "take _ _"] next_packet_len_def)
  qed
qed

interpretation frm: framing "packet_len proto" for proto
proof unfold_locales
  fix p q :: bytes
  show lower: "- 1 \<le> packet_len proto p"
    unfolding packet_len_def by (rule next_packet_len_lower)
  show "packet_len proto p \<le> int (length p)"
    using packet_len_exact [of proto p] lower by linarith
  show "packet_len proto [] = - 1"
    by (simp add: packet_len_def next_packet_len_def)
  show "packet_len proto p \<noteq> - 1 \<Longrightarrow> packet_len proto (p @ q) = packet_len proto p"
    by (auto simp: packet_len_def next_packet_len_def abridged_stable intermediate_stable
        split: if_splits)
  show "0 < packet_len proto p \<Longrightarrow>
      packet_len proto (take (nat (packet_len proto p)) p) = packet_len proto p"
    using packet_len_exact by blast
qed

section \<open>The loop implements the abstract splitter\<close>

lemma split_loop_cut:
  assumes "length plain = length cipher" and "offset \<le> length cipher"
    and "frm.cut proto (drop offset (zip cipher plain)) = (ps, r, d)"
  shows "split_loop proto cipher plain offset parts =
    (parts @ map (map fst) ps, length cipher - length r, d)"
  using assms
proof (induction proto cipher plain offset parts arbitrary: ps rule: split_loop.induct)
  case (1 proto cipher plain offset parts)
  define xs where "xs = drop offset (zip cipher plain)"
  have fst_xs: "map fst xs = drop offset cipher" and snd_xs: "map snd xs = drop offset plain"
    using "1.prems"(1) by (simp_all add: xs_def drop_map [symmetric])
  have len: "length xs = length cipher - offset" using "1.prems"(1) by (simp add: xs_def)
  let ?n = "next_packet_len proto plain offset (length cipher - offset)"
  have n: "?n = packet_len proto (map snd xs)"
    using "1.prems"(1,2) next_packet_len_drop [of offset plain proto] by (simp add: snd_xs)
  show ?case
  proof (cases "offset < length cipher")
    case False
    then have "xs = []" using len by simp
    then have "ps = [] \<and> r = [] \<and> d = False"
      using "1.prems"(3) by (simp add: xs_def [symmetric] frm.cut_wait frm.nlen_Nil)
    with False "1.prems"(2) show ?thesis by (simp add: split_loop.simps [of proto cipher])
  next
    case True
    show ?thesis
    proof (rule frm.nlen_cases [of proto "map snd xs"])
      assume w: "packet_len proto (map snd xs) = - 1"
      then have "ps = [] \<and> r = xs \<and> d = False"
        using "1.prems"(3) by (simp add: xs_def [symmetric] frm.cut_wait)
      with w n True len show ?thesis by (simp add: split_loop.simps [of proto cipher])
    next
      assume w: "packet_len proto (map snd xs) = 0"
      then have "ps = [xs] \<and> r = [] \<and> d = True"
        using "1.prems"(3) by (simp add: xs_def [symmetric] frm.cut_stop)
      with w n True fst_xs show ?thesis by (simp add: split_loop.simps [of proto cipher])
    next
      assume w: "0 < packet_len proto (map snd xs)"
        "nat (packet_len proto (map snd xs)) \<le> length (map snd xs)"
      let ?k = "nat (packet_len proto (map snd xs))"
      obtain ps' where ps': "frm.cut proto (drop ?k xs) = (ps', r, d)" "ps = take ?k xs # ps'"
        using "1.prems"(3) w(1)
        by (auto simp: xs_def [symmetric] frm.cut_packet split: prod.splits)
      have "map fst (take ?k xs) = take ?k (drop offset cipher)"
        by (simp add: take_map [symmetric] fst_xs)
      moreover have "split_loop proto cipher plain (offset + nat ?n)
          (parts @ [take (nat ?n) (drop offset cipher)]) =
          ((parts @ [take (nat ?n) (drop offset cipher)]) @ map (map fst) ps',
            length cipher - length r, d)"
      proof (rule "1.IH" [OF True refl])
        show "?n \<noteq> - 1" "?n \<noteq> 0" using w(1) n by simp_all
        show "length plain = length cipher" by (rule "1.prems"(1))
        show "offset + nat ?n \<le> length cipher" using w(2) n len True by simp
        show "frm.cut proto (drop (offset + nat ?n) (zip cipher plain)) = (ps', r, d)"
          using ps'(1) n by (simp add: xs_def drop_drop add.commute)
      qed
      ultimately show ?thesis
        using w(1) n True ps'(2) by (simp add: split_loop.simps [of proto cipher plain offset])
    qed
  qed
qed

definition splitter_ok :: "msg_splitter \<Rightarrow> bool" where
  "splitter_ok s \<longleftrightarrow> length (sp_plain_buf s) = length (sp_cipher_buf s) \<and>
     (if sp_disabled s then sp_cipher_buf s = [] else packet_len (sp_proto s) (sp_plain_buf s) = - 1)"

definition buffered :: "msg_splitter \<Rightarrow> (byte \<times> byte) list" where
  "buffered s = zip (sp_cipher_buf s) (sp_plain_buf s)"

definition incoming :: "keystream \<Rightarrow> msg_splitter \<Rightarrow> bytes \<Rightarrow> (byte \<times> byte) list" where
  "incoming ks s chunk = zip chunk (fst (apply_keystream ks (sp_dec s) chunk))"

lemma splitter_split_cut:
  assumes ok: "splitter_ok s" and "chunk \<noteq> []" and "\<not> sp_disabled s"
    and cut: "frm.cut (sp_proto s) (buffered s @ incoming ks s chunk) = (ps, r, d)"
  shows "splitter_split ks s chunk = (map (map fst) ps,
    s\<lparr>sp_dec := snd (apply_keystream ks (sp_dec s) chunk), sp_cipher_buf := map fst r,
      sp_plain_buf := map snd r, sp_disabled := d\<rparr>)"
proof -
  let ?c = "sp_cipher_buf s @ chunk"
  let ?p = "sp_plain_buf s @ fst (apply_keystream ks (sp_dec s) chunk)"
  have len: "length ?p = length ?c" using ok by (simp add: splitter_ok_def)
  have z: "buffered s @ incoming ks s chunk = zip ?c ?p"
    using ok by (simp add: buffered_def incoming_def splitter_ok_def)
  have loop: "split_loop (sp_proto s) ?c ?p 0 [] = (map (map fst) ps, length ?c - length r, d)"
    using split_loop_cut [OF len, of 0] cut z by simp
  have "concat ps @ r = zip ?c ?p" using frm.cut_concat [OF cut] z by simp
  then have zs: "concat ps @ r = zip ?c ?p" .
  then have "length (concat ps) = length ?c - length r"
    using len by (metis add_diff_cancel_right' length_append length_zip min.idem)
  then have "r = drop (length ?c - length r) (zip ?c ?p)"
    using zs by (metis append_eq_conv_conj)
  then have "map fst r = map fst (drop (length ?c - length r) (zip ?c ?p))"
    and "map snd r = map snd (drop (length ?c - length r) (zip ?c ?p))"
    by simp_all
  then have r: "map fst r = drop (length ?c - length r) ?c"
      "map snd r = drop (length ?c - length r) ?p"
    using len by (simp_all only: drop_map [symmetric] map_fst_zip map_snd_zip)
  show ?thesis
    unfolding splitter_split_def Let_def case_prod_beta
    using assms(2,3) loop r by simp
qed


lemma splitter_split_Nil: "splitter_split ks s [] = ([], s)"
  by (simp add: splitter_split_def)

lemma splitter_split_disabled: "sp_disabled s \<Longrightarrow> splitter_split ks s chunk = (if chunk = [] then [] else [chunk], s)"
  by (simp add: splitter_split_def)

lemma length_incoming [simp]: "length (incoming ks s chunk) = length chunk"
  by (simp add: incoming_def)

lemma map_fst_incoming [simp]: "map fst (incoming ks s chunk) = chunk"
  by (simp add: incoming_def)

lemma map_snd_incoming [simp]: "map snd (incoming ks s chunk) = fst (apply_keystream ks (sp_dec s) chunk)"
  by (simp add: incoming_def)

lemma buffered_parts:
  assumes "splitter_ok s"
  shows "map fst (buffered s) = sp_cipher_buf s" and "map snd (buffered s) = sp_plain_buf s"
  using assms by (simp_all add: buffered_def splitter_ok_def)

text \<open>One call keeps the invariant and neither loses nor reorders a byte.\<close>

lemma splitter_split_step:
  assumes "splitter_ok s"
  shows "splitter_ok (snd (splitter_split ks s chunk))" (is ?ok)
    and "concat (fst (splitter_split ks s chunk)) @ sp_cipher_buf (snd (splitter_split ks s chunk))
      = sp_cipher_buf s @ chunk" (is ?bytes)
proof -
  have "?ok \<and> ?bytes"
  proof (cases "chunk = [] \<or> sp_disabled s")
    case True
    with assms show ?thesis by (auto simp: splitter_split_def splitter_ok_def)
  next
    case False
    obtain ps r d where cut: "frm.cut (sp_proto s) (buffered s @ incoming ks s chunk) = (ps, r, d)"
      by (metis surj_pair)
    note split = splitter_split_cut [OF assms _ _ cut]
    have "map fst (concat ps @ r) = sp_cipher_buf s @ chunk"
      using frm.cut_concat [OF cut] buffered_parts(1) [OF assms] by simp
    then show ?thesis
      using False split frm.cut_rest [OF cut] by (auto simp: splitter_ok_def map_concat)
  qed
  then show ?ok and ?bytes by simp_all
qed

lemma splitter_run_step:
  assumes "splitter_ok s"
  shows "splitter_ok (snd (run_all (splitter_split ks) s chunks)) \<and>
    concat (concat (fst (run_all (splitter_split ks) s chunks)))
      @ sp_cipher_buf (snd (run_all (splitter_split ks) s chunks)) = sp_cipher_buf s @ concat chunks"
  using assms
proof (induction chunks arbitrary: s)
  case (Cons c cs)
  note step = splitter_split_step [OF Cons.prems, of ks c]
  define r where "r = run_all (splitter_split ks) (snd (splitter_split ks s c)) cs"
  have "splitter_ok (snd r)" and "concat (concat (fst r)) @ sp_cipher_buf (snd r)
      = sp_cipher_buf (snd (splitter_split ks s c)) @ concat cs"
    using Cons.IH [OF step(1)] by (simp_all add: r_def)
  then show ?case using arg_cong [OF step(2), of "\<lambda>x. x @ concat cs"]
    by (simp add: r_def [symmetric])
qed simp

lemma splitter_new_fresh:
  assumes "splitter_new ks ri proto = Some (Inr s)"
  shows "\<exists>dec. s = \<lparr>sp_dec = dec, sp_proto = proto, sp_cipher_buf = [], sp_plain_buf = [],
    sp_disabled = False\<rparr>"
proof -
  obtain z where z: "new_relay_decrypt_stream ks ri = Some z"
    using assms by (auto simp: splitter_new_def)
  with assms show ?thesis by (cases z) (auto simp: splitter_new_def)
qed

lemma splitter_new_ok: "splitter_new ks ri proto = Some (Inr s) \<Longrightarrow> splitter_ok s"
  using splitter_new_fresh by (fastforce simp: splitter_ok_def frm.nlen_Nil)

lemma splitter_new_64:
  assumes "length r = 64"
  shows "\<exists>dec. splitter_new ks r proto = Some (Inr \<lparr>sp_dec = dec, sp_proto = proto,
    sp_cipher_buf = [], sp_plain_buf = [], sp_disabled = False\<rparr>)"
  using new_relay_decrypt_stream_64 [OF assms] by (simp add: splitter_new_def)

lemma splitter_split_append:
  assumes ok: "splitter_ok s" and a: "splitter_split ks s a = (out, s1)" and "\<not> sp_disabled s1"
  shows "splitter_split ks s (a @ b) = (out @ fst (splitter_split ks s1 b), snd (splitter_split ks s1 b))"
proof (cases "a = [] \<or> b = []")
  case True
  with a show ?thesis by (auto simp: splitter_split_Nil)
next
  case False
  then have ne: "a \<noteq> []" "b \<noteq> []" "a @ b \<noteq> []" by simp_all
  have en: "\<not> sp_disabled s" using a assms(3) by (auto simp: splitter_split_disabled split: if_splits)
  obtain ps r d where cut: "frm.cut (sp_proto s) (buffered s @ incoming ks s a) = (ps, r, d)"
    by (metis surj_pair)
  note A = splitter_split_cut [OF ok ne(1) en cut]
  with a assms(3) have s1: "s1 = s\<lparr>sp_dec := snd (apply_keystream ks (sp_dec s) a),
      sp_cipher_buf := map fst r, sp_plain_buf := map snd r, sp_disabled := False\<rparr>"
    and out: "out = map (map fst) ps" and d: "d = False" by auto
  have en1: "\<not> sp_disabled s1" by (rule assms(3))
  have ok1: "splitter_ok s1" using splitter_split_step(1) [OF ok, of ks a] a by simp
  have proto1: "sp_proto s1 = sp_proto s" by (simp add: s1)
  have buf: "buffered s1 = r" by (simp add: buffered_def s1 zip_map_fst_snd)
  have inc: "incoming ks s (a @ b) = incoming ks s a @ incoming ks s1 b"
    by (simp add: incoming_def s1 ctr.push_append zip_append)
  obtain qs r' d' where cut1: "frm.cut (sp_proto s1) (buffered s1 @ incoming ks s1 b) = (qs, r', d')"
    by (metis surj_pair)
  have "frm.cut (sp_proto s) (buffered s @ incoming ks s (a @ b)) = (ps @ qs, r', d')"
    using frm.cut_append [OF cut [unfolded d], of "incoming ks s1 b"] cut1 [unfolded buf] proto1
    by (simp add: inc)
  from splitter_split_cut [OF ok ne(3) en this] splitter_split_cut [OF ok1 ne(2) en1 cut1]
  show ?thesis by (simp add: out s1 ctr.push_append)
qed

lemma splitter_run_whole:
  assumes "splitter_ok s" and "run_all (splitter_split ks) s chunks = (outs, s1)" and "\<not> sp_disabled s1"
  shows "splitter_split ks s (concat chunks) = (concat outs, s1)"
  using assms
proof (induction chunks arbitrary: s outs)
  case Nil
  then show ?case by (simp add: splitter_split_Nil)
next
  case (Cons c cs)
  obtain out s2 where c: "splitter_split ks s c = (out, s2)" by fastforce
  obtain outs' s3 where cs: "run_all (splitter_split ks) s2 cs = (outs', s3)" by fastforce
  from Cons.prems(2) c cs have eq: "outs = out # outs'" "s3 = s1"
    by (simp_all add: run_all.simps(2))
  have ok2: "splitter_ok s2" using splitter_split_step(1) [OF Cons.prems(1), of ks c] c by simp
  have "\<not> sp_disabled s2"
  proof
    assume dis: "sp_disabled s2"
    have "sp_disabled (snd (run_all (splitter_split ks) s2 cs))"
      by (rule run_all_invariant [of sp_disabled]) (simp_all add: dis splitter_split_disabled)
    with cs eq Cons.prems(3) show False by simp
  qed
  from splitter_split_append [OF Cons.prems(1) c this] Cons.IH [OF ok2] cs eq Cons.prems(3)
  show ?case by simp
qed

section \<open>Properties\<close>

text \<open>
  C3: The splitter is lossless: however the socket reads chop the client's stream, the
  concatenation of all the messages it emits, with the final flush, is the stream itself,
  with every byte once and in order; also after splitting was given up.
\<close>

theorem splitter_lossless:
  assumes "splitter_new ks relay_init proto = Some (Inr s0)"
    and "run_all (splitter_split ks) s0 chunks = (outs, s)"
  shows "concat (concat outs) @ concat (fst (splitter_flush s)) = concat chunks"
proof -
  have "concat (fst (splitter_flush s)) = sp_cipher_buf s"
    by (simp add: splitter_flush_def)
  moreover have "sp_cipher_buf s0 = []" using splitter_new_fresh [OF assms(1)] by auto
  ultimately show ?thesis
    using splitter_run_step [OF splitter_new_ok [OF assms(1)], of ks chunks] assms(2) by simp
qed

theorem splitter_lossless_witness:
  "\<exists>s0. splitter_new (\<lambda>k i n. of_nat n) sample_draw PROTO_ABRIDGED_INT = Some (Inr s0) \<and>
     concat (concat (fst (run_all (splitter_split (\<lambda>k i n. of_nat n)) s0 [[1, 2], [], [3, 0xEF, 5]])))
       @ concat (fst (splitter_flush
           (snd (run_all (splitter_split (\<lambda>k i n. of_nat n)) s0 [[1, 2], [], [3, 0xEF, 5]]))))
     = [1, 2, 3, 0xEF, 5]"
proof -
  obtain s0 where new: "splitter_new (\<lambda>k i n. of_nat n) sample_draw PROTO_ABRIDGED_INT = Some (Inr s0)"
    using splitter_new_64 [OF sample_draw_facts(1)] by blast
  moreover have "concat [[1, 2], [], [3, 0xEF, 5]] = [1, 2, 3, 0xEF, 5 :: byte]" by simp
  ultimately show ?thesis using splitter_lossless [OF new prod.collapse [symmetric]] by metis
qed


definition sample_splitter :: msg_splitter where
  "sample_splitter = \<lparr>sp_dec = obf_forward sample_draw, sp_proto = PROTO_ABRIDGED_INT,
     sp_cipher_buf = [], sp_plain_buf = [], sp_disabled = False\<rparr>"

lemma sample_splitter_new:
  "splitter_new ks sample_draw PROTO_ABRIDGED_INT = Some (Inr sample_splitter)"
  by (simp add: splitter_new_def new_relay_decrypt_stream_64 sample_draw_facts(1) sample_splitter_def)

lemma sample_splitter_run:
  "\<exists>s. run_all (splitter_split (\<lambda>k i n. 0)) sample_splitter [[1, 2], [3, 4, 5, 1]]
     = ([[], [[1, 2, 3, 4, 5]]], s) \<and> \<not> sp_disabled s \<and> sp_plain_buf s = [1]"
proof -
  have "\<not> MAX_MTPROTO_PACKET < 5" by (simp add: MAX_MTPROTO_PACKET_def)
  then show ?thesis
    by (simp add: run_all.simps(2) splitter_split_def sample_splitter_def apply_keystream_def Let_def
        split_loop.simps next_packet_len_def next_abridged_len_def upt_rec_numeral)
qed




end
