(* ===== verification/Ws_Frame.thy ===== *)
theory Ws_Frame
  imports Mtproto Rust_Text
begin

text \<open>
  The WebSocket framing of \<open>ws.rs\<close>: \<open>build_ws_frame\<close> and its headers, \<open>read_frame\<close>,
  \<open>assemble_data_message\<close>, \<open>recv_binary\<close> and the batch senders. \<open>peer_decode\<close> is the
  independent specification: the frame syntax of RFC 6455, section 5.2, as the peer reads it.
  A random mask key is an argument. The frames a reader sees are a finite byte list followed by
  the error of the read after it, so every property covers truncated streams.
\<close>

section \<open>Building frames\<close>

definition xor_mask_owned :: "bytes \<Rightarrow> bytes \<Rightarrow> bytes" where
  "xor_mask_owned data key = map (\<lambda>(i, b). b XOR (key ! (i mod 4))) (enumerate 0 data)"

definition ws_header_unmasked :: "byte \<Rightarrow> nat \<Rightarrow> bytes" where
  "ws_header_unmasked fb l =
     (if l < 126 then [fb, of_nat l]
      else if l < 65536 then [fb, 126] @ to_be 2 l
      else [fb, 127] @ to_be 8 l)"

definition ws_header_masked :: "byte \<Rightarrow> nat \<Rightarrow> bytes \<Rightarrow> bytes" where
  "ws_header_masked fb l mask_key =
     (if l < 126 then [fb, 0x80 OR of_nat l] @ mask_key
      else if l < 65536 then [fb, 0x80 OR 126] @ to_be 2 l @ mask_key
      else [fb, 0x80 OR 127] @ to_be 8 l @ mask_key)"

definition build_ws_frame :: "bytes \<Rightarrow> byte \<Rightarrow> bytes \<Rightarrow> bool \<Rightarrow> bytes" where
  "build_ws_frame mask_key opcode data masked =
     (let fb = 0x80 OR opcode
      in if \<not> masked then ws_header_unmasked fb (length data) @ data
         else ws_header_masked fb (length data) mask_key @ xor_mask_owned data mask_key)"

definition ws_ping_frame :: "bytes \<Rightarrow> bytes" where
  "ws_ping_frame mask_key = build_ws_frame mask_key 0x9 [] True"

section \<open>Reading frames\<close>

definition ws_protocol_error :: "string \<Rightarrow> io_error" where
  "ws_protocol_error m = io_err InvalidData m"

text \<open>The extended length: \<open>length0\<close> is the 7-bit length of the second header byte.\<close>

definition read_length :: "io_error \<Rightarrow> nat \<Rightarrow> bytes \<Rightarrow> io_error + (nat \<times> bytes)" where
  "read_length e length0 bs =
     (if length0 = 126 then
        (case read_exact e 2 bs of
           Inl err \<Rightarrow> Inl err
         | Inr (ext, bs) \<Rightarrow> Inr (from_be ext, bs))
      else if length0 = 127 then
        (case read_exact e 8 bs of
           Inl err \<Rightarrow> Inl err
         | Inr (ext, bs) \<Rightarrow>
             if from_be ext > MAX_WS_PAYLOAD
             then Inl (io_err InvalidData (''WS frame too large: '' @ show_nat (from_be ext)))
             else Inr (from_be ext, bs))
      else Inr (length0, bs))"

definition read_frame :: "io_error \<Rightarrow> bytes \<Rightarrow> io_error + ((bool \<times> byte \<times> bytes) \<times> bytes)" where
  "read_frame e bs =
     (case read_exact e 2 bs of
        Inl err \<Rightarrow> Inl err
      | Inr (hdr, bs) \<Rightarrow>
          if (hdr ! 0) AND 0x70 \<noteq> 0 then Inl (ws_protocol_error ''WebSocket RSV bits are set'')
          else if (hdr ! 1) AND 0x80 \<noteq> 0
          then Inl (ws_protocol_error ''masked server WebSocket frame'')
          else
            let fin = ((hdr ! 0) AND 0x80 \<noteq> 0); opcode = (hdr ! 0) AND 0x0F
            in case read_length e (unat ((hdr ! 1) AND 0x7F)) bs of
                 Inl err \<Rightarrow> Inl err
               | Inr (n, bs) \<Rightarrow>
                   if n > MAX_WS_PAYLOAD
                   then Inl (io_err InvalidData (''WS frame too large: '' @ show_nat n))
                   else if opcode \<ge> 0x8 \<and> (\<not> fin \<or> n > 125)
                   then Inl (ws_protocol_error ''invalid WebSocket control frame'')
                   else
                     case read_exact e n bs of
                       Inl err \<Rightarrow> Inl err
                     | Inr (payload, bs) \<Rightarrow> Inr ((fin, opcode, payload), bs))"

definition assemble_data_message ::
  "bool \<Rightarrow> byte \<Rightarrow> bytes \<Rightarrow> bytes option \<Rightarrow> (io_error + bytes option) \<times> bytes option" where
  "assemble_data_message fin opcode payload fragmented =
     (if opcode = 0x1 \<or> opcode = 0x2 then
        if fragmented \<noteq> None
        then (Inl (ws_protocol_error ''new WebSocket data frame during fragmented message''), fragmented)
        else if fin then (Inr (Some payload), fragmented)
        else (Inr None, Some payload)
      else if opcode = 0x0 then
        (case fragmented of
           None \<Rightarrow> (Inl (ws_protocol_error ''WebSocket continuation without initial frame''), None)
         | Some message \<Rightarrow>
             if length message + length payload > MAX_WS_PAYLOAD
             then (Inl (ws_protocol_error ''fragmented WebSocket message too large''), fragmented)
             else if fin then (Inr (Some (message @ payload)), None)
             else (Inr None, Some (message @ payload)))
      else (Inl (ws_protocol_error ''not a WebSocket data frame''), fragmented))"

text \<open>
  \<open>recv_binary\<close>: the result (\<open>None\<close> for a close frame), the pongs handed to the writer's
  channel in order, and the bytes not yet read. \<open>keys n\<close> is the mask key of the \<open>n\<close>-th pong;
  \<open>chan_open n\<close> says whether the channel still has its receiver when the \<open>n\<close>-th pong is sent.
\<close>

lemma read_frame_shorter:
  assumes "read_frame e bs = Inr (f, bs')" shows "length bs' < length bs"
  using assms unfolding read_frame_def read_length_def read_exact_def Let_def
  by (auto split: if_split_asm sum.split_asm prod.split_asm)

function recv_loop ::
  "io_error \<Rightarrow> (nat \<Rightarrow> bytes) \<Rightarrow> (nat \<Rightarrow> bool) \<Rightarrow> nat \<Rightarrow> bytes option \<Rightarrow> bytes \<Rightarrow>
   (io_error + bytes option) \<times> bytes list \<times> bytes" where
  "recv_loop e keys chan_open n fragmented bs =
     (case read_frame e bs of
        Inl err \<Rightarrow> (Inl err, [], bs)
      | Inr ((fin, opcode, payload), bs') \<Rightarrow>
          if opcode = 0x8 then (Inr None, [], bs')
          else if opcode = 0x9 then
            let pong = build_ws_frame (keys n) 0xA payload True
            in if \<not> chan_open n then (Inl (io_err BrokenPipe ''WebSocket writer closed''), [], bs')
               else (case recv_loop e keys chan_open (Suc n) fragmented bs' of
                       (r, pongs, rest) \<Rightarrow> (r, pong # pongs, rest))
          else if opcode = 0xA then recv_loop e keys chan_open n fragmented bs'
          else if opcode \<le> 0x2 then
            (case assemble_data_message fin opcode payload fragmented of
               (Inl err, _) \<Rightarrow> (Inl err, [], bs')
             | (Inr (Some message), _) \<Rightarrow> (Inr (Some message), [], bs')
             | (Inr None, frag) \<Rightarrow> recv_loop e keys chan_open n frag bs')
          else (Inl (ws_protocol_error ''unsupported WebSocket opcode''), [], bs'))"
  by pat_completeness auto
termination
  by (relation "measure (\<lambda>(e, keys, c, n, f, bs). length bs)") (auto dest: read_frame_shorter)

declare recv_loop.simps [simp del]

definition recv_binary ::
  "io_error \<Rightarrow> (nat \<Rightarrow> bytes) \<Rightarrow> (nat \<Rightarrow> bool) \<Rightarrow> bytes \<Rightarrow>
   (io_error + bytes option) \<times> bytes list \<times> bytes" where
  "recv_binary e keys chan_open bs = recv_loop e keys chan_open 0 None bs"

text \<open>
  \<open>send_batch\<close>: one binary frame per part, stopping at the first write that fails; \<open>wr n\<close> is
  the error of the \<open>n\<close>-th write, if any. The written frames and the result.
\<close>

fun send_parts ::
  "(nat \<Rightarrow> io_error option) \<Rightarrow> (nat \<Rightarrow> bytes) \<Rightarrow> nat \<Rightarrow> bytes list \<Rightarrow> bytes list \<times> io_error option" where
  "send_parts wr keys n [] = ([], None)"
| "send_parts wr keys n (p # ps) =
     (case wr n of
        Some err \<Rightarrow> ([], Some err)
      | None \<Rightarrow> (case send_parts wr keys (Suc n) ps of
           (fs, r) \<Rightarrow> (build_ws_frame (keys n) 0x2 p True # fs, r)))"

definition send_batch ::
  "(nat \<Rightarrow> io_error option) \<Rightarrow> (nat \<Rightarrow> bytes) \<Rightarrow> bytes list \<Rightarrow> bytes list \<times> io_error option" where
  "send_batch wr keys parts = send_parts wr keys 0 parts"

definition ws_close_frame :: "bytes \<Rightarrow> bytes" where
  "ws_close_frame mask_key = build_ws_frame mask_key 0x8 [] True"

section \<open>The specification: RFC 6455 framing\<close>

definition unmask :: "bytes \<Rightarrow> bytes \<Rightarrow> bytes" where
  "unmask key raw = map (\<lambda>i. raw ! i XOR key ! (i mod 4)) [0..<length raw]"

text \<open>The frame at the head: FIN, the reserved bits, the opcode, the mask key if any, the payload.\<close>

definition peer_decode :: "bytes \<Rightarrow> ((bool \<times> byte \<times> byte \<times> bytes option \<times> bytes) \<times> bytes) option" where
  "peer_decode bs =
     (if length bs < 2 then None
      else
        let b0 = bs ! 0; b1 = bs ! 1; n0 = unat (b1 AND 0x7F);
            k = (if n0 = 126 then 2 else if n0 = 127 then 8 else 0);
            m = (if b1 AND 0x80 = 0 then 0 else 4)
        in if length bs < 2 + k then None
           else
             let n = (if k = 0 then n0 else from_be (take k (drop 2 bs)));
                 key = take m (drop (2 + k) bs); raw = take n (drop (2 + k + m) bs)
             in if length bs < 2 + k + m + n then None
                else Some ((b0 AND 0x80 \<noteq> 0, b0 AND 0x70, b0 AND 0x0F,
                            if m = 0 then None else Some key,
                            if m = 0 then raw else unmask key raw), drop (2 + k + m + n) bs))"

lemma xor_mask_owned_nth:
  "i < length data \<Longrightarrow> xor_mask_owned data key ! i = data ! i XOR key ! (i mod 4)"
  by (simp add: xor_mask_owned_def nth_enumerate_eq)

lemma length_xor_mask_owned [simp]: "length (xor_mask_owned data key) = length data"
  by (simp add: xor_mask_owned_def)

lemma unmask_mask [simp]: "unmask key (xor_mask_owned data key) = data"
  by (rule nth_equalityI) (simp_all add: unmask_def xor_mask_owned_nth xor.assoc)

text \<open>The second header byte.\<close>

lemma seven_bits: "l < 128 \<Longrightarrow> (of_nat l :: byte) AND 0x7F = of_nat l"
proof -
  assume "l < 128"
  then have "take_bit 7 (of_nat l :: byte) = of_nat l"
    by (simp add: take_bit_of_nat take_bit_nat_eq_self)
  then show ?thesis by (simp add: take_bit_eq_mask mask_numeral)
qed

lemma no_bit_seven: "l < 128 \<Longrightarrow> (of_nat l :: byte) AND 0x80 = 0"
proof -
  assume l: "l < 128"
  have "(0x80 :: byte) = 2 ^ 7" by simp
  moreover have "\<not> bit l 7" using l by (simp add: bit_iff_odd)
  then have "\<not> bit (of_nat l :: byte) 7" by (simp add: bit_of_nat_iff)
  ultimately show ?thesis by (metis and_exp_eq_0_iff_not_bit)
qed

lemma mask_flag_set: "((0x80 :: byte) OR w) AND 0x80 = 0x80"
  by (rule bit_word_eqI) (auto simp: bit_simps)

lemma mask_flag_low: "((0x80 :: byte) OR w) AND 0x7F = w AND 0x7F"
proof -
  have "((0x80 :: byte) OR w) AND 0x7F = (0x80 AND 0x7F) OR (w AND 0x7F)"
    by (rule bit.conj_disj_distrib2)
  then show ?thesis by simp
qed

lemma peer_decode_unmasked:
  assumes "length data < 2 ^ 64"
  shows "peer_decode (ws_header_unmasked fb (length data) @ data @ rest) =
    Some ((fb AND 0x80 \<noteq> 0, fb AND 0x70, fb AND 0x0F, None, data), rest)"
proof -
  let ?l = "length data"
  consider "?l < 126" | "126 \<le> ?l" "?l < 65536" | "65536 \<le> ?l" by linarith
  then show ?thesis
  proof cases
    case 1
    then have "unat (of_nat ?l AND 0x7F :: byte) = ?l" and "(of_nat ?l :: byte) AND 0x80 = 0"
      by (simp_all add: seven_bits no_bit_seven unat_of_nat)
    with 1 show ?thesis by (simp add: peer_decode_def ws_header_unmasked_def Let_def drop_Cons')
  next
    case 2
    then have "from_be (to_be 2 ?l) = ?l" by (intro from_be_to_be) simp
    with 2 show ?thesis by (simp add: peer_decode_def ws_header_unmasked_def Let_def drop_Cons')
  next
    case 3
    have "from_be (to_be 8 ?l) = ?l" using assms by (intro from_be_to_be) simp
    with 3 show ?thesis by (simp add: peer_decode_def ws_header_unmasked_def Let_def drop_Cons')
  qed
qed

lemma peer_decode_masked:
  assumes "length data < 2 ^ 64" and "length key = 4"
  shows "peer_decode (ws_header_masked fb (length data) key @ xor_mask_owned data key @ rest) =
    Some ((fb AND 0x80 \<noteq> 0, fb AND 0x70, fb AND 0x0F, Some key, data), rest)"
proof -
  let ?l = "length data"
  consider "?l < 126" | "126 \<le> ?l" "?l < 65536" | "65536 \<le> ?l" by linarith
  then show ?thesis
  proof cases
    case 1
    then have "unat ((0x80 OR of_nat ?l) AND 0x7F :: byte) = ?l"
      by (simp add: mask_flag_low seven_bits unat_of_nat)
    with 1 assms(2) show ?thesis
      by (simp add: peer_decode_def ws_header_masked_def Let_def drop_Cons' mask_flag_set)
  next
    case 2
    then have "from_be (to_be 2 ?l) = ?l" by (intro from_be_to_be) simp
    with 2 assms(2) show ?thesis by (simp add: peer_decode_def ws_header_masked_def Let_def drop_Cons')
  next
    case 3
    have "from_be (to_be 8 ?l) = ?l" using assms by (intro from_be_to_be) simp
    with 3 assms(2) show ?thesis by (simp add: peer_decode_def ws_header_masked_def Let_def drop_Cons')
  qed
qed

lemma opcode_bits:
  assumes "op < (16 :: byte)"
  shows "(0x80 OR op) AND 0x80 \<noteq> 0" "(0x80 OR op) AND 0x70 = 0" "(0x80 OR op) AND 0x0F = op"
    "op AND 0x80 = 0" "op AND 0x70 = 0" "op AND 0x0F = op"
proof -
  have "unat op < 16" using assms by (simp add: word_less_nat_alt)
  then have "take_bit 4 (of_nat (unat op) :: byte) = of_nat (unat op)"
    by (simp only: take_bit_of_nat) (simp add: take_bit_nat_eq_self)
  then have t: "take_bit 4 op = op" by simp
  then have low: "op AND 0x0F = op" by (simp add: take_bit_eq_mask mask_numeral)
  have hi: "op AND 0x80 = 0" "op AND 0x70 = 0"
    by (subst low [symmetric], simp add: and.assoc)+
  show "(0x80 OR op) AND 0x80 \<noteq> 0" by (simp add: mask_flag_set)
  show "(0x80 OR op) AND 0x70 = 0" "(0x80 OR op) AND 0x0F = op"
    using hi low by (simp_all add: bit.conj_disj_distrib2)
  show "op AND 0x80 = 0" "op AND 0x70 = 0" "op AND 0x0F = op" by (fact hi low)+
qed

section \<open>Reading what the peer sends\<close>

text \<open>A frame as a server sends it: not masked, the length in its shortest form.\<close>

definition server_frame :: "bool \<times> byte \<times> bytes \<Rightarrow> bytes" where
  "server_frame f = (case f of (fin, opcode, data) \<Rightarrow>
     ws_header_unmasked (if fin then 0x80 OR opcode else opcode) (length data) @ data)"

lemma read_exact_Inr:
  "read_exact e n bs = Inr (x, r) \<longleftrightarrow> n \<le> length bs \<and> x = take n bs \<and> r = drop n bs"
  by (auto simp: read_exact_def)

definition ext_len :: "nat \<Rightarrow> nat" where
  "ext_len n0 = (if n0 = 126 then 2 else if n0 = 127 then 8 else 0)"

definition frame_len :: "nat \<Rightarrow> bytes \<Rightarrow> nat" where
  "frame_len n0 bs = (if ext_len n0 = 0 then n0 else from_be (take (ext_len n0) bs))"

lemma read_length_Inr:
  "read_length e n0 bs = Inr (n, r) \<longleftrightarrow>
   ext_len n0 \<le> length bs \<and> n = frame_len n0 bs \<and> r = drop (ext_len n0) bs \<and>
   (n0 = 127 \<longrightarrow> n \<le> MAX_WS_PAYLOAD)"
  by (auto simp: read_length_def ext_len_def frame_len_def read_exact_def)

lemma read_frame_Inr:
  assumes "2 \<le> length bs"
  defines "n0 \<equiv> unat (bs ! 1 AND 0x7F)"
  shows "read_frame e bs = Inr ((fin, opcode, payload), rest) \<longleftrightarrow>
   bs ! 0 AND 0x70 = 0 \<and> bs ! 1 AND 0x80 = 0 \<and> fin = (bs ! 0 AND 0x80 \<noteq> 0) \<and>
   opcode = bs ! 0 AND 0x0F \<and>
   (\<exists>n r. read_length e n0 (drop 2 bs) = Inr (n, r) \<and> n \<le> MAX_WS_PAYLOAD \<and>
      (opcode \<ge> 0x8 \<longrightarrow> fin \<and> n \<le> 125) \<and> read_exact e n r = Inr (payload, rest))"
proof -
  have hdr: "read_exact e 2 bs = Inr (take 2 bs, drop 2 bs)" "take 2 bs ! 0 = bs ! 0"
    "take 2 bs ! 1 = bs ! 1" using assms(1) by (simp_all add: read_exact_def)
  have n0: "unat (bs ! Suc 0 AND 0x7F) = n0" by (simp add: n0_def)
  show ?thesis
  proof (cases "read_length e n0 (drop 2 bs)")
    case (Inl err)
    then show ?thesis by (simp add: read_frame_def hdr n0 Let_def)
  next
    case (Inr nr)
    obtain n r where nr: "nr = (n, r)" by fastforce
    show ?thesis
      by (cases "read_exact e n r")
        (auto simp: read_frame_def hdr n0 Inr nr Let_def not_less)
  qed
qed

lemma peer_decode_Some:
  assumes "2 \<le> length bs"
  defines "n0 \<equiv> unat (bs ! 1 AND 0x7F)"
  shows "peer_decode bs = Some ((fin, rsv, opcode, None, payload), rest) \<longleftrightarrow>
   bs ! 1 AND 0x80 = 0 \<and> rsv = bs ! 0 AND 0x70 \<and> fin = (bs ! 0 AND 0x80 \<noteq> 0) \<and>
   opcode = bs ! 0 AND 0x0F \<and> ext_len n0 \<le> length (drop 2 bs) \<and>
   frame_len n0 (drop 2 bs) \<le> length (drop (ext_len n0) (drop 2 bs)) \<and>
   payload = take (frame_len n0 (drop 2 bs)) (drop (ext_len n0) (drop 2 bs)) \<and>
   rest = drop (frame_len n0 (drop 2 bs)) (drop (ext_len n0) (drop 2 bs))"
proof -
  define n where "n = frame_len n0 (drop 2 bs)"
  define k where "k = ext_len n0"
  have k: "(if n0 = 126 then 2 else if n0 = 127 then 8 else 0) = k"
    and n: "(if k = 0 then n0 else from_be (take k (drop 2 bs))) = n"
    by (simp_all add: k_def n_def ext_len_def frame_len_def)
  show ?thesis
  proof (cases "bs ! 1 AND 0x80 = 0")
    case True
    with assms(1) show ?thesis
      unfolding peer_decode_def Let_def n0_def [symmetric] k n k_def [symmetric] n_def [symmetric]
      by (auto simp: ac_simps)
  next
    case False
    with assms(1) show ?thesis
      unfolding peer_decode_def Let_def by auto
  qed
qed

lemma read_frame_decode:
  "read_frame e bs = Inr ((fin, opcode, payload), rest) \<longleftrightarrow>
   peer_decode bs = Some ((fin, 0, opcode, None, payload), rest) \<and>
   length payload \<le> MAX_WS_PAYLOAD \<and> (opcode \<ge> 0x8 \<longrightarrow> fin \<and> length payload \<le> 125)"
proof (cases "2 \<le> length bs")
  case True
  have n0: "n0 = 127 \<longrightarrow> n \<le> MAX_WS_PAYLOAD" if "n \<le> MAX_WS_PAYLOAD" for n n0 using that by simp
  show ?thesis
    unfolding read_frame_Inr [OF True] peer_decode_Some [OF True] read_length_Inr read_exact_Inr
    by auto
next
  case False
  then show ?thesis by (simp add: read_frame_def peer_decode_def read_exact_def)
qed

lemma frame_first_byte:
  fixes fin :: bool
  assumes "opcode < (16 :: byte)"
  defines "fb \<equiv> (if fin then 0x80 OR opcode else opcode)"
  shows "(fb AND 0x80 \<noteq> 0) = fin" and "fb AND 0x70 = 0" and "fb AND 0x0F = opcode"
  using opcode_bits [OF assms(1)] by (simp_all add: fb_def)

lemma max_payload: "MAX_WS_PAYLOAD < 2 ^ 64"
  by (simp add: MAX_WS_PAYLOAD_def)

lemma read_server_frame:
  assumes "opcode < 16" and "length data \<le> MAX_WS_PAYLOAD"
    and "opcode \<ge> 0x8 \<longrightarrow> fin \<and> length data \<le> 125"
  shows "read_frame e (server_frame (fin, opcode, data) @ rest) = Inr ((fin, opcode, data), rest)"
proof -
  have "length data < 2 ^ 64" using assms(2) max_payload by linarith
  from peer_decode_unmasked [OF this] show ?thesis
    using frame_first_byte [OF assms(1), of fin] assms(2,3)
    by (simp add: read_frame_decode server_frame_def)
qed

lemma peer_reads_frame:
  assumes "length key = 4" and "opcode < 16" and "length data < 2 ^ 64"
  shows "peer_decode (build_ws_frame key opcode data True @ rest) =
    Some ((True, 0, opcode, Some key, data), rest)"
  using peer_decode_masked [OF assms(3,1)] opcode_bits [OF assms(2)]
  by (simp add: build_ws_frame_def)

text \<open>The frames of one message: fragments in order, with pings and pongs anywhere between them.\<close>

fun carries :: "bytes option \<Rightarrow> (bool \<times> byte \<times> bytes) list \<Rightarrow> bytes \<Rightarrow> bool" where
  "carries frag [] m = False"
| "carries frag ((fin, opcode, p) # fs) m =
     (if opcode = 0x9 \<or> opcode = 0xA then fin \<and> length p \<le> 125 \<and> carries frag fs m
      else if opcode = 0x1 \<or> opcode = 0x2 then
        frag = None \<and> length p \<le> MAX_WS_PAYLOAD \<and>
        (if fin then fs = [] \<and> m = p else carries (Some p) fs m)
      else if opcode = 0x0 then
        (case frag of
           None \<Rightarrow> False
         | Some q \<Rightarrow> length (q @ p) \<le> MAX_WS_PAYLOAD \<and>
             (if fin then fs = [] \<and> m = q @ p else carries (Some (q @ p)) fs m))
      else False)"

definition pings :: "(bool \<times> byte \<times> bytes) list \<Rightarrow> bytes list" where
  "pings fs = map (\<lambda>f. snd (snd f)) (filter (\<lambda>f. fst (snd f) = 0x9) fs)"

definition pongs_from :: "(nat \<Rightarrow> bytes) \<Rightarrow> nat \<Rightarrow> bytes list \<Rightarrow> bytes list" where
  "pongs_from keys n ps = map (\<lambda>(i, p). build_ws_frame (keys i) 0xA p True) (enumerate n ps)"

lemma recv_loop_frame:
  assumes "opcode < 16" and "length data \<le> MAX_WS_PAYLOAD"
    and "opcode \<ge> 0x8 \<longrightarrow> fin \<and> length data \<le> 125"
  shows "recv_loop e keys c n frag (server_frame (fin, opcode, data) @ rest) =
     (if opcode = 0x8 then (Inr None, [], rest)
      else if opcode = 0x9 then
        (if \<not> c n then (Inl (io_err BrokenPipe ''WebSocket writer closed''), [], rest)
         else (case recv_loop e keys c (Suc n) frag rest of
                 (r, pongs, rest') \<Rightarrow> (r, build_ws_frame (keys n) 0xA data True # pongs, rest')))
      else if opcode = 0xA then recv_loop e keys c n frag rest
      else if opcode \<le> 0x2 then
        (case assemble_data_message fin opcode data frag of
           (Inl err, _) \<Rightarrow> (Inl err, [], rest)
         | (Inr (Some message), _) \<Rightarrow> (Inr (Some message), [], rest)
         | (Inr None, frag') \<Rightarrow> recv_loop e keys c n frag' rest)
      else (Inl (ws_protocol_error ''unsupported WebSocket opcode''), [], rest))"
  by (subst recv_loop.simps) (simp add: read_server_frame [OF assms] Let_def split: if_split)

lemma recv_loop_control:
  assumes "length data \<le> 125"
  shows "recv_loop e keys (\<lambda>_. True) n frag (server_frame (True, 0x9, data) @ rest) =
      (case recv_loop e keys (\<lambda>_. True) (Suc n) frag rest of
         (r, pongs, rest') \<Rightarrow> (r, build_ws_frame (keys n) 0xA data True # pongs, rest'))"
    "recv_loop e keys (\<lambda>_. True) n frag (server_frame (True, 0xA, data) @ rest) =
      recv_loop e keys (\<lambda>_. True) n frag rest"
proof -
  have "length data \<le> MAX_WS_PAYLOAD" using assms by (simp add: MAX_WS_PAYLOAD_def)
  then show "recv_loop e keys (\<lambda>_. True) n frag (server_frame (True, 0x9, data) @ rest) =
      (case recv_loop e keys (\<lambda>_. True) (Suc n) frag rest of
         (r, pongs, rest') \<Rightarrow> (r, build_ws_frame (keys n) 0xA data True # pongs, rest'))"
    "recv_loop e keys (\<lambda>_. True) n frag (server_frame (True, 0xA, data) @ rest) =
      recv_loop e keys (\<lambda>_. True) n frag rest"
    using assms by (simp_all add: recv_loop_frame)
qed

lemma recv_loop_data:
  assumes "opcode = 0x0 \<or> opcode = 0x1 \<or> opcode = 0x2" and "length data \<le> MAX_WS_PAYLOAD"
  shows "recv_loop e keys c n frag (server_frame (fin, opcode, data) @ rest) =
    (case assemble_data_message fin opcode data frag of
       (Inl err, _) \<Rightarrow> (Inl err, [], rest)
     | (Inr (Some message), _) \<Rightarrow> (Inr (Some message), [], rest)
     | (Inr None, frag') \<Rightarrow> recv_loop e keys c n frag' rest)"
  using assms recv_loop_frame [of opcode data fin e keys c n frag rest] by (auto simp: word_le_nat_alt)

lemma recv_loop_carries:
  assumes "carries frag fs m"
  shows "recv_loop e keys (\<lambda>_. True) n frag (concat (map server_frame fs) @ rest) =
    (Inr (Some m), pongs_from keys n (pings fs), rest)"
  using assms
proof (induction frag fs m arbitrary: n rule: carries.induct)
  case (2 frag fin opcode p fs m)
  consider (ping) "opcode = 0x9" | (pong) "opcode = 0xA" | (first) "opcode = 0x1 \<or> opcode = 0x2"
    | (cont) "opcode = 0x0"
    using "2.prems"(1) by (auto split: if_splits)
  then show ?case
  proof cases
    case ping
    with "2.prems" "2.IH"(1) [of "Suc n"] show ?thesis
      by (simp add: recv_loop_control pings_def pongs_from_def)
  next
    case pong
    with "2.prems" "2.IH"(1) [of n] show ?thesis by (simp add: recv_loop_control pings_def)
  next
    case first
    with "2.prems" "2.IH"(2) [of n] show ?thesis
      by (cases fin) (auto simp: recv_loop_data assemble_data_message_def pings_def pongs_from_def)
  next
    case cont
    with "2.prems" obtain q where q: "frag = Some q" "length (q @ p) \<le> MAX_WS_PAYLOAD"
      "if fin then fs = [] \<and> m = q @ p else carries (Some (q @ p)) fs m"
      by (auto split: option.splits)
    with cont "2.IH"(3) [of q n] show ?thesis
      by (cases fin) (simp_all add: recv_loop_data assemble_data_message_def pings_def pongs_from_def)
  qed
qed simp

lemma assembled_bounds:
  assumes "assemble_data_message fin opcode payload frag = (a, frag')"
    and "\<And>q. frag = Some q \<Longrightarrow> length q \<le> MAX_WS_PAYLOAD" and "length payload \<le> MAX_WS_PAYLOAD"
  shows "a = Inr (Some m) \<Longrightarrow> length m \<le> MAX_WS_PAYLOAD"
    and "a = Inr None \<Longrightarrow> frag' = Some q \<Longrightarrow> length q \<le> MAX_WS_PAYLOAD"
  using assms by (auto simp: assemble_data_message_def split: if_splits option.splits)

lemma recv_loop_bounds:
  assumes "recv_loop e keys c n frag bs = (r, pongs, rest)" and "r = Inr (Some m)"
    and "\<And>q. frag = Some q \<Longrightarrow> length q \<le> MAX_WS_PAYLOAD"
  shows "length m \<le> MAX_WS_PAYLOAD"
  using assms
proof (induction e keys c n frag bs arbitrary: r pongs rest rule: recv_loop.induct)
  case (1 e keys c n frag bs)
  show ?case
  proof (cases "read_frame e bs")
    case (Inl err)
    with "1.prems" show ?thesis by (simp add: recv_loop.simps [of e keys c n frag bs])
  next
    case (Inr res)
    obtain fin opcode payload bs' where res: "res = ((fin, opcode, payload), bs')" by (metis surj_pair)
    note f = Inr [unfolded res]
    have len: "length payload \<le> MAX_WS_PAYLOAD" using f by (simp add: read_frame_decode)
    note unfold = recv_loop.simps [of e keys c n frag bs, simplified f, simplified]
    consider "opcode = 0x8" | "opcode = 0x9" | "opcode = 0xA"
      | (data) "opcode \<noteq> 0x8" "opcode \<noteq> 0x9" "opcode \<noteq> 0xA" by blast
    then show ?thesis
    proof cases
      case 1
      with unfold "1.prems" show ?thesis by simp
    next
      case 2
      with unfold "1.prems"(1,2) have "c n" by (auto split: if_splits)
      obtain r' ps rest' where rec: "recv_loop e keys c (Suc n) frag bs' = (r', ps, rest')"
        by (metis surj_pair)
      with unfold 2 \<open>c n\<close> "1.prems"(1) have "r' = r" by simp
      with "1.IH"(1) [OF f refl refl refl _ 2 refl _ rec] \<open>c n\<close> "1.prems"(2,3) 2
      show ?thesis by simp
    next
      case 3
      have "recv_loop e keys c n frag bs' = (r, pongs, rest)" using unfold 3 "1.prems"(1) by simp
      with "1.IH"(2) [OF f refl refl refl] 3 "1.prems"(2,3) show ?thesis by simp
    next
      case data
      obtain a frag' where asm: "assemble_data_message fin opcode payload frag = (a, frag')" by fastforce
      note bound = assembled_bounds [OF asm "1.prems"(3) len]
      show ?thesis
      proof (cases "opcode \<le> 0x2 \<and> a = Inr None")
        case True
        with unfold data asm "1.prems"(1) have "recv_loop e keys c n frag' bs' = (r, pongs, rest)" by simp
        with "1.IH"(3) [OF f refl refl refl] data True asm "1.prems"(2) bound(2) show ?thesis by simp
      next
        case False
        with unfold data asm "1.prems"(1,2) have "a = Inr (Some m)"
          by (auto split: if_splits sum.splits option.splits)
        then show ?thesis using assembled_bounds(1) [of fin opcode payload frag a frag'] asm "1.prems"(3) len by simp
      qed
    qed
  qed
qed

text \<open>A message or a close frame uses up some of the input.\<close>

lemma recv_loop_shorter:
  "recv_loop e keys c n frag bs = (Inr r, pongs, rest) \<Longrightarrow> length rest < length bs"
proof (induction e keys c n frag bs arbitrary: pongs rest rule: recv_loop.induct)
  case (1 e keys c n frag bs)
  obtain fin opcode payload bs' where f: "read_frame e bs = Inr ((fin, opcode, payload), bs')"
    using "1.prems" by (auto simp: recv_loop.simps [of e keys c n frag bs] split: sum.splits)
  note less = read_frame_shorter [OF f]
  have "length rest \<le> length bs'"
    using "1.prems" "1.IH" [OF f refl refl refl]
    by (simp add: recv_loop.simps [of e keys c n frag bs] f Let_def)
      (fastforce split: if_splits prod.splits sum.splits option.splits dest: less_imp_le)
  with less show ?case by simp
qed

lemma recv_binary_shorter: "recv_binary e keys c bs = (Inr r, pongs, rest) \<Longrightarrow> length rest < length bs"
  unfolding recv_binary_def by (rule recv_loop_shorter)

lemma send_parts_frames:
  "send_parts wr keys n parts = (fs, r) \<Longrightarrow>
   fs = map (\<lambda>(i, p). build_ws_frame (keys i) 0x2 p True) (take (length fs) (enumerate n parts)) \<and>
   length fs \<le> length parts \<and> (r = None \<longleftrightarrow> length fs = length parts)"
proof (induction parts arbitrary: n fs)
  case (Cons p ps)
  show ?case
  proof (cases "wr n")
    case None
    obtain fs' where fs': "send_parts wr keys (Suc n) ps = (fs', r)"
        "fs = build_ws_frame (keys n) 0x2 p True # fs'"
      using Cons.prems None by (auto split: prod.splits)
    with Cons.IH [OF fs'(1)] show ?thesis by simp
  next
    case (Some err)
    with Cons.prems have "fs = []" "r = Some err" by simp_all
    then show ?thesis by simp
  qed
qed simp

section \<open>Properties\<close>


text \<open>
  A message that arrives in any number of fragments, with pings and pongs interleaved, is
  returned whole and in order, every ping is answered in order by a pong with the ping's payload,
  and nothing after the message's last frame is consumed.
\<close>

lemma recv_binary_reassembles:
  assumes "carries None fs m" and "\<forall>n. chan_open n"
  shows "recv_binary e keys chan_open (concat (map server_frame fs) @ rest) =
    (Inr (Some m), map (\<lambda>(i, p). build_ws_frame (keys i) 0xA p True) (enumerate 0 (pings fs)), rest)"
proof -
  have "chan_open = (\<lambda>_. True)" using assms(2) by auto
  with recv_loop_carries [OF assms(1)] show ?thesis by (simp add: recv_binary_def pongs_from_def)
qed

lemma recv_binary_reassembles_witness:
  "recv_binary (io_err UnexpectedEof ''early eof'') (\<lambda>i. [1, 2, 3, of_nat i]) (\<lambda>n. True)
     (concat (map server_frame [(False, 2, [1, 2]), (True, 9, [7]), (False, 0, []),
        (True, 0xA, []), (True, 0, [3])]) @ [0x88])
   = (Inr (Some [1, 2, 3]), [build_ws_frame [1, 2, 3, 0] 0xA [7] True], [0x88])"
  using recv_binary_reassembles [of "[(False, 2, [1, 2]), (True, 9, [7]), (False, 0, []),
      (True, 0xA, []), (True, 0, [3])]" "[1, 2, 3]" "\<lambda>n. True"
      "io_err UnexpectedEof ''early eof''" "\<lambda>i. [1, 2, 3, of_nat i]" "[0x88]"]
  by (simp add: pings_def MAX_WS_PAYLOAD_def)

text \<open>
  A message \<open>recv_binary\<close> returns is never longer than \<open>MAX_WS_PAYLOAD\<close>, however the peer
  fragments it and whatever else it sends: the memory a peer can make the reader hold is bounded.
\<close>

lemma recv_binary_bounded:
  assumes "recv_binary e keys chan_open bs = (Inr (Some m), pongs, rest)"
  shows "length m \<le> MAX_WS_PAYLOAD"
  using recv_loop_bounds [OF assms [unfolded recv_binary_def] refl] by simp

lemma recv_binary_bounded_witness:
  "recv_binary (io_err UnexpectedEof ''early eof'') (\<lambda>i. []) (\<lambda>n. True)
     (concat (map server_frame [(True, 2, [1])]) @ []) = (Inr (Some [1]), [], []) \<and>
   length [1 :: byte] \<le> MAX_WS_PAYLOAD"
proof -
  have "recv_binary (io_err UnexpectedEof ''early eof'') (\<lambda>i. []) (\<lambda>n. True)
     (concat (map server_frame [(True, 2, [1])]) @ []) = (Inr (Some [1]), [], [])"
    unfolding recv_binary_def
    by (subst recv_loop_carries) (simp_all add: pings_def pongs_from_def MAX_WS_PAYLOAD_def)
  from recv_binary_bounded [OF this] this show ?thesis by blast
qed

text \<open>
  A batch is sent as one binary message per part, in order, stopping at the first write that
  fails: a peer that reads any of the written frames gets the part unchanged, and the call
  reports success exactly when all parts were written.
\<close>

lemma send_batch_delivers:
  assumes "send_batch wr keys parts = (fs, r)"
    and "\<forall>i. length (keys i) = 4" and "\<forall>p \<in> set parts. length p < 2 ^ 64"
  shows "(\<forall>i < length fs. \<forall>rest. peer_decode (fs ! i @ rest) =
      Some ((True, 0, 0x2, Some (keys i), parts ! i), rest)) \<and>
    length fs \<le> length parts \<and> (r = None \<longleftrightarrow> length fs = length parts)"
proof -
  note fs = send_parts_frames [OF assms(1) [unfolded send_batch_def]]
  have "peer_decode (fs ! i @ rest) = Some ((True, 0, 0x2, Some (keys i), parts ! i), rest)"
    if i: "i < length fs" for i rest
  proof -
    have i': "i < length parts" using fs i by linarith
    have "fs ! i = build_ws_frame (keys i) 0x2 (parts ! i) True"
    proof -
      have "fs ! i = map (\<lambda>(i, p). build_ws_frame (keys i) 0x2 p True)
          (take (length fs) (enumerate 0 parts)) ! i"
        by (rule arg_cong [OF conjunct1 [OF fs], of "\<lambda>x. x ! i"])
      also have "\<dots> = build_ws_frame (keys i) 0x2 (parts ! i) True"
        using i i' by (simp add: nth_enumerate_eq)
      finally show ?thesis .
    qed
    with assms(2,3) i' show ?thesis by (simp add: peer_reads_frame)
  qed
  with fs show ?thesis by blast
qed

lemma send_batch_delivers_witness:
  "\<exists>fs. send_batch (\<lambda>n. if n = 1 then Some (io_err BrokenPipe ''broken pipe'') else None)
     (\<lambda>i. [1, 2, 3, 4]) [[5, 6], [7]] = (fs, Some (io_err BrokenPipe ''broken pipe'')) \<and>
   length fs = 1 \<and> peer_decode (fs ! 0 @ []) = Some ((True, 0, 0x2, Some [1, 2, 3, 4], [5, 6]), [])"
proof -
  obtain fs where fs: "send_batch (\<lambda>n. if n = 1 then Some (io_err BrokenPipe ''broken pipe'') else None)
     (\<lambda>i. [1, 2, 3, 4]) [[5, 6], [7]] = (fs, Some (io_err BrokenPipe ''broken pipe''))" "length fs = 1"
    by (simp add: send_batch_def)
  have "\<forall>rest. peer_decode (fs ! 0 @ rest) = Some ((True, 0, 0x2, Some [1, 2, 3, 4], [5, 6]), rest)"
    using send_batch_delivers [OF fs(1)] fs(2) by simp
  from spec [OF this, of "[]"] fs show ?thesis by auto
qed

end
