(* ===== verification/Ws.thy ===== *)
theory Ws
  imports Ws_Frame
begin

text \<open>
  The WebSocket client handshake of \<open>ws.rs\<close>: the request, the response parser, the checks of
  the upgrade, the error type and the Worker paths. The network is the record \<open>ws_peer\<close>: the
  outcome of each awaited step (success, error, or the timeout) and the bytes the peer answers a
  given request with. SHA-1, base64 and \<open>ServerName::try_from\<close> are third-party code and so
  parameters; the random key is an argument. A \<open>HashMap\<close> of headers is a map.
\<close>

section \<open>Errors\<close>

record ws_handshake_error =
  he_status_code :: nat
  he_status_line :: string
  he_headers :: "string \<rightharpoonup> string"

datatype ws_connect_error =
    WsIo io_error
  | WsTls io_error
  | WsHandshake ws_handshake_error
  | WsTimeout

definition http_status :: "ws_connect_error \<Rightarrow> nat option" where
  "http_status err = (case err of WsHandshake h \<Rightarrow> Some (he_status_code h) | _ \<Rightarrow> None)"

definition into_io :: "ws_connect_error \<Rightarrow> io_error" where
  "into_io err =
     (case err of
        WsIo e \<Rightarrow> e
      | WsTls e \<Rightarrow> e
      | WsTimeout \<Rightarrow> io_err TimedOut ''WebSocket timeout''
      | WsHandshake h \<Rightarrow> io_err InvalidData (''WS handshake failed: '' @ trim (he_status_line h)))"

definition is_ws_http_status :: "ws_connect_error \<Rightarrow> nat \<Rightarrow> bool" where
  "is_ws_http_status err code \<longleftrightarrow> http_status err = Some code"

definition retry_after_from_err :: "ws_connect_error \<Rightarrow> nat" where
  "retry_after_from_err err =
     (case err of
        WsHandshake h \<Rightarrow>
          let retry_after = (case he_headers h ''retry-after'' of Some s \<Rightarrow> trim s | None \<Rightarrow> '''')
          in if retry_after = '''' then 0
             else (case parse_u64 retry_after of
                     Some seconds \<Rightarrow> if seconds > 0 then seconds * NANOS else 0
                   | None \<Rightarrow> 0)
      | _ \<Rightarrow> 0)"

definition is_ws_redirect :: "io_error \<Rightarrow> bool" where
  "is_ws_redirect err \<longleftrightarrow>
     list_ex (\<lambda>code. contains code (ie_msg err)) ['' 302 '', '' 301 '', '' 303 '', '' 307 '', '' 308 '']"

definition is_ws_redirect_err :: "ws_connect_error \<Rightarrow> bool" where
  "is_ws_redirect_err err =
     (case err of
        WsHandshake h \<Rightarrow> he_status_code h \<in> {301, 302, 303, 307, 308}
      | WsIo e \<Rightarrow> is_ws_redirect e
      | _ \<Rightarrow> False)"

definition map_read_err :: "io_error \<Rightarrow> ws_connect_error" where
  "map_read_err e = (if ie_kind e = TimedOut then WsTimeout else WsIo e)"

section \<open>The request\<close>

abbreviation CR :: char where "CR \<equiv> CHR 0x0D"
abbreviation LF :: char where "LF \<equiv> CHR 0x0A"
abbreviation CRLF :: string where "CRLF \<equiv> [CR, LF]"

definition bad_header :: "string \<times> string \<Rightarrow> bool" where
  "bad_header nv \<longleftrightarrow>
     list_ex (\<lambda>c. c = CR \<or> c = LF \<or> c = CHR '':'') (fst nv) \<or>
     list_ex (\<lambda>c. c = CR \<or> c = LF) (snd nv)"

fun push_headers :: "string \<Rightarrow> (string \<times> string) list \<Rightarrow> string option" where
  "push_headers req [] = Some req"
| "push_headers req (nv # nvs) =
     (if bad_header nv then None
      else push_headers (req @ fst nv @ '': '' @ snd nv @ CRLF) nvs)"

definition ws_request :: "string \<Rightarrow> string \<Rightarrow> string \<Rightarrow> (string \<times> string) list \<Rightarrow> string option" where
  "ws_request path host ws_key extra_headers =
     map_option (\<lambda>req. req @ CRLF)
       (push_headers
         (''GET '' @ path @ '' HTTP/1.1'' @ CRLF @
          ''Host: '' @ host @ CRLF @
          ''Upgrade: websocket'' @ CRLF @
          ''Connection: Upgrade'' @ CRLF @
          ''Sec-WebSocket-Key: '' @ ws_key @ CRLF @
          ''Sec-WebSocket-Version: 13'' @ CRLF @
          ''Sec-WebSocket-Protocol: binary'' @ CRLF)
         extra_headers)"

section \<open>The response\<close>

definition MAX_HTTP_LINE :: nat where "MAX_HTTP_LINE = 8 * 1024"
definition MAX_HTTP_HEADERS :: nat where "MAX_HTTP_HEADERS = 32 * 1024"

definition WS_GUID :: string where "WS_GUID = ''258EAFA5-E914-47DA-95CA-C5AB0DC85B11''"

text \<open>\<open>e\<close> is the error of the read after the last byte; a timeout has the kind \<open>TimedOut\<close>.\<close>

fun read_line :: "io_error \<Rightarrow> nat \<Rightarrow> bytes \<Rightarrow> bytes \<Rightarrow> io_error + (bytes \<times> bytes)" where
  "read_line e max_len buf [] = Inl e"
| "read_line e max_len buf (b # bs) =
     (let buf = buf @ [b]
      in if length buf > max_len then Inl (io_err InvalidData ''HTTP response line too long'')
         else if b = 0x0A then Inr (buf, bs)
         else read_line e max_len buf bs)"

definition add_header :: "string \<Rightarrow> string \<Rightarrow> (string \<rightharpoonup> string) \<Rightarrow> (string \<rightharpoonup> string)" where
  "add_header name value headers =
     (let k = to_ascii_lowercase (trim name)
      in case headers k of
           Some old \<Rightarrow> headers(k \<mapsto> old @ '','' @ trim value)
         | None \<Rightarrow> headers(k \<mapsto> trim value))"

lemma read_line_shorter: "read_line e n buf bs = Inr (l, r) \<Longrightarrow> length r < length bs"
  by (induction bs arbitrary: buf) (fastforce simp: Let_def split: if_splits)+

function read_headers ::
  "io_error \<Rightarrow> nat \<Rightarrow> (string \<rightharpoonup> string) \<Rightarrow> bytes \<Rightarrow>
   ws_connect_error + ((string \<rightharpoonup> string) \<times> bytes)" where
  "read_headers e headers_len headers bs =
     (case read_line e MAX_HTTP_LINE [] bs of
        Inl err \<Rightarrow> Inl (map_read_err err)
      | Inr (line, bs') \<Rightarrow>
          if headers_len + length line > MAX_HTTP_HEADERS
          then Inl (WsIo (io_err InvalidData ''WebSocket response headers too large''))
          else if line = [0x0D, 0x0A] \<or> line = [0x0A] then Inr (headers, bs')
          else (case split_once '':'' (trim_end (from_utf8_lossy line)) of
                  None \<Rightarrow> Inl (WsIo (io_err InvalidData ''malformed WebSocket response header''))
                | Some (name, value) \<Rightarrow>
                    read_headers e (headers_len + length line) (add_header name value headers) bs'))"
  by pat_completeness auto
termination
  by (relation "measure (\<lambda>(e, n, h, bs). length bs)") (auto dest: read_line_shorter)

declare read_headers.simps [simp del]

definition status_code_of :: "bytes \<Rightarrow> nat" where
  "status_code_of status_line =
     (case drop 1 (split_whitespace (from_utf8_lossy status_line)) of
        s # _ \<Rightarrow> (case parse_u16 s of Some n \<Rightarrow> n | None \<Rightarrow> 0)
      | [] \<Rightarrow> 0)"

text \<open>The status line, the headers and the bytes after the response head.\<close>

definition read_response ::
  "io_error \<Rightarrow> bytes \<Rightarrow> ws_connect_error + (bytes \<times> (string \<rightharpoonup> string) \<times> bytes)" where
  "read_response e bs =
     (case read_line e MAX_HTTP_LINE [] bs of
        Inl err \<Rightarrow> Inl (map_read_err err)
      | Inr (status_line, bs') \<Rightarrow>
          (case read_headers e (length status_line) Map.empty bs' of
             Inl err \<Rightarrow> Inl err
           | Inr (headers, rest) \<Rightarrow> Inr (status_line, headers, rest)))"

definition websocket_accept :: "(bytes \<Rightarrow> bytes) \<Rightarrow> (bytes \<Rightarrow> string) \<Rightarrow> string \<Rightarrow> string" where
  "websocket_accept sha1 b64 key = b64 (sha1 (as_bytes key @ as_bytes WS_GUID))"

definition upgrade_ok :: "(string \<rightharpoonup> string) \<Rightarrow> string \<Rightarrow> bool" where
  "upgrade_ok headers expected_accept \<longleftrightarrow>
     (case headers ''upgrade'' of Some v \<Rightarrow> eq_ignore_ascii_case v ''websocket'' | None \<Rightarrow> False) \<and>
     (case headers ''connection'' of
        Some v \<Rightarrow> list_ex (\<lambda>token. eq_ignore_ascii_case (trim token) ''upgrade'')
                    (split_on (\<lambda>c. c = CHR '','') v)
      | None \<Rightarrow> False) \<and>
     headers ''sec-websocket-accept'' = Some expected_accept"

section \<open>Connecting\<close>

datatype step = StepOk | StepErr io_error | StepTimeout

record ws_peer =
  wp_tcp :: "string \<Rightarrow> step"
  wp_server_name :: "string \<Rightarrow> io_error option"
  wp_tls :: "string \<Rightarrow> string \<Rightarrow> step"
  wp_write :: "string \<Rightarrow> step"
  wp_reply :: "string \<Rightarrow> bytes"
  wp_end :: io_error
  wp_sha1 :: "bytes \<Rightarrow> bytes"
  wp_base64 :: "bytes \<Rightarrow> string"

text \<open>The result: an error, or the bytes the peer sent after its response head.\<close>

definition connect_ws_inner ::
  "ws_peer \<Rightarrow> bytes \<Rightarrow> string \<Rightarrow> string \<Rightarrow> string option \<Rightarrow> string \<Rightarrow> (string \<times> string) list \<Rightarrow>
   ws_connect_error + bytes" where
  "connect_ws_inner p key target_ip host sni path extra_headers =
     (let addr = target_ip @ '':443''
      in case wp_tcp p addr of
           StepErr e \<Rightarrow> Inl (WsIo e)
         | StepTimeout \<Rightarrow> Inl WsTimeout
         | StepOk \<Rightarrow>
     (let tls_name = (case sni of Some s \<Rightarrow> s | None \<Rightarrow> host)
      in case wp_server_name p tls_name of
           Some e \<Rightarrow> Inl (WsIo e)
         | None \<Rightarrow>
     (case wp_tls p addr tls_name of
           StepErr e \<Rightarrow> Inl (WsTls e)
         | StepTimeout \<Rightarrow> Inl WsTimeout
         | StepOk \<Rightarrow>
     (let ws_key = wp_base64 p key
      in case ws_request path host ws_key extra_headers of
           None \<Rightarrow> Inl (WsIo (io_err InvalidInput ''invalid WebSocket header''))
         | Some req \<Rightarrow>
     (case wp_write p req of
           StepErr e \<Rightarrow> Inl (WsIo e)
         | StepTimeout \<Rightarrow> Inl WsTimeout
         | StepOk \<Rightarrow>
     (case read_response (wp_end p) (wp_reply p req) of
           Inl err \<Rightarrow> Inl err
         | Inr (status_line, headers, rest) \<Rightarrow>
             if status_code_of status_line \<noteq> 101
             then Inl (WsHandshake \<lparr>he_status_code = status_code_of status_line,
                    he_status_line = trim (from_utf8_lossy status_line), he_headers = headers\<rparr>)
             else if \<not> upgrade_ok headers (websocket_accept (wp_sha1 p) (wp_base64 p) ws_key)
             then Inl (WsIo (io_err InvalidData ''invalid WebSocket upgrade response''))
             else Inr rest))))))"

definition connect_ws_with_headers ::
  "ws_peer \<Rightarrow> bytes \<Rightarrow> string \<Rightarrow> string \<Rightarrow> string \<Rightarrow> (string \<times> string) list \<Rightarrow>
   ws_connect_error + bytes" where
  "connect_ws_with_headers p key target_ip domain path extra_headers =
     connect_ws_inner p key target_ip domain None path extra_headers"

definition connect_ws :: "ws_peer \<Rightarrow> bytes \<Rightarrow> string \<Rightarrow> string \<Rightarrow> string \<Rightarrow> io_error + bytes" where
  "connect_ws p key target_ip domain path =
     (case connect_ws_with_headers p key target_ip domain path [] of
        Inl err \<Rightarrow> Inl (into_io err)
      | Inr ws \<Rightarrow> Inr ws)"

definition connect_ws_fronted ::
  "ws_peer \<Rightarrow> bytes \<Rightarrow> string \<Rightarrow> string \<Rightarrow> string \<Rightarrow> string \<Rightarrow> ws_connect_error + bytes" where
  "connect_ws_fronted p key target_ip host sni path =
     connect_ws_inner p key target_ip host (Some sni) path []"

text \<open>\<open>token\<close> is the environment variable \<open>WRTG_CF_WORKER_TOKEN\<close>, empty when it is not set.\<close>

definition connect_cf_worker ::
  "ws_peer \<Rightarrow> bytes \<Rightarrow> string \<Rightarrow> string \<Rightarrow> string \<Rightarrow> ws_connect_error + bytes" where
  "connect_cf_worker p key token worker_domain path =
     connect_ws_with_headers p key worker_domain worker_domain path
       (if trim token = '''' then [] else [(''X-WRTG-Token'', trim token)])"

definition connect_cf_worker_ws ::
  "ws_peer \<Rightarrow> bytes \<Rightarrow> string \<Rightarrow> string \<Rightarrow> string \<Rightarrow> int \<Rightarrow> ws_connect_error + bytes" where
  "connect_cf_worker_ws p key token worker_domain dst_ip dc =
     connect_cf_worker p key token worker_domain
       (''/apiws?dst='' @ dst_ip @ ''&dc='' @ show_int dc)"

definition connect_cf_worker_tcp ::
  "ws_peer \<Rightarrow> bytes \<Rightarrow> string \<Rightarrow> string \<Rightarrow> string \<Rightarrow> nat \<Rightarrow> ws_connect_error + bytes" where
  "connect_cf_worker_tcp p key token worker_domain dst_ip dst_port =
     connect_cf_worker p key token worker_domain
       (''/apiws?dst='' @ dst_ip @ ''&dc=0&port='' @ show_nat dst_port)"

section \<open>Properties\<close>

lemma connect_ws_inner_Inr:
  assumes "connect_ws_inner p key ip host sni path extra = Inr rest"
  obtains req status_line headers where
    "ws_request path host (wp_base64 p key) extra = Some req"
    "read_response (wp_end p) (wp_reply p req) = Inr (status_line, headers, rest)"
    "status_code_of status_line = 101"
    "upgrade_ok headers (websocket_accept (wp_sha1 p) (wp_base64 p) (wp_base64 p key))"
  using assms
  by (auto simp: connect_ws_inner_def Let_def
      split: step.split_asm option.split_asm sum.split_asm if_split_asm prod.split_asm)

lemma push_headers_eq:
  "push_headers req extra = (if list_ex bad_header extra then None
     else Some (req @ concat (map (\<lambda>nv. fst nv @ '': '' @ snd nv @ CRLF) extra)))"
  by (induction extra arbitrary: req) auto

abbreviation no_newline :: "string \<Rightarrow> bool" where
  "no_newline s \<equiv> LF \<notin> set s"

text \<open>The lines of a text whose lines all end in CR LF.\<close>

lemma split_crlf:
  "no_newline l \<Longrightarrow> split_on (\<lambda>c. c = LF) (l @ CR # LF # t) = (l @ [CR]) # split_on (\<lambda>c. c = LF) t"
  using split_on_append [of "l @ [CR]" "\<lambda>c. c = LF" LF t] by auto

lemma split_crlf_all:
  "\<forall>l \<in> set ls. no_newline l \<Longrightarrow>
   split_on (\<lambda>c. c = LF) (concat (map (\<lambda>l. l @ CRLF) ls)) = map (\<lambda>l. l @ [CR]) ls @ [[]]"
  by (induction ls) (simp_all add: split_crlf)

definition request_lines :: "string \<Rightarrow> string \<Rightarrow> string \<Rightarrow> (string \<times> string) list \<Rightarrow> string list" where
  "request_lines path host ws_key extra =
     [''GET '' @ path @ '' HTTP/1.1'', ''Host: '' @ host, ''Upgrade: websocket'',
      ''Connection: Upgrade'', ''Sec-WebSocket-Key: '' @ ws_key, ''Sec-WebSocket-Version: 13'',
      ''Sec-WebSocket-Protocol: binary''] @ map (\<lambda>(n, v). n @ '': '' @ v) extra @ [[]]"

lemma ws_request_concat:
  assumes "ws_request path host ws_key extra = Some req"
  shows "req = concat (map (\<lambda>l. l @ CRLF) (request_lines path host ws_key extra))"
    and "\<forall>nv \<in> set extra. \<not> bad_header nv"
  using assms
  by (auto simp: ws_request_def push_headers_eq request_lines_def comp_def case_prod_unfold
      list_ex_iff split: if_splits)

section \<open>A conforming response\<close>

lemma read_line_text:
  "no_newline l \<Longrightarrow> length buf + length l + 2 \<le> n \<Longrightarrow>
   read_line e n buf (as_bytes (l @ CRLF) @ rest) = Inr (buf @ as_bytes (l @ CRLF), rest)"
proof (induction l arbitrary: buf)
  case Nil
  then show ?case by (simp add: as_bytes_def)
next
  case (Cons c l)
  have "(of_nat (ord c) :: byte) \<noteq> 10"
  proof
    assume "(of_nat (ord c) :: byte) = 10"
    then have "text_of (as_bytes [c]) = text_of [10]" by (simp add: as_bytes_def)
    then have "[c] = text_of [10]" by (simp only: text_of_as_bytes)
    then have "c = char_of (10 :: nat)" by (simp add: text_of_def)
    then have "c = LF" by (simp add: char_of_def bit_iff_odd)
    with Cons.prems show False by simp
  qed
  with Cons.IH [of "buf @ [of_nat (ord c)]"] Cons.prems show ?case
    by (simp add: as_bytes_def)
qed

lemma from_utf8_lossy_ascii:
  assumes "\<forall>c \<in> set l. ord c < 128"
  shows "from_utf8_lossy (as_bytes l) = l"
proof -
  have "\<forall>b \<in> set (as_bytes l). b < 0x80"
    using assms by (auto simp: as_bytes_def word_less_nat_alt unat_of_nat)
  then show ?thesis by (simp add: from_utf8_lossy_def utf8_lossy_ascii)
qed

lemma trim_end_crlf:
  assumes "l \<noteq> []" and "is_graphic (last l)"
  shows "trim_end (l @ CRLF) = l"
proof -
  have w: "ws_tail_len (x @ [LF]) = 1" "ws_tail_len (x @ [CR]) = 1" for x
    by (simp_all add: ws_tail_len_def ws_len_def)
  have "ws_tail_len (butlast l @ [last l]) = 0" by (rule ws_tail_graphic [OF assms(2)])
  then have "trim_end l = l" using assms(1) by (simp add: trim_end.simps [of l])
  moreover have "trim_end ((l @ [CR]) @ [LF]) = trim_end (l @ [CR])"
    by (subst trim_end.simps) (simp add: w del: append_assoc)
  moreover have "trim_end (l @ [CR]) = trim_end l"
    by (subst trim_end.simps) (simp add: w)
  ultimately show ?thesis by simp
qed

lemma header_step:
  assumes "no_newline l" and "\<forall>c \<in> set l. ord c < 128" and "l \<noteq> []" and "is_graphic (last l)"
    and "length l + 2 \<le> MAX_HTTP_LINE" and "n + length l + 2 \<le> MAX_HTTP_HEADERS"
    and "split_once '':'' l = Some (name, value)"
  shows "read_headers e n hs (as_bytes (l @ CRLF) @ rest) =
    read_headers e (n + length l + 2) (add_header name value hs) rest"
proof -
  have "from_utf8_lossy (as_bytes (l @ CRLF)) = l @ CRLF"
    using assms(2) by (intro from_utf8_lossy_ascii) auto
  moreover have "as_bytes (l @ CRLF) \<noteq> [0x0D, 0x0A]" "as_bytes (l @ CRLF) \<noteq> [0x0A]"
    using assms(3) by (simp_all add: as_bytes_def)
  ultimately show ?thesis
    using read_line_text [OF assms(1), of "[]" MAX_HTTP_LINE e rest] assms(5,6,7)
      trim_end_crlf [OF assms(3,4)]
    by (subst read_headers.simps) (simp del: as_bytes_append)
qed
definition upgrade_head :: "string \<Rightarrow> string" where
  "upgrade_head acc =
     ''HTTP/1.1 101 Switching'' @ CRLF @ ''Upgrade: websocket'' @ CRLF @
     ''Connection: Upgrade'' @ CRLF @ ''Sec-WebSocket-Accept: '' @ acc @ CRLF @ CRLF"

lemma status_101: "status_code_of (as_bytes (''HTTP/1.1 101 Switching'' @ CRLF)) = 101"
proof -
  have u: "from_utf8_lossy (as_bytes (''HTTP/1.1 101 Switching'' @ CRLF)) = ''HTTP/1.1 101 Switching'' @ CRLF"
    by (rule from_utf8_lossy_ascii) simp
  have "split_whitespace (''HTTP/1.1 101 Switching'' @ CRLF) = [''HTTP/1.1'', ''101'', ''Switching'']"
    by (simp add: split_whitespace_def words_from.simps ws_len_def)
  moreover have "parse_u16 ''101'' = Some 101"
    by (simp add: parse_unsigned_def all_digits_def is_ascii_digit_def digits_value_def)
  ultimately show ?thesis by (simp add: status_code_of_def u [simplified])
qed

lemma graphic_ascii: "is_graphic c \<Longrightarrow> c \<noteq> LF \<and> ord c < 128 \<and> c \<noteq> CR"
  by (auto simp: is_graphic_def)

lemma trim_space: 
  assumes "\<forall>c \<in> set v. is_graphic c" 
  shows "trim ('' '' @ v) = v"
proof -
  have "trim_start ('' '' @ v) = trim_start v"
    by (subst trim_start.simps) (simp add: ws_len_def)
  then have "trim ('' '' @ v) = trim v" by (simp add: trim_def)
  then show ?thesis using trim_all_graphic [OF assms] by simp
qed

lemma header_line:
  assumes "\<forall>c \<in> set name. is_graphic c \<and> c \<noteq> CHR '':''" and "\<forall>c \<in> set v. is_graphic c" "v \<noteq> []" "name \<noteq> []"
    and "length name + length v + 4 \<le> MAX_HTTP_LINE" and "n + length name + length v + 4 \<le> MAX_HTTP_HEADERS"
    and "to_ascii_lowercase name = k" and "hs k = None"
  shows "read_headers e n hs (as_bytes (name @ '': '' @ v @ CRLF) @ rest) =
    read_headers e (n + length name + length v + 4) (hs(k \<mapsto> v)) rest"
proof -
  have f: "find_sub '':'' (name @ '':'' @ t) = Some (length name)" for t
    using assms(1) by (induction name) auto
  have sp: "split_once '':'' (name @ '': '' @ v) = Some (name, '' '' @ v)"
    using f [of "'' '' @ v"] by (simp add: split_once_def)
  have add: "add_header name ('' '' @ v) hs = hs(k \<mapsto> v)"
    using trim_all_graphic [of name] trim_space [OF assms(2)] assms(1,7,8)
    by (simp add: add_header_def)
  have "no_newline (name @ '': '' @ v)" "\<forall>c\<in>set (name @ '': '' @ v). ord c < 128"
    using assms(1,2) graphic_ascii by auto
  from header_step [OF this, of n name "'' '' @ v" e hs rest] show ?thesis
    using assms(2-6) sp add by (simp add: numeral_eq_Suc ac_simps)
qed

lemma plain_upgrade_ok:
  "upgrade_ok [''upgrade'' \<mapsto> ''websocket'', ''connection'' \<mapsto> ''Upgrade'', ''sec-websocket-accept'' \<mapsto> acc] acc"
proof -
  have "eq_ignore_ascii_case ''websocket'' ''websocket''" by (simp add: eq_ignore_ascii_case_def)
  moreover have "split_on (\<lambda>c. c = CHR '','') ''Upgrade'' = [''Upgrade'']" by simp
  moreover have "trim ''Upgrade'' = ''Upgrade''"
    by (rule trim_all_graphic) (simp add: is_graphic_def)
  moreover have "eq_ignore_ascii_case ''Upgrade'' ''upgrade''" by code_simp
  ultimately show ?thesis by (simp add: upgrade_ok_def)
qed

lemma read_upgrade_head:
  assumes "\<forall>c \<in> set acc. is_graphic c" and "acc \<noteq> []" and "length acc \<le> 8000"
  shows "\<exists>h. read_response e (as_bytes (upgrade_head acc) @ rest) =
    Inr (as_bytes (''HTTP/1.1 101 Switching'' @ CRLF), h, rest) \<and> upgrade_ok h acc"
proof -
  define h :: "string \<rightharpoonup> string" where "h = [''upgrade'' \<mapsto> ''websocket'', ''connection'' \<mapsto> ''Upgrade'',
    ''sec-websocket-accept'' \<mapsto> acc]"
  let ?r3 = "as_bytes CRLF @ rest"
  let ?r2 = "as_bytes (''Sec-WebSocket-Accept'' @ '': '' @ acc @ CRLF) @ ?r3"
  let ?r1 = "as_bytes (''Connection'' @ '': '' @ ''Upgrade'' @ CRLF) @ ?r2"
  let ?r0 = "as_bytes (''Upgrade'' @ '': '' @ ''websocket'' @ CRLF) @ ?r1"
  have lc: "to_ascii_lowercase ''Upgrade'' = ''upgrade''"
    "to_ascii_lowercase ''Connection'' = ''connection''"
    "to_ascii_lowercase ''Sec-WebSocket-Accept'' = ''sec-websocket-accept''"
    by code_simp+
  have st: "read_line e MAX_HTTP_LINE [] (as_bytes (''HTTP/1.1 101 Switching'' @ CRLF) @ ?r0) =
      Inr (as_bytes (''HTTP/1.1 101 Switching'' @ CRLF), ?r0)"
    using read_line_text [of "''HTTP/1.1 101 Switching''" "[]" MAX_HTTP_LINE e ?r0]
    by (simp add: MAX_HTTP_LINE_def)
  have a: "read_headers e 24 Map.empty ?r0 = read_headers e 44 [''upgrade'' \<mapsto> ''websocket''] ?r1"
    by (subst header_line [where k = "''upgrade''"])
      (simp_all add: lc is_graphic_def MAX_HTTP_LINE_def MAX_HTTP_HEADERS_def)
  have b: "read_headers e 44 [''upgrade'' \<mapsto> ''websocket''] ?r1 =
      read_headers e 65 [''upgrade'' \<mapsto> ''websocket'', ''connection'' \<mapsto> ''Upgrade''] ?r2"
    by (subst header_line [where k = "''connection''"])
      (simp_all add: lc is_graphic_def MAX_HTTP_LINE_def MAX_HTTP_HEADERS_def)
  have c: "read_headers e 65 [''upgrade'' \<mapsto> ''websocket'', ''connection'' \<mapsto> ''Upgrade''] ?r2 =
      read_headers e (89 + length acc) h ?r3"
    by (subst header_line [where k = "''sec-websocket-accept''"])
      (use assms in \<open>simp_all add: lc is_graphic_def MAX_HTTP_LINE_def MAX_HTTP_HEADERS_def h_def\<close>)
  have d: "read_headers e (89 + length acc) h ?r3 = Inr (h, rest)"
    using read_line_text [of "[]" "[]" MAX_HTTP_LINE e rest] assms(3)
    by (subst read_headers.simps) (simp add: MAX_HTTP_LINE_def MAX_HTTP_HEADERS_def as_bytes_def)
  have len: "length (as_bytes (''HTTP/1.1 101 Switching'' @ CRLF)) = 24" by simp
  have whole: "as_bytes (upgrade_head acc) @ rest = as_bytes (''HTTP/1.1 101 Switching'' @ CRLF) @ ?r0"
    by (simp add: upgrade_head_def as_bytes_def)
  have "read_response e (as_bytes (upgrade_head acc) @ rest) =
      Inr (as_bytes (''HTTP/1.1 101 Switching'' @ CRLF), h, rest)"
    unfolding read_response_def whole st by (simp only: len a b c d sum.case prod.case)
  then show ?thesis using plain_upgrade_ok [of acc] unfolding h_def by blast
qed

section \<open>The theorems\<close>

text \<open>
  No header can be smuggled into the upgrade request: whatever the extra headers (the Worker
  token comes from the environment), if a request is sent at all, its lines are exactly the seven
  fixed ones, one per extra header, and the empty line, given that the path, the host and the key
  hold no line feed.
\<close>

lemma ws_request_not_injectable:
  assumes "ws_request path host ws_key extra = Some req"
    and "no_newline path" and "no_newline host" and "no_newline ws_key"
  shows "split_on (\<lambda>c. c = LF) req =
    map (\<lambda>l. l @ [CR]) (request_lines path host ws_key extra) @ [[]]"
proof -
  have extra: "\<forall>l \<in> set (map (\<lambda>(n, v). n @ '': '' @ v) extra). no_newline l"
  proof
    fix l assume "l \<in> set (map (\<lambda>(n, v). n @ '': '' @ v) extra)"
    then obtain nv where nv: "nv \<in> set extra" "l = fst nv @ '': '' @ snd nv"
      unfolding set_map case_prod_unfold by (elim imageE)
    then have "no_newline (fst nv)" "no_newline (snd nv)"
      using ws_request_concat(2) [OF assms(1)] unfolding bad_header_def list_ex_iff by blast+
    with nv(2) show "no_newline l" by simp
  qed
  have fixed: "no_newline (''GET '' @ path @ '' HTTP/1.1'')" "no_newline (''Host: '' @ host)"
    "no_newline (''Sec-WebSocket-Key: '' @ ws_key)" "no_newline ''Upgrade: websocket''"
    "no_newline ''Connection: Upgrade''" "no_newline ''Sec-WebSocket-Version: 13''"
    "no_newline ''Sec-WebSocket-Protocol: binary''" "no_newline []"
    using assms(2-4) by simp_all
  have "\<forall>l \<in> set (request_lines path host ws_key extra). no_newline l"
    unfolding request_lines_def using extra fixed by (simp only: set_append list.set ball_Un ball_simps) blast
  from split_crlf_all [OF this] ws_request_concat(1) [OF assms(1)] show ?thesis by simp
qed

lemma ws_request_not_injectable_witness:
  "\<exists>req. ws_request ''/apiws'' ''h'' ''k'' [(''X-WRTG-Token'', ''a b'')] = Some req \<and>
     split_on (\<lambda>c. c = LF) req =
       map (\<lambda>l. l @ [CR]) (request_lines ''/apiws'' ''h'' ''k'' [(''X-WRTG-Token'', ''a b'')]) @ [[]]"
proof -
  obtain req where req: "ws_request ''/apiws'' ''h'' ''k'' [(''X-WRTG-Token'', ''a b'')] = Some req"
    by (simp add: ws_request_def bad_header_def)
  from ws_request_not_injectable [OF req] req show ?thesis by simp
qed


definition sample_peer :: ws_peer where
  "sample_peer = \<lparr>wp_tcp = (\<lambda>_. StepOk), wp_server_name = (\<lambda>_. None), wp_tls = (\<lambda>_ _. StepOk),
     wp_write = (\<lambda>_. StepOk), wp_reply = (\<lambda>_. as_bytes (upgrade_head ''abc'') @ [1, 2]),
     wp_end = io_err UnexpectedEof ''early eof'', wp_sha1 = (\<lambda>_. []), wp_base64 = (\<lambda>_. ''abc'')\<rparr>"

lemma conforming_upgrade:
  assumes "wp_tcp p (ip @ '':443'') = StepOk"
    and "wp_server_name p (case sni of Some s \<Rightarrow> s | None \<Rightarrow> host) = None"
    and "wp_tls p (ip @ '':443'') (case sni of Some s \<Rightarrow> s | None \<Rightarrow> host) = StepOk"
    and "ws_request path host (wp_base64 p key) extra = Some req" and "wp_write p req = StepOk"
    and "acc = websocket_accept (wp_sha1 p) (wp_base64 p) (wp_base64 p key)"
    and "\<forall>c \<in> set acc. is_graphic c" and "acc \<noteq> []" and "length acc \<le> 8000"
    and "wp_reply p req = as_bytes (upgrade_head acc) @ rest"
  shows "connect_ws_inner p key ip host sni path extra = Inr rest"
proof -
  obtain h where "read_response (wp_end p) (as_bytes (upgrade_head acc) @ rest) =
      Inr (as_bytes (''HTTP/1.1 101 Switching'' @ CRLF), h, rest)" "upgrade_ok h acc"
    using read_upgrade_head [OF assms(7-9)] by blast
  with assms(1-6,10) status_101 show ?thesis
    by (simp add: connect_ws_inner_def del: as_bytes_append)
qed

lemma sample_peer_connects:
  "connect_ws_inner sample_peer [] ''1.2.3.4'' ''h'' None ''/'' [] = Inr [1, 2]"
proof -
  obtain req where "ws_request ''/'' ''h'' (wp_base64 sample_peer []) [] = Some req"
    by (simp add: ws_request_def)
  then show ?thesis
    by (rule conforming_upgrade [rotated 3])
      (simp_all add: sample_peer_def websocket_accept_def is_graphic_def)
qed


text \<open>
  A standard server is accepted: when the dial, the TLS handshake and the write succeed and
  the peer answers with the usual 101 response, its accept header being the hash of the key, the
  connection is open and every byte after the response head is still to be read.
\<close>

lemma conforming_upgrade_accepted:
  assumes "wp_tcp p (ip @ '':443'') = StepOk"
    and "wp_server_name p (case sni of Some s \<Rightarrow> s | None \<Rightarrow> host) = None"
    and "wp_tls p (ip @ '':443'') (case sni of Some s \<Rightarrow> s | None \<Rightarrow> host) = StepOk"
    and "ws_request path host (wp_base64 p key) extra = Some req" and "wp_write p req = StepOk"
    and "acc = websocket_accept (wp_sha1 p) (wp_base64 p) (wp_base64 p key)"
    and "\<forall>c \<in> set acc. is_graphic c" and "acc \<noteq> []" and "length acc \<le> 8000"
    and "wp_reply p req = as_bytes (upgrade_head acc) @ rest"
  shows "connect_ws_inner p key ip host sni path extra = Inr rest"
  using assms by (rule conforming_upgrade)

lemma conforming_upgrade_accepted_witness:
  "connect_ws_inner sample_peer [] ''1.2.3.4'' ''h'' (Some ''front'') ''/'' [(''a'', ''b'')] = Inr [1, 2]"
proof -
  obtain req where "ws_request ''/'' ''h'' (wp_base64 sample_peer []) [(''a'', ''b'')] = Some req"
    by (simp add: ws_request_def bad_header_def)
  then show ?thesis
    by (rule conforming_upgrade_accepted [rotated 3])
      (simp_all add: sample_peer_def websocket_accept_def is_graphic_def)
qed

end
