(* ===== verification/Ttl_Map.thy ===== *)
theory Ttl_Map
  imports Rust_Prelude
begin

text \<open>
  \<open>ttl_map.rs\<close>: the time-keyed set behind the cooldown and blacklist maps. The \<open>HashMap\<close> from
  keys to expiry instants is a map; an operation takes the reading of the clock it makes.
  \<open>Instant::now() + ttl\<close> is exact: instants and durations are unbounded here, while the source
  panics for a TTL beyond \<open>2^63\<close> seconds.

  The interface \<open>cooldown_set\<close> is what the clients rely on: marking does not prolong an active
  entry, a probe changes nothing that can be observed, an entry only ever expires.
\<close>

section \<open>The interface\<close>

locale cooldown_set =
  fixes active :: "'s \<Rightarrow> nat \<Rightarrow> 'k \<Rightarrow> bool"
    and mark_new :: "'s \<Rightarrow> nat \<Rightarrow> 'k \<Rightarrow> nat \<Rightarrow> 's"
    and probe :: "'s \<Rightarrow> nat \<Rightarrow> 'k \<Rightarrow> 's"
    and drop_key :: "'s \<Rightarrow> 'k \<Rightarrow> 's"
  assumes mark_active: "active s t k \<Longrightarrow> mark_new s t k d = s"
    and mark_inactive: "\<not> active s t k \<Longrightarrow>
      active (mark_new s t k d) u k' = (if k' = k then u < t + d else active s u k')"
    and probe_active: "t \<le> u \<Longrightarrow> active (probe s t k) u k' = active s u k'"
    and drop_active: "active (drop_key s k) u k' = (k' \<noteq> k \<and> active s u k')"
    and active_until: "active s u k \<Longrightarrow> t \<le> u \<Longrightarrow> active s t k"
begin

text \<open>The events a client generates, each with its instant: a failure of a key, or a probe.\<close>

fun event :: "'s \<Rightarrow> nat \<times> 'k \<times> nat option \<Rightarrow> 's" where
  "event s (t, k, Some d) = mark_new s t k d"
| "event s (t, k, None) = probe s t k"

text \<open>While an entry is active, events after it started change nothing about it.\<close>

lemma event_other:
  assumes "active s t k" and "e = (t', k', od)" and "t' \<le> u" and "t' \<le> t"
  shows "active (event s e) u k = active s u k"
proof (cases od)
  case None
  with assms show ?thesis by (simp add: probe_active)
next
  case (Some d)
  show ?thesis
  proof (cases "active s t' k'")
    case True
    with Some assms(2) show ?thesis by (simp add: mark_active)
  next
    case False
    have "k' \<noteq> k" using False active_until [OF assms(1,4)] by auto
    with False Some assms(2) show ?thesis by (simp add: mark_inactive)
  qed
qed

text \<open>
  Failures never push an expiry forward: whatever happens, in order, during the cooldown,
  activity afterwards is what the first mark made it.
\<close>

lemma cooldown_not_prolonged:
  assumes "\<And>u. active s u k = (u < e)"
    and "\<forall>ev \<in> set evs. fst ev < e" and "sorted (map fst evs)"
    and "\<forall>ev \<in> set evs. fst ev \<le> u"
  shows "active (fold (\<lambda>ev s. event s ev) evs s) u k = (u < e)"
proof -
  have "\<forall>s. (\<forall>u \<ge> t0. active s u k = (u < e)) \<longrightarrow> (\<forall>ev \<in> set evs. t0 \<le> fst ev) \<longrightarrow>
      active (fold (\<lambda>ev s. event s ev) evs s) (max t0 u) k = (max t0 u < e)" for t0
    using assms(2-4)
  proof (induction evs arbitrary: t0)
    case (Cons ev evs)
    obtain t k' od where ev: "ev = (t, k', od)" by (metis surj_pair)
    have t: "t < e" "t \<le> u" and later: "\<forall>ev \<in> set evs. t \<le> fst ev"
      using Cons.prems ev by auto
    show ?case
    proof (intro allI impI)
      fix s assume s: "\<forall>u \<ge> t0. active s u k = (u < e)"
        and t0: "\<forall>ev \<in> set (ev # evs). t0 \<le> fst ev"
      then have act: "active s t k" using ev t by simp
      have "\<forall>u' \<ge> t. active (event s ev) u' k = (u' < e)"
        using event_other [OF act ev] s t0 ev by auto
      with Cons.IH [of t] Cons.prems later
      have "active (fold (\<lambda>ev s. event s ev) evs (event s ev)) (max t u) k = (max t u < e)"
        by auto
      moreover have "max t u = max t0 u" using t t0 ev by auto
      ultimately show "active (fold (\<lambda>ev s. event s ev) (ev # evs) s) (max t0 u) k = (max t0 u < e)"
        by simp
    qed
  qed simp
  from this [of 0] assms(1) show ?thesis by simp
qed

text \<open>Marking an idle key at \<open>t\<close> keeps it for exactly its TTL, whatever fails meanwhile.\<close>

lemma exact_cooldown:
  assumes "\<not> active s t k" and "\<forall>ev \<in> set evs. t \<le> fst ev \<and> fst ev < t + d \<and> fst ev \<le> u"
    and "sorted (map fst evs)"
  shows "active (fold (\<lambda>ev s. event s ev) evs (mark_new s t k d)) u k = (u < t + d)"
  using assms by (intro cooldown_not_prolonged) (auto simp: mark_inactive)

end

section \<open>The implementation\<close>

type_synonym 'k ttl_map = "'k \<rightharpoonup> nat"

definition ttl_new :: "'k ttl_map" where
  "ttl_new = Map.empty"

definition ttl_mark :: "'k ttl_map \<Rightarrow> nat \<Rightarrow> 'k \<Rightarrow> nat \<Rightarrow> 'k ttl_map" where
  "ttl_mark m now key ttl = m(key \<mapsto> now + ttl)"

definition ttl_mark_if_absent :: "'k ttl_map \<Rightarrow> nat \<Rightarrow> 'k \<Rightarrow> nat \<Rightarrow> bool \<times> 'k ttl_map" where
  "ttl_mark_if_absent m now key ttl =
     (case m key of
        Some expiry \<Rightarrow>
          if now < expiry then (False, m) else (True, (m(key := None))(key \<mapsto> now + ttl))
      | None \<Rightarrow> (True, m(key \<mapsto> now + ttl)))"

definition ttl_is_active :: "'k ttl_map \<Rightarrow> nat \<Rightarrow> 'k \<Rightarrow> bool \<times> 'k ttl_map" where
  "ttl_is_active m now key =
     (case m key of
        Some expiry \<Rightarrow> if now < expiry then (True, m) else (False, m(key := None))
      | None \<Rightarrow> (False, m))"

definition ttl_clear :: "'k ttl_map \<Rightarrow> 'k \<Rightarrow> bool \<times> 'k ttl_map" where
  "ttl_clear m key = (m key \<noteq> None, m(key := None))"

definition ttl_clear_all :: "'k ttl_map \<Rightarrow> 'k ttl_map" where
  "ttl_clear_all m = Map.empty"

abbreviation ttl_active :: "'k ttl_map \<Rightarrow> nat \<Rightarrow> 'k \<Rightarrow> bool" where
  "ttl_active m now key \<equiv> fst (ttl_is_active m now key)"

lemma ttl_active_iff: "ttl_active m now key \<longleftrightarrow> (\<exists>e. m key = Some e \<and> now < e)"
  by (auto simp: ttl_is_active_def split: option.splits)

lemma ttl_mark_active [simp]:
  "ttl_active (ttl_mark m now key ttl) u k \<longleftrightarrow> (if k = key then u < now + ttl else ttl_active m u k)"
  by (auto simp: ttl_active_iff ttl_mark_def)

lemma ttl_mark_if_absent_fst: "fst (ttl_mark_if_absent m now key ttl) \<longleftrightarrow> \<not> ttl_active m now key"
  by (auto simp: ttl_mark_if_absent_def ttl_active_iff split: option.splits)

lemma ttl_clear_active [simp]:
  "ttl_active (snd (ttl_clear m key)) u k \<longleftrightarrow> k \<noteq> key \<and> ttl_active m u k"
  by (auto simp: ttl_active_iff ttl_clear_def)

lemma ttl_clear_all_active [simp]: "\<not> ttl_active (ttl_clear_all m) u k"
  by (simp add: ttl_active_iff ttl_clear_all_def)

interpretation ttl: cooldown_set ttl_active "\<lambda>m t k d. snd (ttl_mark_if_absent m t k d)"
  "\<lambda>m t k. snd (ttl_is_active m t k)" "\<lambda>m k. snd (ttl_clear m k)"
proof unfold_locales
  fix m :: "'k ttl_map" and t u d :: nat and k k' :: 'k
  show "ttl_active m t k \<Longrightarrow> snd (ttl_mark_if_absent m t k d) = m"
    by (auto simp: ttl_active_iff ttl_mark_if_absent_def)
  show "\<not> ttl_active m t k \<Longrightarrow> ttl_active (snd (ttl_mark_if_absent m t k d)) u k' =
      (if k' = k then u < t + d else ttl_active m u k')"
    by (auto simp: ttl_active_iff ttl_mark_if_absent_def split: option.splits)
  show "t \<le> u \<Longrightarrow> ttl_active (snd (ttl_is_active m t k)) u k' = ttl_active m u k'"
    by (auto simp: ttl_active_iff ttl_is_active_def split: option.splits)
  show "ttl_active (snd (ttl_clear m k)) u k' = (k' \<noteq> k \<and> ttl_active m u k')"
    by simp
  show "ttl_active m u k \<Longrightarrow> t \<le> u \<Longrightarrow> ttl_active m t k"
    by (auto simp: ttl_active_iff)
qed

text \<open>An access removes an entry it finds expired, and nothing else.\<close>

lemma ttl_is_active_prunes:
  "snd (ttl_is_active m now key) = (if ttl_active m now key then m else m(key := None))"
  by (auto simp: ttl_is_active_def split: option.splits)

end
