(* ===== verification/Skip_State.thy ===== *)
theory Skip_State
  imports Ttl_Map Routing Ws
begin

text \<open>
  The direct-WebSocket skip state: \<open>ip_fail.rs\<close>, \<open>ws_blacklist.rs\<close>, the cooldown and the dial
  loop of \<open>fronting.rs\<close>, \<open>note_connect_success\<close> of \<open>ws_pool.rs\<close> and \<open>should_skip_ws\<close> of
  \<open>bridge.rs\<close>. The four static \<open>TtlMap\<close>s are the record \<open>skip_state\<close>; the durations that the
  source reads once from the environment are the record \<open>skip_config\<close>, computed from the
  values of the variables by \<open>skip_config_of\<close>. Durations are nanoseconds.
\<close>

section \<open>Configuration\<close>

record skip_config =
  sc_ip_cooldown :: nat
  sc_dc_cooldown :: nat
  sc_ws_timeout :: nat
  sc_ws_timeout_fast :: nat
  sc_blacklist_ttl :: nat
  sc_fronting_cooldown :: nat
  sc_fronting_sni :: "string option"

text \<open>\<open>env::var(..).ok().and_then(|s| s.parse().ok()).unwrap_or(default)\<close>, as a \<open>u64\<close>.\<close>

definition env_u64 :: "string option \<Rightarrow> nat \<Rightarrow> nat" where
  "env_u64 v d = (case v of Some s \<Rightarrow> (case parse_u64 s of Some n \<Rightarrow> n | None \<Rightarrow> d) | None \<Rightarrow> d)"

definition secs :: "nat \<Rightarrow> nat" where
  "secs n = n * NANOS"

definition ip_cooldown :: "(string \<Rightarrow> string option) \<Rightarrow> nat" where
  "ip_cooldown env = secs (env_u64 (env ''WRTG_IP_FAIL_COOLDOWN_SEC'') 3600)"

definition dc_fail_cooldown :: "(string \<Rightarrow> string option) \<Rightarrow> nat" where
  "dc_fail_cooldown env = secs (env_u64 (env ''WRTG_DC_FAIL_COOLDOWN_SEC'') 60)"

definition ws_timeout_normal :: "(string \<Rightarrow> string option) \<Rightarrow> nat" where
  "ws_timeout_normal env = secs (max (env_u64 (env ''WRTG_WS_FAIL_TIMEOUT_SEC'') 5) 1)"

definition ws_timeout_fast :: "(string \<Rightarrow> string option) \<Rightarrow> nat" where
  "ws_timeout_fast env = secs (max (env_u64 (env ''WRTG_WS_FAIL_TIMEOUT_FAST_SEC'') 2) 1)"

definition blacklist_ttl :: "(string \<Rightarrow> string option) \<Rightarrow> nat" where
  "blacklist_ttl env = secs (env_u64 (env ''WRTG_WS_BLACKLIST_TTL_SEC'') (45 * 60))"

definition fronting_cooldown :: "(string \<Rightarrow> string option) \<Rightarrow> nat" where
  "fronting_cooldown env = secs (env_u64 (env ''WRTG_FRONTING_COOLDOWN_SEC'') 1800)"

definition fronting_sni :: "(string \<Rightarrow> string option) \<Rightarrow> string option" where
  "fronting_sni env =
     (case env ''WRTG_FRONTING_SNI'' of
        Some s \<Rightarrow> (let t = trim_matches CR (trim s) in if t = '''' then None else Some t)
      | None \<Rightarrow> None)"

definition skip_config_of :: "(string \<Rightarrow> string option) \<Rightarrow> skip_config" where
  "skip_config_of env =
     \<lparr>sc_ip_cooldown = ip_cooldown env, sc_dc_cooldown = dc_fail_cooldown env,
      sc_ws_timeout = ws_timeout_normal env, sc_ws_timeout_fast = ws_timeout_fast env,
      sc_blacklist_ttl = blacklist_ttl env, sc_fronting_cooldown = fronting_cooldown env,
      sc_fronting_sni = fronting_sni env\<rparr>"

section \<open>State and operations\<close>

record skip_state =
  sk_ip_fail :: "(string \<times> int) ttl_map"
  sk_dc_fail :: "(int \<times> bool) ttl_map"
  sk_blacklist :: "(int \<times> bool) ttl_map"
  sk_fronting_fail :: "(string \<times> int) ttl_map"

definition init_skip :: skip_state where
  "init_skip = \<lparr>sk_ip_fail = ttl_new, sk_dc_fail = ttl_new, sk_blacklist = ttl_new,
     sk_fronting_fail = ttl_new\<rparr>"

definition mark_ip_failed :: "skip_config \<Rightarrow> nat \<Rightarrow> string \<Rightarrow> int \<Rightarrow> skip_state \<Rightarrow> skip_state" where
  "mark_ip_failed c now ip dc s =
     (if ip = '''' then s
      else s\<lparr>sk_ip_fail := snd (ttl_mark_if_absent (sk_ip_fail s) now (ip, dc) (sc_ip_cooldown c))\<rparr>)"

definition clear_ip_fail :: "string \<Rightarrow> int \<Rightarrow> skip_state \<Rightarrow> skip_state" where
  "clear_ip_fail ip dc s =
     (if ip = '''' then s else s\<lparr>sk_ip_fail := snd (ttl_clear (sk_ip_fail s) (ip, dc))\<rparr>)"

definition should_skip_direct_ws :: "nat \<Rightarrow> string \<Rightarrow> int \<Rightarrow> skip_state \<Rightarrow> bool \<times> skip_state" where
  "should_skip_direct_ws now ip dc s =
     (if ip = '''' then (False, s)
      else case ttl_is_active (sk_ip_fail s) now (ip, dc) of (b, m) \<Rightarrow> (b, s\<lparr>sk_ip_fail := m\<rparr>))"

definition ws_connect_timeout :: "skip_config \<Rightarrow> nat \<Rightarrow> int \<Rightarrow> bool \<Rightarrow> skip_state \<Rightarrow> nat \<times> skip_state" where
  "ws_connect_timeout c now dc is_media s =
     (case ttl_is_active (sk_dc_fail s) now (dc, is_media) of
        (b, m) \<Rightarrow> (if b then sc_ws_timeout_fast c else sc_ws_timeout c, s\<lparr>sk_dc_fail := m\<rparr>))"

definition mark_dc_failed :: "skip_config \<Rightarrow> nat \<Rightarrow> int \<Rightarrow> bool \<Rightarrow> skip_state \<Rightarrow> skip_state" where
  "mark_dc_failed c now dc is_media s =
     s\<lparr>sk_dc_fail := snd (ttl_mark_if_absent (sk_dc_fail s) now (dc, is_media) (sc_dc_cooldown c))\<rparr>"

definition clear_dc_fail :: "int \<Rightarrow> bool \<Rightarrow> skip_state \<Rightarrow> skip_state" where
  "clear_dc_fail dc is_media s = s\<lparr>sk_dc_fail := snd (ttl_clear (sk_dc_fail s) (dc, is_media))\<rparr>"

definition ws_blacklisted :: "nat \<Rightarrow> int \<Rightarrow> bool \<Rightarrow> skip_state \<Rightarrow> bool \<times> skip_state" where
  "ws_blacklisted now dc is_media s =
     (case ttl_is_active (sk_blacklist s) now (dc, is_media) of (b, m) \<Rightarrow> (b, s\<lparr>sk_blacklist := m\<rparr>))"

definition clear_ws_blacklisted :: "int \<Rightarrow> bool \<Rightarrow> skip_state \<Rightarrow> skip_state" where
  "clear_ws_blacklisted dc is_media s =
     s\<lparr>sk_blacklist := snd (ttl_clear (sk_blacklist s) (dc, is_media))\<rparr>"

definition mark_ws_blacklisted :: "skip_config \<Rightarrow> nat \<Rightarrow> int \<Rightarrow> bool \<Rightarrow> skip_state \<Rightarrow> skip_state" where
  "mark_ws_blacklisted c now dc is_media s =
     s\<lparr>sk_blacklist :=
         snd (ttl_mark_if_absent (sk_blacklist s) now (dc, is_media) (sc_blacklist_ttl c))\<rparr>"

definition clear_ws_skip_state :: "string \<Rightarrow> int \<Rightarrow> bool \<Rightarrow> skip_state \<Rightarrow> skip_state" where
  "clear_ws_skip_state ip dc is_media s =
     clear_ws_blacklisted dc is_media (clear_dc_fail dc is_media (clear_ip_fail ip dc s))"

definition ip_fail_reset_all :: "skip_state \<Rightarrow> skip_state" where
  "ip_fail_reset_all s =
     s\<lparr>sk_ip_fail := ttl_clear_all (sk_ip_fail s), sk_dc_fail := ttl_clear_all (sk_dc_fail s)\<rparr>"

definition mark_fronting_failed ::
  "skip_config \<Rightarrow> nat \<Rightarrow> string \<Rightarrow> int \<Rightarrow> skip_state \<Rightarrow> skip_state" where
  "mark_fronting_failed c now ip dc s =
     (if ip = '''' then s
      else s\<lparr>sk_fronting_fail := ttl_mark (sk_fronting_fail s) now (ip, dc) (sc_fronting_cooldown c)\<rparr>)"

definition clear_fronting_fail :: "string \<Rightarrow> int \<Rightarrow> skip_state \<Rightarrow> skip_state" where
  "clear_fronting_fail ip dc s =
     (if ip = '''' then s
      else s\<lparr>sk_fronting_fail := snd (ttl_clear (sk_fronting_fail s) (ip, dc))\<rparr>)"

definition fronting_enabled :: "skip_config \<Rightarrow> bool" where
  "fronting_enabled c \<longleftrightarrow> sc_fronting_sni c \<noteq> None"

definition should_skip_fronting ::
  "skip_config \<Rightarrow> nat \<Rightarrow> string \<Rightarrow> int \<Rightarrow> skip_state \<Rightarrow> bool \<times> skip_state" where
  "should_skip_fronting c now ip dc s =
     (if ip = '''' \<or> \<not> fronting_enabled c then (True, s)
      else case ttl_is_active (sk_fronting_fail s) now (ip, dc) of
             (b, m) \<Rightarrow> (b, s\<lparr>sk_fronting_fail := m\<rparr>))"

definition fronting_reset_all :: "skip_state \<Rightarrow> skip_state" where
  "fronting_reset_all s = s\<lparr>sk_fronting_fail := ttl_clear_all (sk_fronting_fail s)\<rparr>"

definition note_connect_success :: "string \<Rightarrow> int \<Rightarrow> bool \<Rightarrow> skip_state \<Rightarrow> skip_state" where
  "note_connect_success target dc is_media s =
     clear_fronting_fail target dc (clear_dc_fail dc is_media (clear_ip_fail target dc s))"

text \<open>\<open>should_skip_ws\<close> reads the clock twice when the DC is not blacklisted.\<close>

definition should_skip_ws ::
  "front_state \<Rightarrow> nat \<Rightarrow> nat \<Rightarrow> int \<Rightarrow> bool \<Rightarrow> string \<Rightarrow> skip_state \<Rightarrow> bool \<times> skip_state" where
  "should_skip_ws st t1 t2 dc is_media orig_ip s =
     (case ws_blacklisted t1 dc is_media s of
        (True, s1) \<Rightarrow> (True, s1)
      | (False, s1) \<Rightarrow> should_skip_direct_ws t2 (ws_target_ip st dc orig_ip) dc s1)"

section \<open>The dial loops\<close>

text \<open>
  One attempt on a domain: the outer \<open>timeout\<close> fires, the connect fails, or it succeeds and the
  relay-init packet is sent or not. \<open>dial_domains\<close> is the loop of \<open>try_ws_fronting\<close> and
  \<open>try_ws_with_domains\<close>; on failure it returns the pair \<open>(all_blocked, timed_out)\<close>.
\<close>

datatype attempt = OuterTimeout | ConnectErr ws_connect_error | SendFailed | Connected

fun dial_domains :: "(string \<Rightarrow> attempt) \<Rightarrow> bool \<Rightarrow> bool \<Rightarrow> string list \<Rightarrow> (bool \<times> bool) + string" where
  "dial_domains att all_blocked timed_out [] = Inl (all_blocked, timed_out)"
| "dial_domains att all_blocked timed_out (d # ds) =
     (case att d of
        OuterTimeout \<Rightarrow> dial_domains att False True ds
      | ConnectErr e \<Rightarrow>
          dial_domains att (all_blocked \<and> is_ws_redirect_err e)
            (timed_out \<or> ie_kind (into_io e) = TimedOut) ds
      | SendFailed \<Rightarrow> dial_domains att False timed_out ds
      | Connected \<Rightarrow> Inr d)"

definition try_ws_fronting ::
  "skip_config \<Rightarrow> (string \<Rightarrow> attempt) \<Rightarrow> int \<Rightarrow> bool \<Rightarrow> (bool \<times> bool) + string" where
  "try_ws_fronting c att dc is_media =
     (case sc_fronting_sni c of
        None \<Rightarrow> Inl (False, False)
      | Some sni \<Rightarrow> dial_domains att True False (ws_domains dc is_media))"

definition try_ws_with_domains ::
  "(string \<Rightarrow> attempt) \<Rightarrow> string list \<Rightarrow> (bool \<times> bool) + string" where
  "try_ws_with_domains att domains = dial_domains att True False domains"

section \<open>Properties\<close>

lemmas skip_ops = mark_ip_failed_def clear_ip_fail_def should_skip_direct_ws_def
  ws_connect_timeout_def mark_dc_failed_def clear_dc_fail_def ws_blacklisted_def
  clear_ws_blacklisted_def mark_ws_blacklisted_def mark_fronting_failed_def
  clear_fronting_fail_def should_skip_fronting_def

text \<open>The failures and probes of the running daemon, each with its instant.\<close>

datatype skip_event =
    IpFailed string int
  | DcFailed int bool
  | Blacklisted int bool
  | FrontingFailed string int
  | ProbeIp string int
  | ProbeDc int bool
  | ProbeBlacklist int bool
  | ProbeFronting string int

fun skip_step :: "skip_config \<Rightarrow> nat \<times> skip_event \<Rightarrow> skip_state \<Rightarrow> skip_state" where
  "skip_step c (t, IpFailed ip dc) s = mark_ip_failed c t ip dc s"
| "skip_step c (t, DcFailed dc m) s = mark_dc_failed c t dc m s"
| "skip_step c (t, Blacklisted dc m) s = mark_ws_blacklisted c t dc m s"
| "skip_step c (t, FrontingFailed ip dc) s = mark_fronting_failed c t ip dc s"
| "skip_step c (t, ProbeIp ip dc) s = snd (should_skip_direct_ws t ip dc s)"
| "skip_step c (t, ProbeDc dc m) s = snd (ws_connect_timeout c t dc m s)"
| "skip_step c (t, ProbeBlacklist dc m) s = snd (ws_blacklisted t dc m s)"
| "skip_step c (t, ProbeFronting ip dc) s = snd (should_skip_fronting c t ip dc s)"

text \<open>What a skip event does to the \<open>ip_fail\<close> map and to the blacklist.\<close>

fun ip_event :: "skip_config \<Rightarrow> nat \<times> skip_event \<Rightarrow> (nat \<times> (string \<times> int) \<times> nat option) list" where
  "ip_event c (t, IpFailed ip dc) = (if ip = '''' then [] else [(t, (ip, dc), Some (sc_ip_cooldown c))])"
| "ip_event c (t, ProbeIp ip dc) = (if ip = '''' then [] else [(t, (ip, dc), None)])"
| "ip_event c _ = []"

fun bl_event :: "skip_config \<Rightarrow> nat \<times> skip_event \<Rightarrow> (nat \<times> (int \<times> bool) \<times> nat option) list" where
  "bl_event c (t, Blacklisted dc m) = [(t, (dc, m), Some (sc_blacklist_ttl c))]"
| "bl_event c (t, ProbeBlacklist dc m) = [(t, (dc, m), None)]"
| "bl_event c _ = []"

lemma skip_step_ip:
  "sk_ip_fail (skip_step c ev s) = fold (\<lambda>ev m. ttl.event m ev) (ip_event c ev) (sk_ip_fail s)"
proof -
  obtain t e where ev: "ev = (t, e)" by fastforce
  show ?thesis unfolding ev by (cases e) (simp_all add: skip_ops case_prod_unfold)
qed

lemma skip_step_bl:
  "sk_blacklist (skip_step c ev s) = fold (\<lambda>ev m. ttl.event m ev) (bl_event c ev) (sk_blacklist s)"
proof -
  obtain t e where ev: "ev = (t, e)" by fastforce
  show ?thesis unfolding ev by (cases e) (simp_all add: skip_ops case_prod_unfold)
qed

lemma skip_run_ip:
  "sk_ip_fail (fold (skip_step c) evs s) =
   fold (\<lambda>ev m. ttl.event m ev) (concat (map (ip_event c) evs)) (sk_ip_fail s)"
  by (induction evs arbitrary: s) (simp_all add: skip_step_ip)

lemma skip_run_bl:
  "sk_blacklist (fold (skip_step c) evs s) =
   fold (\<lambda>ev m. ttl.event m ev) (concat (map (bl_event c) evs)) (sk_blacklist s)"
  by (induction evs arbitrary: s) (simp_all add: skip_step_bl)

lemma ip_event_times: "ip_event c ev = [] \<or> (\<exists>x. ip_event c ev = [(fst ev, x)])"
proof -
  obtain t e where ev: "ev = (t, e)" by fastforce
  show ?thesis unfolding ev by (cases e) simp_all
qed

lemma bl_event_times: "bl_event c ev = [] \<or> (\<exists>x. bl_event c ev = [(fst ev, x)])"
proof -
  obtain t e where ev: "ev = (t, e)" by fastforce
  show ?thesis unfolding ev by (cases e) simp_all
qed

lemma event_list_times:
  assumes "\<And>ev. f ev = [] \<or> (\<exists>x. f ev = [(fst ev, x)])"
  shows "x \<in> set (concat (map f evs)) \<Longrightarrow> \<exists>ev \<in> set evs. fst ev = fst x"
    and "sorted (map fst evs) \<Longrightarrow> sorted (map fst (concat (map f evs)))"
proof -
  have in_set: "\<exists>ev \<in> set evs. fst ev = fst x" if "x \<in> set (concat (map f evs))" for x evs
  proof -
    from that obtain ev where "ev \<in> set evs" "x \<in> set (f ev)" by auto
    with assms [of ev] show ?thesis by auto
  qed
  then show "x \<in> set (concat (map f evs)) \<Longrightarrow> \<exists>ev \<in> set evs. fst ev = fst x" by blast
  show "sorted (map fst evs) \<Longrightarrow> sorted (map fst (concat (map f evs)))"
  proof (induction evs)
    case (Cons ev evs)
    have le: "\<forall>x \<in> set (concat (map f evs)). fst ev \<le> fst x"
      using in_set Cons.prems by fastforce
    have sorted: "sorted (map fst (concat (map f evs)))" using Cons by simp
    from assms [of ev] show ?case
    proof
      assume "f ev = []"
      with sorted show ?case by simp
    next
      assume "\<exists>x. f ev = [(fst ev, x)]"
      then obtain x where "f ev = [(fst ev, x)]" by blast
      then have "map fst (concat (map f (ev # evs))) = fst ev # map fst (concat (map f evs))" by simp
      with sorted le show ?case by (simp only: sorted_simps set_map ball_simps)
    qed
  qed simp
qed

text \<open>
  Failures never push a cooldown forward: an address that was not in cooldown when it was
  marked at \<open>t\<close> is skipped exactly until \<open>t\<close> plus the configured cooldown, whatever failures and
  probes of this and other keys the daemon goes through in the meantime.
\<close>

lemma ip_cooldown_exact:
  assumes "ip \<noteq> ''''" and "\<not> fst (should_skip_direct_ws t ip dc s)"
    and "sorted (map fst evs)"
    and "\<forall>ev \<in> set evs. t \<le> fst ev \<and> fst ev < t + sc_ip_cooldown c \<and> fst ev \<le> u"
  shows "fst (should_skip_direct_ws u ip dc (fold (skip_step c) evs (mark_ip_failed c t ip dc s))) =
    (u < t + sc_ip_cooldown c)"
proof -
  let ?evs = "concat (map (ip_event c) evs)"
  have idle: "\<not> ttl_active (sk_ip_fail s) t (ip, dc)"
    using assms(1,2) by (simp add: should_skip_direct_ws_def case_prod_unfold)
  have "\<forall>ev \<in> set ?evs. t \<le> fst ev \<and> fst ev < t + sc_ip_cooldown c \<and> fst ev \<le> u"
    using event_list_times(1) [OF ip_event_times] assms(4) by fastforce
  moreover have "sorted (map fst ?evs)"
    by (rule event_list_times(2) [OF ip_event_times assms(3)])
  ultimately have "ttl_active (fold (\<lambda>ev m. ttl.event m ev) ?evs
      (snd (ttl_mark_if_absent (sk_ip_fail s) t (ip, dc) (sc_ip_cooldown c)))) u (ip, dc) =
      (u < t + sc_ip_cooldown c)"
    using ttl.exact_cooldown [OF idle] by blast
  with assms(1) show ?thesis
    by (simp add: should_skip_direct_ws_def case_prod_unfold skip_run_ip mark_ip_failed_def)
qed

definition default_skip_config :: skip_config where
  "default_skip_config = skip_config_of (\<lambda>_. None)"

lemma default_skip_config_simps [simp]:
  "sc_ip_cooldown default_skip_config = 3600 * NANOS"
  "sc_dc_cooldown default_skip_config = 60 * NANOS"
  "sc_blacklist_ttl default_skip_config = 2700 * NANOS"
  by (simp_all add: default_skip_config_def skip_config_of_def ip_cooldown_def dc_fail_cooldown_def
      blacklist_ttl_def env_u64_def secs_def)

lemma ip_cooldown_exact_witness:
  "fst (should_skip_direct_ws 3599999999999 ''1.2.3.4'' 2
     (fold (skip_step default_skip_config) [(5, IpFailed ''1.2.3.4'' 2), (9, ProbeIp ''1.2.3.4'' 2)]
       (mark_ip_failed default_skip_config 0 ''1.2.3.4'' 2 init_skip))) = True"
  using ip_cooldown_exact [of "''1.2.3.4''" 0 2 init_skip
      "[(5, IpFailed ''1.2.3.4'' 2), (9, ProbeIp ''1.2.3.4'' 2)]" default_skip_config 3599999999999]
  by (simp add: should_skip_direct_ws_def init_skip_def ttl_new_def ttl_is_active_def NANOS_def)

text \<open>
  A successful direct dial lifts the skip: right after \<open>note_connect_success\<close> for the
  dialled address, the session path skips the direct WebSocket only if the DC is blacklisted,
  the full connect timeout applies again, and fronting is not in cooldown; entries of other
  addresses and DCs are as before.
\<close>

lemma dial_success_lifts_skip:
  "let s' = note_connect_success (ws_target_ip st dc orig_ip) dc m s in
    fst (should_skip_ws st t1 t2 dc m orig_ip s') = fst (ws_blacklisted t1 dc m s)
    \<and> fst (ws_connect_timeout c t1 dc m s') = sc_ws_timeout c
    \<and> fst (should_skip_fronting c t1 (ws_target_ip st dc orig_ip) dc s') =
        (\<not> (ws_target_ip st dc orig_ip \<noteq> '''' \<and> fronting_enabled c))
    \<and> (fst (should_skip_direct_ws t1 ip' dc' s') =
         (fst (should_skip_direct_ws t1 ip' dc' s) \<and> (ip', dc') \<noteq> (ws_target_ip st dc orig_ip, dc)))"
proof -
  define s' where "s' = note_connect_success (ws_target_ip st dc orig_ip) dc m s"
  have "sk_blacklist s' = sk_blacklist s"
    by (simp add: s'_def note_connect_success_def skip_ops)
  moreover have "\<not> ttl_active (sk_dc_fail s') t1 (dc, m)"
    by (simp add: s'_def note_connect_success_def skip_ops)
  moreover have "ttl_active (sk_ip_fail s') t (ip, d) =
      (ttl_active (sk_ip_fail s) t (ip, d) \<and> (ip, d) \<noteq> (ws_target_ip st dc orig_ip, dc))"
    if "ip \<noteq> ''''" for t ip d
    using that by (auto simp: s'_def note_connect_success_def skip_ops)
  moreover have "ws_target_ip st dc orig_ip \<noteq> '''' \<Longrightarrow>
      \<not> ttl_active (sk_fronting_fail s') t1 (ws_target_ip st dc orig_ip, dc)"
    by (simp add: s'_def note_connect_success_def skip_ops)
  ultimately show ?thesis
    unfolding Let_def s'_def [symmetric]
    by (auto simp: should_skip_ws_def ws_blacklisted_def should_skip_direct_ws_def
        ws_connect_timeout_def should_skip_fronting_def case_prod_unfold split: bool.splits)
qed

text \<open>
  The flags of a failed round: the DC counts as wholly blocked exactly when every domain
  answered with a redirect, and as timed out exactly when some attempt timed out.
\<close>

definition blocked_attempt :: "attempt \<Rightarrow> bool" where
  "blocked_attempt a = (case a of ConnectErr e \<Rightarrow> is_ws_redirect_err e | _ \<Rightarrow> False)"

definition timed_out_attempt :: "attempt \<Rightarrow> bool" where
  "timed_out_attempt a = (case a of OuterTimeout \<Rightarrow> True
     | ConnectErr e \<Rightarrow> ie_kind (into_io e) = TimedOut | _ \<Rightarrow> False)"

lemma dial_domains_failed:
  "dial_domains att b t ds = Inl (b', t') \<Longrightarrow>
   (\<forall>d \<in> set ds. att d \<noteq> Connected) \<and>
   b' = (b \<and> (\<forall>d \<in> set ds. blocked_attempt (att d))) \<and>
   t' = (t \<or> (\<exists>d \<in> set ds. timed_out_attempt (att d)))"
proof (induction ds arbitrary: b t)
  case (Cons d ds)
  then show ?case
    by (cases "att d") (auto simp: blocked_attempt_def timed_out_attempt_def)
qed simp

lemma dial_domains_connected:
  "dial_domains att b t ds = Inr d \<Longrightarrow> \<exists>us vs. ds = us @ d # vs \<and> att d = Connected \<and>
     (\<forall>u \<in> set us. att u \<noteq> Connected)"
proof (induction ds arbitrary: b t)
  case (Cons x ds)
  show ?case
  proof (cases "att x = Connected")
    case True
    with Cons.prems have "x = d" by simp
    with True show ?thesis by (intro exI [of _ "[]"] exI [of _ ds]) simp
  next
    case False
    with Cons.prems have "\<exists>b t. dial_domains att b t ds = Inr d"
      by (auto split: attempt.splits)
    with Cons.IH obtain us vs where "ds = us @ d # vs" "att d = Connected" "\<forall>u \<in> set us. att u \<noteq> Connected"
      by blast
    with False show ?thesis by (intro exI [of _ "x # us"] exI [of _ vs]) simp
  qed
qed simp

text \<open>
  A failed direct round reports "all blocked" exactly when every domain answered with an
  HTTP redirect and "timed out" exactly when some attempt timed out; a successful one returns
  the first domain in order on which the packet was delivered.
\<close>

lemma dial_round_verdict:
  "case try_ws_with_domains att domains of
     Inl (all_blocked, timed_out) \<Rightarrow>
       (all_blocked \<longleftrightarrow> list_all (\<lambda>d. blocked_attempt (att d)) domains) \<and>
       (timed_out \<longleftrightarrow> list_ex (\<lambda>d. timed_out_attempt (att d)) domains) \<and>
       \<not> list_ex (\<lambda>d. att d = Connected) domains
   | Inr d \<Rightarrow> find (\<lambda>d. att d = Connected) domains = Some d"
proof (cases "try_ws_with_domains att domains")
  case (Inl bt)
  then show ?thesis
    using dial_domains_failed [of att True False domains "fst bt" "snd bt"]
    by (cases bt) (auto simp: try_ws_with_domains_def list_all_iff list_ex_iff)
next
  case (Inr d)
  then obtain us vs where "domains = us @ d # vs" "att d = Connected" "\<forall>u \<in> set us. att u \<noteq> Connected"
    using dial_domains_connected unfolding try_ws_with_domains_def by blast
  then have "find (\<lambda>d. att d = Connected) domains = Some d"
    by (induction us arbitrary: domains) auto
  with Inr show ?thesis by simp
qed

end
