(* ===== verification/Cooldown.thy ===== *)
theory Cooldown
  imports Ws
begin

text \<open>
  \<open>cooldown429.rs\<close>, \<open>cf_worker_cooldown.rs\<close> and \<open>cf_proxy_cooldown.rs\<close>: the rate-limit
  cooldown per host with exponential backoff, and its two users. A \<open>Cooldown429\<close> is its map;
  its functions \<open>base\<close> and \<open>max\<close> are the arguments \<open>base\<close> and \<open>mx\<close>. Each reading of the clock
  is an argument of its own (\<open>t1 \<le> t2 \<le> t3\<close>) in the \<open>Cooldown429\<close> operations; the operations of
  the two users, which call them several times without awaiting anything, take one reading.

  The interface \<open>limiter\<close> is what the users promise their callers.
\<close>

section \<open>The interface of a limiter\<close>

locale limiter =
  fixes limited :: "'s \<Rightarrow> nat \<Rightarrow> 'k \<Rightarrow> bool"
    and same :: "'k \<Rightarrow> 'k \<Rightarrow> bool"
    and mark :: "nat \<Rightarrow> 'k \<Rightarrow> 's \<Rightarrow> 's"
    and probe :: "nat \<Rightarrow> 'k \<Rightarrow> 's \<Rightarrow> bool \<times> 's"
    and release :: "'k \<Rightarrow> 's \<Rightarrow> 's"
  assumes limited_mark: "limited (mark t k s) t k' \<longleftrightarrow> same k k' \<or> limited s t k'"
    and probe_fst: "fst (probe t k s) = limited s t k"
    and limited_probe: "t \<le> u \<Longrightarrow> limited (snd (probe t k s)) u k' = limited s u k'"
    and limited_release: "limited (release k s) u k' \<longleftrightarrow> \<not> same k k' \<and> limited s u k'"
begin

text \<open>Keeping the items whose probe answers no, in order.\<close>

fun keep_free :: "nat \<Rightarrow> 'k list \<Rightarrow> 's \<Rightarrow> 'k list \<times> 's" where
  "keep_free t [] s = ([], s)"
| "keep_free t (k # ks) s =
     (case probe t k s of (b, s1) \<Rightarrow>
       (case keep_free t ks s1 of (out, s2) \<Rightarrow> (if b then out else k # out, s2)))"

lemma keep_free_exact:
  "fst (keep_free t ks s) = filter (\<lambda>k. \<not> limited s t k) ks"
  "t \<le> u \<Longrightarrow> limited (snd (keep_free t ks s)) u k' = limited s u k'"
proof -
  have "fst (keep_free t ks s) = filter (\<lambda>k. \<not> limited s t k) ks \<and>
      (\<forall>u \<ge> t. \<forall>k'. limited (snd (keep_free t ks s)) u k' = limited s u k')"
  proof (induction ks arbitrary: s)
    case (Cons k ks)
    have "limited (snd (probe t k s)) t = limited s t" by (intro ext) (simp add: limited_probe)
    with Cons.IH [of "snd (probe t k s)"] show ?case
      by (simp add: case_prod_unfold probe_fst limited_probe)
  qed simp
  then show "fst (keep_free t ks s) = filter (\<lambda>k. \<not> limited s t k) ks"
    and "t \<le> u \<Longrightarrow> limited (snd (keep_free t ks s)) u k' = limited s u k'" by auto
qed

end

section \<open>Cooldown429\<close>

record cooldown_state =
  cs_until :: "nat option"
  cs_strikes :: nat

type_synonym cooldown_map = "string \<rightharpoonup> cooldown_state"

definition default_state :: cooldown_state where
  "default_state = \<lparr>cs_until = None, cs_strikes = 0\<rparr>"

text \<open>The largest \<open>Duration\<close>, at which \<open>saturating_mul\<close> stops; and that of \<open>u32\<close>.\<close>

definition DURATION_MAX :: nat where
  "DURATION_MAX = (2 ^ 64 - 1) * NANOS + 999999999"

definition U32_MAX :: nat where
  "U32_MAX = 2 ^ 32 - 1"

definition double_sat :: "nat \<Rightarrow> nat" where
  "double_sat d = min (d * 2) DURATION_MAX"

fun backoff :: "nat \<Rightarrow> nat \<Rightarrow> nat \<Rightarrow> nat" where
  "backoff mx 0 delay = min delay mx"
| "backoff mx (Suc n) delay =
     (let delay = double_sat delay in if delay \<ge> mx then mx else backoff mx n delay)"

definition expired :: "nat \<Rightarrow> nat \<Rightarrow> cooldown_state \<Rightarrow> bool" where
  "expired mx t prev \<longleftrightarrow> (case cs_until prev of None \<Rightarrow> True | Some u \<Rightarrow> t - u > mx)"

definition next_delay :: "nat \<Rightarrow> nat \<Rightarrow> nat \<Rightarrow> cooldown_state \<Rightarrow> nat \<Rightarrow> nat" where
  "next_delay base mx t prev retry_after =
     (if retry_after > 0 then min retry_after mx
      else backoff mx (if expired mx t prev then 0 else cs_strikes prev) base)"

definition norm_key :: "string \<Rightarrow> string" where
  "norm_key key = to_ascii_lowercase (trim key)"

definition remaining :: "nat \<Rightarrow> nat \<Rightarrow> nat \<Rightarrow> string \<Rightarrow> cooldown_map \<Rightarrow> nat \<times> cooldown_map" where
  "remaining mx t1 t2 key m =
     (let key = norm_key key
      in if key = '''' then (0, m)
         else case m key of
                None \<Rightarrow> (0, m)
              | Some state \<Rightarrow>
                  (case cs_until state of
                     None \<Rightarrow> (0, m)
                   | Some until \<Rightarrow>
                       if until \<le> t1 then (0, if t2 - until > mx then m(key := None) else m)
                       else (until - t1, m)))"

definition cd_is_active :: "nat \<Rightarrow> nat \<Rightarrow> nat \<Rightarrow> string \<Rightarrow> cooldown_map \<Rightarrow> bool \<times> cooldown_map" where
  "cd_is_active mx t1 t2 key m = (case remaining mx t1 t2 key m of (r, m') \<Rightarrow> (r > 0, m'))"

definition mark_for ::
  "nat \<Rightarrow> nat \<Rightarrow> nat \<Rightarrow> nat \<Rightarrow> nat \<Rightarrow> string \<Rightarrow> nat \<Rightarrow> cooldown_map \<Rightarrow> cooldown_map" where
  "mark_for base mx t1 t2 t3 key retry_after m =
     (let key = norm_key key
      in if key = '''' then m
         else
           let prev = (case m key of Some st \<Rightarrow> st | None \<Rightarrow> default_state);
               delay = next_delay base mx t1 prev retry_after;
               strikes = (if expired mx t2 prev then 1 else min (cs_strikes prev + 1) U32_MAX)
           in m(key \<mapsto> \<lparr>cs_until = Some (t3 + delay), cs_strikes = strikes\<rparr>))"

definition cd_mark ::
  "nat \<Rightarrow> nat \<Rightarrow> nat \<Rightarrow> nat \<Rightarrow> nat \<Rightarrow> string \<Rightarrow> ws_connect_error \<Rightarrow> cooldown_map \<Rightarrow> cooldown_map" where
  "cd_mark base mx t1 t2 t3 key err m =
     mark_for base mx t1 t2 t3 key (retry_after_from_err err) m"

definition cd_clear :: "string \<Rightarrow> cooldown_map \<Rightarrow> cooldown_map" where
  "cd_clear key m = (let key = norm_key key in if key = '''' then m else m(key := None))"

section \<open>The two users\<close>

text \<open>The environment: \<open>trim\<close>, \<open>parse::<u64>\<close>, positive, else the default.\<close>

definition env_secs_pos :: "string option \<Rightarrow> nat \<Rightarrow> nat" where
  "env_secs_pos v d =
     (case v of
        Some s \<Rightarrow> (case parse_u64 (trim s) of
                     Some n \<Rightarrow> if n > 0 then n * NANOS else d * NANOS
                   | None \<Rightarrow> d * NANOS)
      | None \<Rightarrow> d * NANOS)"

definition worker_base_cooldown :: "(string \<Rightarrow> string option) \<Rightarrow> nat" where
  "worker_base_cooldown env = env_secs_pos (env ''WRTG_CF_WORKER_429_COOLDOWN_SEC'') 60"

definition worker_max_cooldown :: "(string \<Rightarrow> string option) \<Rightarrow> nat" where
  "worker_max_cooldown env = env_secs_pos (env ''WRTG_CF_WORKER_429_MAX_COOLDOWN_SEC'') 900"

definition proxy_base_cooldown :: "(string \<Rightarrow> string option) \<Rightarrow> nat" where
  "proxy_base_cooldown env = env_secs_pos (env ''WRTG_CFPROXY_429_COOLDOWN_SEC'') 45"

definition proxy_max_cooldown :: "(string \<Rightarrow> string option) \<Rightarrow> nat" where
  "proxy_max_cooldown env = env_secs_pos (env ''WRTG_CFPROXY_429_MAX_COOLDOWN_SEC'') 300"

record worker_cd =
  wc_429 :: cooldown_map
  wc_503 :: cooldown_map

text \<open>\<open>base\<close> and \<open>mx\<close> are the two configured durations, \<open>t\<close> the clock.\<close>

definition worker_rate_limited :: "nat \<Rightarrow> nat \<Rightarrow> string \<Rightarrow> worker_cd \<Rightarrow> bool \<times> worker_cd" where
  "worker_rate_limited mx t worker s =
     (case cd_is_active mx t t worker (wc_429 s) of
        (True, m) \<Rightarrow> (True, s\<lparr>wc_429 := m\<rparr>)
      | (False, m) \<Rightarrow>
          (case cd_is_active mx t t worker (wc_503 s) of
             (b, m5) \<Rightarrow> (b, s\<lparr>wc_429 := m, wc_503 := m5\<rparr>)))"

definition worker_cooldown_remaining :: "nat \<Rightarrow> nat \<Rightarrow> string \<Rightarrow> worker_cd \<Rightarrow> nat \<times> worker_cd" where
  "worker_cooldown_remaining mx t worker s =
     (case remaining mx t t worker (wc_429 s) of
        (r4, m4) \<Rightarrow> (case remaining mx t t worker (wc_503 s) of
          (r5, m5) \<Rightarrow> (max r4 r5, s\<lparr>wc_429 := m4, wc_503 := m5\<rparr>)))"

definition mark_worker_429 ::
  "nat \<Rightarrow> nat \<Rightarrow> nat \<Rightarrow> string \<Rightarrow> ws_connect_error \<Rightarrow> worker_cd \<Rightarrow> worker_cd" where
  "mark_worker_429 base mx t worker err s =
     (if http_status err \<noteq> Some 429 then s
      else snd (worker_cooldown_remaining mx t worker
             (s\<lparr>wc_429 := cd_mark base mx t t t worker err (wc_429 s)\<rparr>)))"

definition account_key :: "string \<Rightarrow> string option" where
  "account_key host =
     (case strip_suffix ''.workers.dev'' (to_ascii_lowercase (trim_end_matches (CHR ''.'') (trim host))) of
        None \<Rightarrow> None
      | Some rest \<Rightarrow>
          (let account = last (split_on (\<lambda>c. c = CHR ''.'') rest)
           in if account = '''' then None else Some (account @ ''.workers.dev'')))"

fun cool_peers ::
  "nat \<Rightarrow> nat \<Rightarrow> nat \<Rightarrow> string \<Rightarrow> string \<Rightarrow> ws_connect_error \<Rightarrow> string list \<Rightarrow> worker_cd \<Rightarrow> worker_cd" where
  "cool_peers base mx t worker account err [] s = s"
| "cool_peers base mx t worker account err (peer # peers) s =
     (if eq_ignore_ascii_case peer worker then cool_peers base mx t worker account err peers s
      else case worker_rate_limited mx t peer s of
        (True, s1) \<Rightarrow> cool_peers base mx t worker account err peers s1
      | (False, s1) \<Rightarrow>
          cool_peers base mx t worker account err peers
            (if account_key peer = Some account
             then s1\<lparr>wc_429 := cd_mark base mx t t t peer err (wc_429 s1)\<rparr> else s1))"

definition mark_worker_429_with_peers ::
  "nat \<Rightarrow> nat \<Rightarrow> nat \<Rightarrow> string \<Rightarrow> ws_connect_error \<Rightarrow> string list \<Rightarrow> worker_cd \<Rightarrow> worker_cd" where
  "mark_worker_429_with_peers base mx t worker err peers s =
     (if http_status err = Some 503
      then let m = cd_mark base mx t t t worker err (wc_503 s)
           in s\<lparr>wc_503 := snd (remaining mx t t worker m)\<rparr>
      else if http_status err \<noteq> Some 429 then s
      else
        let s1 = mark_worker_429 base mx t worker err s
        in case account_key worker of
             None \<Rightarrow> s1
           | Some account \<Rightarrow> cool_peers base mx t worker account err peers s1)"

definition clear_worker_429 :: "string \<Rightarrow> worker_cd \<Rightarrow> worker_cd" where
  "clear_worker_429 worker s =
     s\<lparr>wc_429 := cd_clear worker (wc_429 s), wc_503 := cd_clear worker (wc_503 s)\<rparr>"

fun free_workers :: "nat \<Rightarrow> nat \<Rightarrow> string list \<Rightarrow> worker_cd \<Rightarrow> string list \<times> worker_cd" where
  "free_workers mx t [] s = ([], s)"
| "free_workers mx t (w # ws) s =
     (case worker_rate_limited mx t w s of (b, s1) \<Rightarrow>
       (case free_workers mx t ws s1 of (out, s2) \<Rightarrow> (if b then out else w # out, s2)))"

definition usable_workers :: "nat \<Rightarrow> nat \<Rightarrow> string list \<Rightarrow> worker_cd \<Rightarrow> (string list \<times> nat) \<times> worker_cd" where
  "usable_workers mx t workers s =
     (case free_workers mx t workers s of
        (usable, s') \<Rightarrow> ((usable, length workers - length usable), s'))"

definition cf_proxy_cooldown_remaining :: "nat \<Rightarrow> nat \<Rightarrow> string \<Rightarrow> cooldown_map \<Rightarrow> nat \<times> cooldown_map" where
  "cf_proxy_cooldown_remaining mx t domain m = remaining mx t t domain m"

definition mark_cf_proxy_429_cooldown ::
  "nat \<Rightarrow> nat \<Rightarrow> nat \<Rightarrow> string \<Rightarrow> ws_connect_error \<Rightarrow> cooldown_map \<Rightarrow> cooldown_map" where
  "mark_cf_proxy_429_cooldown base mx t domain err m = cd_mark base mx t t t domain err m"

definition clear_cf_proxy_429_cooldown :: "string \<Rightarrow> cooldown_map \<Rightarrow> cooldown_map" where
  "clear_cf_proxy_429_cooldown domain m = cd_clear domain m"

section \<open>The limiter laws\<close>

text \<open>What is left of a cooldown, without the pruning.\<close>

definition left :: "cooldown_map \<Rightarrow> nat \<Rightarrow> string \<Rightarrow> nat" where
  "left m t key =
     (if norm_key key = '''' then 0
      else case m (norm_key key) of
             None \<Rightarrow> 0
           | Some st \<Rightarrow> (case cs_until st of Some u \<Rightarrow> u - t | None \<Rightarrow> 0))"

definition same_key :: "string \<Rightarrow> string \<Rightarrow> bool" where
  "same_key a b \<longleftrightarrow> norm_key a \<noteq> '''' \<and> norm_key b = norm_key a"

definition worker_limited :: "worker_cd \<Rightarrow> nat \<Rightarrow> string \<Rightarrow> bool" where
  "worker_limited s t w \<longleftrightarrow> 0 < left (wc_429 s) t w \<or> 0 < left (wc_503 s) t w"

lemma remaining_fst [simp]: "fst (remaining mx t t2 key m) = left m t key"
  by (auto simp: remaining_def left_def Let_def split: option.splits)

lemma left_remaining [simp]: "t \<le> u \<Longrightarrow> left (snd (remaining mx t t2 key m)) u k = left m u k"
  by (auto simp: remaining_def left_def Let_def split: option.splits)

lemma left_cd_is_active [simp]:
  "fst (cd_is_active mx t t2 key m) \<longleftrightarrow> 0 < left m t key"
  "t \<le> u \<Longrightarrow> left (snd (cd_is_active mx t t2 key m)) u k = left m u k"
  by (simp_all add: cd_is_active_def case_prod_unfold)

text \<open>What a mark makes of a key: the new delay runs from the last clock reading.\<close>

definition mark_delay :: "nat \<Rightarrow> nat \<Rightarrow> nat \<Rightarrow> string \<Rightarrow> nat \<Rightarrow> cooldown_map \<Rightarrow> nat" where
  "mark_delay base mx t key retry_after m =
     next_delay base mx t (case m (norm_key key) of Some st \<Rightarrow> st | None \<Rightarrow> default_state) retry_after"

lemma left_mark_for:
  "left (mark_for base mx t1 t2 t3 key retry_after m) u k =
    (if same_key key k then t3 + mark_delay base mx t1 key retry_after m - u else left m u k)"
  by (auto simp: left_def mark_for_def same_key_def mark_delay_def Let_def)

lemma left_cd_clear: "left (cd_clear key m) u k = (if same_key key k then 0 else left m u k)"
  by (auto simp: left_def cd_clear_def same_key_def Let_def)

lemma backoff_le: "backoff mx n d \<le> mx"
  by (induction mx n d rule: backoff.induct) (simp_all add: Let_def)

lemma next_delay_le: "next_delay base mx t prev r \<le> mx"
  by (simp add: next_delay_def backoff_le)

lemma double_sat_mono: "d \<le> DURATION_MAX \<Longrightarrow> d \<le> double_sat d"
  by (simp add: double_sat_def)

lemma backoff_pos: "0 < d \<Longrightarrow> 0 < mx \<Longrightarrow> 0 < backoff mx n d"
proof (induction mx n d rule: backoff.induct)
  case (2 mx n delay)
  then show ?case by (simp add: Let_def double_sat_def DURATION_MAX_def)
qed simp

lemma next_delay_pos: "0 < base \<Longrightarrow> 0 < mx \<Longrightarrow> 0 < next_delay base mx t prev r"
  by (simp add: next_delay_def backoff_pos)

lemma mark_delay_bounds: "0 < base \<Longrightarrow> 0 < mx \<Longrightarrow> 0 < mark_delay base mx t key r m"
  "mark_delay base mx t key r m \<le> mx"
  by (simp_all add: mark_delay_def next_delay_pos next_delay_le)

text \<open>The saturating loop computes the capped power of two.\<close>

lemma backoff_closed: "mx \<le> DURATION_MAX \<Longrightarrow> backoff mx n d = min (d * 2 ^ n) mx"
proof (induction n arbitrary: d)
  case (Suc n)
  show ?case
  proof (cases "mx \<le> double_sat d")
    case True
    then have "mx \<le> d * 2" using Suc.prems by (simp add: double_sat_def)
    also have "\<dots> \<le> d * 2 ^ Suc n" by simp
    finally show ?thesis using True by (simp add: Let_def min_def)
  next
    case False
    then have "double_sat d = d * 2" using Suc.prems by (auto simp: double_sat_def)
    with False Suc show ?thesis by (simp add: Let_def mult.assoc)
  qed
qed simp

lemma left_remaining_fold [simp]:
  "t \<le> u \<Longrightarrow> worker_limited (snd (worker_rate_limited mx t w s)) u k = worker_limited s u k"
  "fst (worker_rate_limited mx t w s) = worker_limited s t w"
  "t \<le> u \<Longrightarrow> worker_limited (snd (worker_cooldown_remaining mx t w s)) u k = worker_limited s u k"
  by (auto simp: worker_rate_limited_def worker_cooldown_remaining_def worker_limited_def
      case_prod_unfold split: bool.splits)

text \<open>A mark of one worker in the 429 map.\<close>

definition cool_worker ::
  "nat \<Rightarrow> nat \<Rightarrow> ws_connect_error \<Rightarrow> nat \<Rightarrow> string \<Rightarrow> worker_cd \<Rightarrow> worker_cd" where
  "cool_worker base mx err t w s = s\<lparr>wc_429 := cd_mark base mx t t t w err (wc_429 s)\<rparr>"

lemma limited_cool_worker:
  assumes "0 < base" and "0 < mx"
  shows "worker_limited (cool_worker base mx err t w s) t k \<longleftrightarrow> same_key w k \<or> worker_limited s t k"
  using mark_delay_bounds(1) [OF assms]
  by (auto simp: cool_worker_def worker_limited_def cd_mark_def left_mark_for)

lemma limited_clear_worker:
  "worker_limited (clear_worker_429 w s) u k \<longleftrightarrow> \<not> same_key w k \<and> worker_limited s u k"
  by (auto simp: worker_limited_def clear_worker_429_def left_cd_clear)

text \<open>
  The Worker cooldown is a limiter for every positive configuration; the maximum with 1 is the
  identity there.
\<close>

interpretation wl: limiter worker_limited same_key
  "cool_worker (max 1 base) (max 1 mx) err" "worker_rate_limited mx'" clear_worker_429
  for base mx mx' err
  by unfold_locales (simp_all add: limited_cool_worker limited_clear_worker)

lemma free_workers_keep: "free_workers mx t ws s = wl.keep_free mx t ws s"
  by (induction ws arbitrary: s) simp_all

section \<open>Properties\<close>

text \<open>Case folding and trimming commute: white space is not changed by ASCII lowering.\<close>

lemma ws_len_lower [simp]: "ws_len (to_ascii_lowercase s) = ws_len s"
proof -
  have o: "ord (char_lower c) = (if 65 \<le> ord c \<and> ord c \<le> 90 then ord c + 32 else ord c)" for c
    by (simp add: ord_char_lower is_ascii_uppercase_def)
  have n: "ord (to_ascii_lowercase s ! i) =
      (if 65 \<le> ord (s ! i) \<and> ord (s ! i) \<le> 90 then ord (s ! i) + 32 else ord (s ! i))"
    if "i < length s" for i
    using that by (simp add: to_ascii_lowercase_def o)
  show ?thesis
    unfolding ws_len_def Let_def length_to_ascii_lowercase
    by (cases "0 < length s"; cases "1 < length s"; cases "2 < length s") (simp_all add: n)
qed

lemma lower_take_drop:
  "to_ascii_lowercase (drop n s) = drop n (to_ascii_lowercase s)"
  "to_ascii_lowercase (take n s) = take n (to_ascii_lowercase s)"
  by (simp_all add: to_ascii_lowercase_def drop_map take_map)

lemma ws_tail_len_lower [simp]: "ws_tail_len (to_ascii_lowercase s) = ws_tail_len s"
  by (simp add: ws_tail_len_def lower_take_drop [symmetric])

lemma trim_start_lower: "trim_start (to_ascii_lowercase s) = to_ascii_lowercase (trim_start s)"
proof (induction s rule: trim_start.induct)
  case (1 s)
  then show ?case
    by (subst (1 2) trim_start.simps) (simp add: lower_take_drop [symmetric])
qed

lemma trim_end_lower: "trim_end (to_ascii_lowercase s) = to_ascii_lowercase (trim_end s)"
proof (induction s rule: trim_end.induct)
  case (1 s)
  then show ?case
    by (subst (1 2) trim_end.simps) (simp add: lower_take_drop [symmetric])
qed

lemma trim_lower: "trim (to_ascii_lowercase s) = to_ascii_lowercase (trim s)"
  by (simp add: trim_def trim_start_lower trim_end_lower)

lemma norm_key_ignore_case: "eq_ignore_ascii_case a b \<Longrightarrow> norm_key a = norm_key b"
  by (metis eq_ignore_ascii_case_def norm_key_def trim_lower)

lemma account_key_some_nonempty:
  assumes "account_key w = Some a" shows "norm_key w \<noteq> ''''"
proof
  assume "norm_key w = ''''"
  then have "trim w = ''''" by (simp add: norm_key_def)
  with assms show False
    by (simp add: account_key_def trim_end_matches_def strip_suffix_def ends_with_def)
qed

lemma limited_cool_peers:
  assumes "0 < base" and "0 < mx"
  shows "worker_limited (cool_peers base mx t worker account err peers s) t k \<longleftrightarrow>
    worker_limited s t k \<or> (\<exists>p \<in> set peers. \<not> eq_ignore_ascii_case p worker \<and>
      account_key p = Some account \<and> same_key p k)"
proof (induction peers arbitrary: s)
  case (Cons p ps)
  obtain b s1 where r: "worker_rate_limited mx t p s = (b, s1)" by fastforce
  have b: "b = worker_limited s t p"
    using left_remaining_fold(2) [of mx t p s] r by simp
  have s1: "worker_limited s1 t k' = worker_limited s t k'" for k'
    using left_remaining_fold(1) [of t t mx p s k'] r by simp
  have same: "worker_limited s t k" if "worker_limited s t p" "same_key p k"
    using that by (simp add: worker_limited_def left_def same_key_def)
  show ?case
  proof (cases "eq_ignore_ascii_case p worker")
    case True
    with Cons show ?thesis by auto
  next
    case False
    show ?thesis
    proof (cases b)
      case True
      with False r b s1 same Cons.IH [of s1] show ?thesis by auto
    next
      case nb: False
      show ?thesis
        using False r nb b s1 Cons.IH [of s1] Cons.IH [of "cool_worker base mx err t p s1"]
          limited_cool_worker [OF assms, of err t p s1 k]
        by (auto simp: cool_worker_def)
    qed
  qed
qed simp

lemma limited_mark_worker:
  assumes "0 < base" and "0 < mx" and "http_status err = Some 429"
  shows "worker_limited (mark_worker_429 base mx t w err s) t k \<longleftrightarrow> same_key w k \<or> worker_limited s t k"
  using assms(3) limited_cool_worker [OF assms(1,2), of err t w s k]
  by (simp add: mark_worker_429_def cool_worker_def)

text \<open>
  The scope of a failure: a 429 makes exactly the Worker and its configured siblings of the
  same Cloudflare account unusable, a 503 exactly that Worker, and any other failure nobody;
  all other Workers are exactly as usable as before.
\<close>

lemma worker_failure_scope:
  assumes "0 < base" and "0 < mx"
  shows "worker_limited (mark_worker_429_with_peers base mx t worker err peers s) t k \<longleftrightarrow>
    worker_limited s t k \<or>
    (http_status err = Some 503 \<and> same_key worker k) \<or>
    (http_status err = Some 429 \<and>
      (same_key worker k \<or>
       (\<exists>p \<in> set peers. account_key p \<noteq> None \<and> account_key p = account_key worker \<and> same_key p k)))"
proof -
  consider (e503) "http_status err = Some 503" | (e429) "http_status err = Some 429"
    | (other) "http_status err \<noteq> Some 503" "http_status err \<noteq> Some 429" by blast
  then show ?thesis
  proof cases
    case e503
    then show ?thesis
      using mark_delay_bounds(1) [OF assms]
      by (auto simp: mark_worker_429_with_peers_def worker_limited_def cd_mark_def left_mark_for)
  next
    case e429
    show ?thesis
    proof (cases "account_key worker")
      case None
      with e429 limited_mark_worker [OF assms e429, of t worker s k] show ?thesis
        by (auto simp: mark_worker_429_with_peers_def)
    next
      case (Some account)
      have same: "same_key worker k" if "eq_ignore_ascii_case p worker" "same_key p k" for p
        using that(2) unfolding same_key_def norm_key_ignore_case [OF that(1)] .
      have "worker_limited (mark_worker_429_with_peers base mx t worker err peers s) t k \<longleftrightarrow>
          (same_key worker k \<or> worker_limited s t k) \<or>
          (\<exists>p \<in> set peers. \<not> eq_ignore_ascii_case p worker \<and> account_key p = Some account \<and> same_key p k)"
        using Some e429 limited_mark_worker [OF assms e429, of t worker s k]
        by (simp add: mark_worker_429_with_peers_def limited_cool_peers [OF assms])
      moreover have "((\<exists>p \<in> set peers. \<not> eq_ignore_ascii_case p worker \<and> account_key p = Some account
            \<and> same_key p k) \<or> same_key worker k) =
          ((\<exists>p \<in> set peers. account_key p \<noteq> None \<and> account_key p = account_key worker
            \<and> same_key p k) \<or> same_key worker k)"
        using same Some by (metis option.distinct(1))
      ultimately show ?thesis using e429 by argo
    qed
  next
    case other
    then show ?thesis by (simp add: mark_worker_429_with_peers_def)
  qed
qed

definition http_error :: "nat \<Rightarrow> ws_connect_error" where
  "http_error code = WsHandshake \<lparr>he_status_code = code, he_status_line = '''', he_headers = Map.empty\<rparr>"

definition no_cooldowns :: worker_cd where
  "no_cooldowns = \<lparr>wc_429 = Map.empty, wc_503 = Map.empty\<rparr>"

lemma account_sample: "account_key ''a.x.workers.dev'' = Some ''x.workers.dev''"
  "account_key ''b.x.workers.dev'' = Some ''x.workers.dev''" "same_key ''b.x.workers.dev'' ''b.x.workers.dev''"
proof -
  have "trim ''a.x.workers.dev'' = ''a.x.workers.dev''" "trim ''b.x.workers.dev'' = ''b.x.workers.dev''"
    by (rule trim_all_graphic, simp add: is_graphic_def)+
  then show "account_key ''a.x.workers.dev'' = Some ''x.workers.dev''"
    "account_key ''b.x.workers.dev'' = Some ''x.workers.dev''"
    "same_key ''b.x.workers.dev'' ''b.x.workers.dev''"
    by (simp_all add: account_key_def same_key_def norm_key_def to_ascii_lowercase_def char_lower_def
        is_ascii_uppercase_def trim_end_matches_def strip_suffix_def ends_with_def)
qed

lemma worker_failure_scope_witness:
  "worker_limited (mark_worker_429_with_peers (60 * NANOS) (900 * NANOS) 7 ''a.x.workers.dev''
     (http_error 429) [''b.x.workers.dev''] no_cooldowns) 7 ''b.x.workers.dev''"
  using worker_failure_scope [of "60 * NANOS" "900 * NANOS" 7 "''a.x.workers.dev''"
      "http_error 429" "[''b.x.workers.dev'']" no_cooldowns "''b.x.workers.dev''"] account_sample
  by (simp add: NANOS_def http_error_def http_status_def)

text \<open>
  \<open>usable_workers\<close> returns, in order, exactly the Workers that are not in cooldown, and the
  number of the others; asking changes nobody's cooldown.
\<close>

lemma usable_workers_exact:
  "fst (usable_workers mx t workers s) =
     (filter (\<lambda>w. \<not> worker_limited s t w) workers,
      length (filter (\<lambda>w. worker_limited s t w) workers)) \<and>
   worker_limited (snd (usable_workers mx t workers s)) (t + d) w = worker_limited s (t + d) w"
proof -
  have "length workers = length (filter (\<lambda>w. \<not> worker_limited s t w) workers) +
      length (filter (\<lambda>w. worker_limited s t w) workers)"
    using sum_length_filter_compl [of "\<lambda>w. worker_limited s t w" workers] by simp
  then show ?thesis
    by (simp add: usable_workers_def case_prod_unfold free_workers_keep wl.keep_free_exact)
qed

lemma mark_series_state:
  assumes "ts \<noteq> []" and "\<forall>i. Suc i < length ts \<longrightarrow> ts ! i \<le> ts ! Suc i \<and> ts ! Suc i \<le> ts ! i + mx"
    and "length ts < U32_MAX" and "norm_key key \<noteq> ''''" and "m (norm_key key) = None"
  shows "fold (\<lambda>t. mark_for base mx t t t key 0) ts m (norm_key key) =
    Some \<lparr>cs_until = Some (last ts + backoff mx (length ts - 1) base), cs_strikes = length ts\<rparr>"
  using assms
proof (induction ts rule: rev_induct)
  case (snoc t ts)
  show ?case
  proof (cases "ts = []")
    case True
    with snoc.prems show ?thesis
      by (simp add: mark_for_def default_state_def next_delay_def expired_def Let_def)
  next
    case False
    have pre: "\<forall>i. Suc i < length ts \<longrightarrow> ts ! i \<le> ts ! Suc i \<and> ts ! Suc i \<le> ts ! i + mx"
    proof (intro allI impI)
      fix i assume "Suc i < length ts"
      with snoc.prems(2) [rule_format, of i] show "ts ! i \<le> ts ! Suc i \<and> ts ! Suc i \<le> ts ! i + mx"
        by (simp add: nth_append)
    qed
    have IH: "fold (\<lambda>t. mark_for base mx t t t key 0) ts m (norm_key key) =
        Some \<lparr>cs_until = Some (last ts + backoff mx (length ts - 1) base), cs_strikes = length ts\<rparr>"
      using snoc.IH [OF False pre] snoc.prems by simp
    have "t \<le> last ts + mx"
      using snoc.prems(2) [rule_format, of "length ts - 1"] False
      by (simp add: nth_append last_conv_nth)
    then have ne: "\<not> expired mx t \<lparr>cs_until = Some (last ts + backoff mx (length ts - 1) base),
        cs_strikes = length ts\<rparr>"
      by (simp add: expired_def)
    have "min (Suc (length ts)) U32_MAX = Suc (length ts)" using snoc.prems(3) by simp
    with IH ne snoc.prems(4) False show ?thesis
      by (simp add: mark_for_def [of _ _ t] next_delay_def Let_def)
  qed
qed simp


lemma lower_samples: "to_ascii_lowercase ''A.example'' = ''a.example''"
  "to_ascii_lowercase ''a.example'' = ''a.example''"
  by code_simp+


datatype cd_event = CdMark string ws_connect_error | CdProbe string | CdClear string

fun cd_step :: "nat \<Rightarrow> nat \<Rightarrow> nat \<times> cd_event \<Rightarrow> cooldown_map \<Rightarrow> cooldown_map" where
  "cd_step base mx (t, CdMark k err) m = cd_mark base mx t t t k err m"
| "cd_step base mx (t, CdProbe k) m = snd (remaining mx t t k m)"
| "cd_step base mx (t, CdClear k) m = cd_clear k m"

lemma cd_step_bound:
  assumes "\<forall>k. left m t k \<le> mx" and "fst ev = t"
  shows "\<forall>k. left (cd_step base mx ev m) t k \<le> mx"
proof -
  obtain t' e where ev: "ev = (t', e)" by fastforce
  with assms show ?thesis
    by (cases e) (auto simp: cd_mark_def left_mark_for left_cd_clear mark_delay_bounds(2))
qed

lemma left_mono: "t \<le> u \<Longrightarrow> left m u k \<le> left m t k"
  by (auto simp: left_def split: option.splits)

text \<open>
  No cooldown is ever longer than the configured maximum: whatever marks, probes and
  releases happened, at whatever non-decreasing instants and with whatever \<open>Retry-After\<close>, from
  the last of them on every host has at most the maximum left.
\<close>

lemma cooldown_bounded:
  assumes "sorted (map fst evs)" and "\<forall>ev \<in> set evs. fst ev \<le> t"
  shows "fst (remaining mx t t k (fold (cd_step base mx) evs Map.empty)) \<le> mx"
proof -
  have "\<forall>t. (\<forall>ev \<in> set evs. fst ev \<le> t) \<longrightarrow>
      (\<forall>k. left (fold (cd_step base mx) evs Map.empty) t k \<le> mx)"
    using assms(1)
  proof (induction evs rule: rev_induct)
    case Nil
    then show ?case by (simp add: left_def)
  next
    case (snoc ev evs)
    then have "\<forall>e \<in> set evs. fst e \<le> fst ev" and "sorted (map fst evs)"
      by (auto simp: sorted_append)
    with snoc.IH have "\<forall>k. left (fold (cd_step base mx) evs Map.empty) (fst ev) k \<le> mx" by blast
    from cd_step_bound [OF this refl] show ?case
      by (auto intro: order.trans [OF left_mono])
  qed
  with assms(2) show ?thesis by simp
qed

lemma cooldown_bounded_witness:
  "fst (remaining 300 9 9 ''h'' (fold (cd_step 45 300)
     [(1, CdMark ''h'' (http_error 429)), (5, CdProbe ''h''), (9, CdMark ''h'' WsTimeout)] Map.empty)) \<le> 300"
  by (rule cooldown_bounded) simp_all

end
