(* ===== verification/Balancer.thy ===== *)
theory Balancer
  imports Rust_Text
begin

text \<open>
  \<open>cf_balancer.rs\<close>: the order in which the CF Worker and CF Proxy domains of a datacenter are
  tried. The statics are the record \<open>balancer\<close>; the round-robin counters, bumped once per new
  datacenter, are naturals. \<open>None\<close> in the index maps is a datacenter without a cursor.
\<close>

section \<open>State and operations\<close>

record balancer =
  ba_workers :: "string list"
  ba_proxies :: "string list"
  ba_worker_rr :: nat
  ba_proxy_rr :: nat
  ba_worker_idx :: "int \<rightharpoonup> nat"
  ba_proxy_idx :: "int \<rightharpoonup> nat"
  ba_sticky :: "int \<rightharpoonup> string"

definition init_balancer :: balancer where
  "init_balancer = \<lparr>ba_workers = [], ba_proxies = [], ba_worker_rr = 0, ba_proxy_rr = 0,
     ba_worker_idx = Map.empty, ba_proxy_idx = Map.empty, ba_sticky = Map.empty\<rparr>"

definition set_worker_domains :: "string list \<Rightarrow> balancer \<Rightarrow> balancer" where
  "set_worker_domains domains s =
     s\<lparr>ba_workers := domains, ba_worker_rr := 0, ba_worker_idx := Map.empty\<rparr>"

definition set_proxy_domains :: "string list \<Rightarrow> balancer \<Rightarrow> balancer" where
  "set_proxy_domains domains s = s\<lparr>ba_proxies := domains\<rparr>"

definition flag_set :: "string option \<Rightarrow> bool" where
  "flag_set v \<longleftrightarrow> (case v of Some v \<Rightarrow> v = ''1'' \<or> eq_ignore_ascii_case v ''true'' | None \<Rightarrow> False)"

definition cf_fallback_disabled :: "(string \<Rightarrow> string option) \<Rightarrow> bool" where
  "cf_fallback_disabled env \<longleftrightarrow> flag_set (env ''WRTG_NO_CFPROXY'')"

definition worker_passthrough_disabled :: "(string \<Rightarrow> string option) \<Rightarrow> bool" where
  "worker_passthrough_disabled env \<longleftrightarrow> flag_set (env ''WRTG_NO_WORKER_PASSTHROUGH'')"

definition dcs_without_fallback :: "int list \<Rightarrow> nat \<Rightarrow> nat \<Rightarrow> int list" where
  "dcs_without_fallback front_dcs workers proxies =
     (if workers > 0 \<or> proxies > 0 then []
      else filter (\<lambda>dc. dc \<notin> set front_dcs) [1, 2, 3, 4, 5])"

text \<open>The order, the new index map and the new counter.\<close>

definition ordered_domains ::
  "string list \<Rightarrow> int \<Rightarrow> (int \<rightharpoonup> nat) \<Rightarrow> nat \<Rightarrow> string list \<times> (int \<rightharpoonup> nat) \<times> nat" where
  "ordered_domains domains dc dc_map rr =
     (if domains = [] then ([], dc_map, rr)
      else if length domains = 1 then (domains, dc_map, rr)
      else
        let n = length domains;
            (idx, dc_map, rr) = (case dc_map dc of
               Some i \<Rightarrow> (i, dc_map, rr)
             | None \<Rightarrow> (rr mod n, dc_map(dc \<mapsto> rr mod n), rr + 1));
            start = idx mod n
        in (map (\<lambda>i. domains ! ((start + i) mod n)) [0..<n], dc_map, rr))"

definition worker_domains_for_dc :: "int \<Rightarrow> balancer \<Rightarrow> string list \<times> balancer" where
  "worker_domains_for_dc dc s =
     (case ordered_domains (ba_workers s) dc (ba_worker_idx s) (ba_worker_rr s) of
        (out, m, rr) \<Rightarrow> (out, s\<lparr>ba_worker_idx := m, ba_worker_rr := rr\<rparr>))"

definition proxy_domains_for_dc :: "int \<Rightarrow> balancer \<Rightarrow> string list \<times> balancer" where
  "proxy_domains_for_dc dc s =
     (case ordered_domains (ba_proxies s) dc (ba_proxy_idx s) (ba_proxy_rr s) of
        (ordered, m, rr) \<Rightarrow>
          ((case ba_sticky s dc of
              Some sticky_domain \<Rightarrow>
                if sticky_domain \<in> set (ba_proxies s)
                then fold push_new ordered [sticky_domain] else ordered
            | None \<Rightarrow> ordered),
           s\<lparr>ba_proxy_idx := m, ba_proxy_rr := rr\<rparr>))"

definition update_proxy_domain_for_dc :: "int \<Rightarrow> string \<Rightarrow> balancer \<Rightarrow> balancer" where
  "update_proxy_domain_for_dc dc domain s =
     (let domain = to_ascii_lowercase (trim domain)
      in if domain = '''' then s
         else if ba_sticky s dc = Some domain then s
         else s\<lparr>ba_sticky := (ba_sticky s)(dc \<mapsto> domain)\<rparr>)"

text \<open>\<open>domains.get(i)\<close>\<close>

definition list_get :: "'a list \<Rightarrow> nat \<Rightarrow> 'a option" where
  "list_get xs i = (if i < length xs then Some (xs ! i) else None)"

definition advance_proxy_domains_for_dc :: "int \<Rightarrow> nat \<Rightarrow> balancer \<Rightarrow> balancer" where
  "advance_proxy_domains_for_dc dc by s =
     (let sticky = ba_sticky s dc; domains = ba_proxies s; len = max (length domains) 1;
          (idx, rr) = (case ba_proxy_idx s dc of
             Some i \<Rightarrow> (i, ba_proxy_rr s)
           | None \<Rightarrow> (ba_proxy_rr s mod len, ba_proxy_rr s + 1));
          idx = (idx + by) mod len;
          idx = (if list_get domains idx = sticky then (idx + 1) mod len else idx)
      in s\<lparr>ba_sticky := (ba_sticky s)(dc := None), ba_proxy_rr := rr,
           ba_proxy_idx := (ba_proxy_idx s)(dc \<mapsto> idx)\<rparr>)"

text \<open>The pairs of a map in key order, for a finite set of datacenters \<open>dcs\<close> that covers it.\<close>

definition proxy_sticky_domains :: "int list \<Rightarrow> balancer \<Rightarrow> (int \<times> string) list" where
  "proxy_sticky_domains dcs s =
     concat (map (\<lambda>dc. case ba_sticky s dc of Some d \<Rightarrow> [(dc, d)] | None \<Rightarrow> []) (sort (remdups dcs)))"

definition sanitize_domain :: "string \<Rightarrow> string" where
  "sanitize_domain s =
     (let s = trim s;
          s = (case split_once ''://'' s of Some (_, rest) \<Rightarrow> rest | None \<Rightarrow> s);
          host = hd (split_on (\<lambda>c. c = CHR ''/'' \<or> c = CHR ''?'' \<or> c = CHR ''#'') s)
      in trim_end_matches (CHR ''.'') (trim host))"

definition parse_domain_list :: "string \<Rightarrow> string list" where
  "parse_domain_list raw =
     filter (\<lambda>s. s \<noteq> '''')
       (map sanitize_domain
         (filter (\<lambda>s. s \<noteq> '''')
           (map (\<lambda>s. trim_matches (CHR 0x0D) (trim_matches (CHR 0x22) (trim s)))
             (split_on (\<lambda>c. c = CHR '','' \<or> c = CHR '';'' \<or> c = CHR '' '') raw))))"

section \<open>Rotations\<close>

definition rot :: "nat \<Rightarrow> 'a list \<Rightarrow> 'a list" where
  "rot s xs = map (\<lambda>i. xs ! ((s + i) mod length xs)) [0..<length xs]"

lemma rot_rotate: "rot s xs = rotate s xs"
  by (simp add: rot_def rotate_nth_eq)

lemma set_rot [simp]: "set (rot s xs) = set xs"
  by (simp add: rot_rotate)

lemma distinct_rot [simp]: "distinct (rot s xs) = distinct xs"
  by (simp add: rot_rotate)

lemma length_rot [simp]: "length (rot s xs) = length xs"
  by (simp add: rot_def)

lemma nth_rot: "i < length xs \<Longrightarrow> rot s xs ! i = xs ! ((s + i) mod length xs)"
  by (simp add: rot_def)

lemma rot_mod: "rot (s mod length xs) xs = rot s xs"
  by (simp add: rot_def mod_add_left_eq)

lemma mod_inj:
  assumes "i < n" and "j < n" and "(s + i) mod n = (s + j) mod (n :: nat)" shows "i = j"
proof -
  have "rotate s [0..<n] ! i = rotate s [0..<n] ! j"
    using assms by (simp add: nth_rotate)
  with assms(1,2) show ?thesis using nth_eq_iff_index_eq [of "rotate s [0..<n]"] by simp
qed

definition cursor :: "nat \<Rightarrow> (int \<rightharpoonup> nat) \<Rightarrow> nat \<Rightarrow> int \<Rightarrow> nat" where
  "cursor n m rr dc = (case m dc of Some i \<Rightarrow> i mod n | None \<Rightarrow> rr mod n)"

lemma ordered_domains_rot:
  "fst (ordered_domains domains dc m rr) = rot (cursor (length domains) m rr dc) domains"
  by (cases domains) (auto simp: ordered_domains_def cursor_def rot_def Let_def split: option.splits)

lemma ordered_domains_cursor:
  "case snd (ordered_domains domains dc m rr) of
     (m', rr') \<Rightarrow> cursor (length domains) m' rr' dc = cursor (length domains) m rr dc"
  by (auto simp: ordered_domains_def cursor_def Let_def split: option.splits prod.splits)


text \<open>The list a session gets, and that asking again gives the same list.\<close>

definition proxy_cursor :: "int \<Rightarrow> balancer \<Rightarrow> nat" where
  "proxy_cursor dc s = cursor (length (ba_proxies s)) (ba_proxy_idx s) (ba_proxy_rr s) dc"

lemma proxy_order:
  "fst (proxy_domains_for_dc dc s) =
    (case ba_sticky s dc of
       Some x \<Rightarrow> if x \<in> set (ba_proxies s) then fold push_new (rot (proxy_cursor dc s) (ba_proxies s)) [x]
                else rot (proxy_cursor dc s) (ba_proxies s)
     | None \<Rightarrow> rot (proxy_cursor dc s) (ba_proxies s))"
  unfolding proxy_domains_for_dc_def proxy_cursor_def
  by (simp add: case_prod_unfold ordered_domains_rot split: option.split)

lemma proxy_state:
  "ba_proxies (snd (proxy_domains_for_dc dc s)) = ba_proxies s"
  "ba_sticky (snd (proxy_domains_for_dc dc s)) = ba_sticky s"
  "proxy_cursor dc (snd (proxy_domains_for_dc dc s)) = proxy_cursor dc s"
  using ordered_domains_cursor [of "ba_proxies s" dc "ba_proxy_idx s" "ba_proxy_rr s"]
  by (simp_all add: proxy_domains_for_dc_def proxy_cursor_def case_prod_unfold)

lemma fold_push_new_distinct:
  "distinct xs \<Longrightarrow> set xs \<inter> set out = {} \<Longrightarrow> fold push_new xs out = out @ xs"
  by (induction xs arbitrary: out) (auto simp: push_new_def)

lemma fold_push_new_head:
  assumes "distinct xs"
  shows "fold push_new xs [x] = x # filter (\<lambda>y. y \<noteq> x) xs"
proof -
  have "fold push_new xs out = out @ filter (\<lambda>y. y \<noteq> x) xs"
    if "distinct xs" "x \<in> set out" "set xs \<inter> set out \<subseteq> {x}" for out
    using that
  proof (induction xs arbitrary: out)
    case (Cons y ys)
    then show ?case by (cases "y = x") (auto simp: push_new_def)
  qed simp
  from this [of "[x]"] assms show ?thesis by auto
qed

text \<open>Dropping one element shifts a prefix by at most one place.\<close>

lemma take_filter_one:
  "distinct xs \<Longrightarrow> set (take k (filter (\<lambda>y. y \<noteq> x) xs)) \<subseteq> set (take (Suc k) xs)"
proof (induction xs arbitrary: k)
  case (Cons y ys)
  show ?case
  proof (cases "y = x")
    case True
    with Cons.prems have "filter (\<lambda>y. y \<noteq> x) ys = ys" by (auto simp: filter_id_conv)
    with True show ?thesis by auto
  next
    case False
    with Cons show ?thesis by (cases k) auto
  qed
qed simp

lemma advance_cursor:
  fixes dc :: int
  assumes "ba_proxies s \<noteq> []"
  defines "n \<equiv> length (ba_proxies s)" and "c \<equiv> proxy_cursor dc s"
  shows "proxy_cursor dc (advance_proxy_domains_for_dc dc w s) =
      (if Some (ba_proxies s ! ((c + w) mod n)) = ba_sticky s dc then (c + w + 1) mod n else (c + w) mod n)"
    and "ba_proxies (advance_proxy_domains_for_dc dc w s) = ba_proxies s"
    and "ba_sticky (advance_proxy_domains_for_dc dc w s) dc = None"
proof -
  have n: "0 < n" using assms(1) by (simp add: n_def)
  then have n1: "max n 1 = n" by simp
  have e: "((case ba_proxy_idx s dc of Some i \<Rightarrow> (i, ba_proxy_rr s)
      | None \<Rightarrow> (ba_proxy_rr s mod n, ba_proxy_rr s + 1))) =
    ((case ba_proxy_idx s dc of Some i \<Rightarrow> i | None \<Rightarrow> ba_proxy_rr s mod n),
     (case ba_proxy_idx s dc of Some i \<Rightarrow> ba_proxy_rr s | None \<Rightarrow> ba_proxy_rr s + 1))"
    by (simp split: option.splits)
  have c: "((case ba_proxy_idx s dc of Some i \<Rightarrow> i | None \<Rightarrow> ba_proxy_rr s mod n) + w) mod n = (c + w) mod n"
    by (auto simp: c_def proxy_cursor_def cursor_def n_def mod_simps split: option.splits)
  have lt: "(c + w) mod n < length (ba_proxies s)" using n by (simp add: n_def)
  show "proxy_cursor dc (advance_proxy_domains_for_dc dc w s) =
      (if Some (ba_proxies s ! ((c + w) mod n)) = ba_sticky s dc then (c + w + 1) mod n else (c + w) mod n)"
    unfolding advance_proxy_domains_for_dc_def Let_def n_def [symmetric] n1 e prod.case c
    using lt by (simp add: proxy_cursor_def cursor_def list_get_def n_def mod_Suc_eq)
  show "ba_proxies (advance_proxy_domains_for_dc dc w s) = ba_proxies s"
    and "ba_sticky (advance_proxy_domains_for_dc dc w s) dc = None"
    by (simp_all add: advance_proxy_domains_for_dc_def Let_def case_prod_unfold)
qed

lemma tried_window:
  assumes "distinct (ba_proxies s)" and "0 < w" and "w \<le> length (ba_proxies s)"
  shows "set (take w (fst (proxy_domains_for_dc dc s))) \<subseteq>
    (\<lambda>i. ba_proxies s ! ((proxy_cursor dc s + i) mod length (ba_proxies s))) ` {..<w} \<union>
    set_option (ba_sticky s dc)"
proof -
  let ?n = "length (ba_proxies s)" and ?c = "proxy_cursor dc s"
  have win: "set (take w (rot ?c (ba_proxies s))) \<subseteq>
      (\<lambda>i. ba_proxies s ! ((?c + i) mod ?n)) ` {..<w}"
    using assms(3) by (auto simp: in_set_conv_nth nth_rot)
  show ?thesis
  proof (cases "\<exists>x. ba_sticky s dc = Some x \<and> x \<in> set (ba_proxies s)")
    case True
    then obtain x where x: "ba_sticky s dc = Some x" "x \<in> set (ba_proxies s)" by blast
    obtain k where k: "w = Suc k" using assms(2) by (cases w) auto
    have "set (take k (filter (\<lambda>y. y \<noteq> x) (rot ?c (ba_proxies s)))) \<subseteq> set (take w (rot ?c (ba_proxies s)))"
      unfolding k by (rule take_filter_one) (simp add: assms(1))
    with x win k assms(1) show ?thesis by (auto simp: proxy_order fold_push_new_head)
  next
    case False
    then have "fst (proxy_domains_for_dc dc s) = rot ?c (ba_proxies s)"
      by (auto simp: proxy_order split: option.splits)
    with win show ?thesis by auto
  qed
qed

section \<open>Properties\<close>

text \<open>
  The order a session gets is complete and without repetition: it lists every domain of the
  pool exactly once, the domain that last worked for this datacenter first if it is still in the
  pool; and asking again gives the same list.
\<close>

lemma proxy_order_complete:
  assumes "distinct (ba_proxies s)"
  shows "distinct (fst (proxy_domains_for_dc dc s))
    \<and> set (fst (proxy_domains_for_dc dc s)) = set (ba_proxies s)
    \<and> (case ba_sticky s dc of
         Some x \<Rightarrow> if x \<in> set (ba_proxies s) then hd (fst (proxy_domains_for_dc dc s)) = x else True
       | None \<Rightarrow> True)
    \<and> fst (proxy_domains_for_dc dc (snd (proxy_domains_for_dc dc s))) = fst (proxy_domains_for_dc dc s)"
proof -
  have "distinct (fst (proxy_domains_for_dc dc s))"
    "set (fst (proxy_domains_for_dc dc s)) = set (ba_proxies s)"
    using assms by (auto simp: proxy_order fold_push_new_head split: option.splits)
  then show ?thesis
    using assms by (simp add: proxy_order proxy_state fold_push_new_head split: option.split)
qed

definition sample_balancer :: balancer where
  "sample_balancer = init_balancer\<lparr>ba_proxies := [''a'', ''b'', ''c'', ''d''], ba_sticky := [2 \<mapsto> ''d'']\<rparr>"

lemma proxy_order_complete_witness:
  "fst (proxy_domains_for_dc 2 sample_balancer) = [''d'', ''a'', ''b'', ''c''] \<and>
   set (fst (proxy_domains_for_dc 2 sample_balancer)) = {''a'', ''b'', ''c'', ''d''}"
proof
  show "fst (proxy_domains_for_dc 2 sample_balancer) = [''d'', ''a'', ''b'', ''c'']"
    by (simp add: proxy_domains_for_dc_def sample_balancer_def init_balancer_def
        ordered_domains_def push_new_def upt_rec_numeral)
  show "set (fst (proxy_domains_for_dc 2 sample_balancer)) = {''a'', ''b'', ''c'', ''d''}"
    using proxy_order_complete [of sample_balancer 2] by (simp add: sample_balancer_def init_balancer_def)
qed

text \<open>
  After a round in which the first \<open>w\<close> domains failed, the next session of that datacenter
  starts on a domain that did not fail, if the pool holds at least \<open>w + 2\<close> domains.
\<close>

lemma next_session_starts_fresh:
  assumes "distinct (ba_proxies s)" and "0 < w" and "w + 2 \<le> length (ba_proxies s)"
  shows "hd (fst (proxy_domains_for_dc dc (advance_proxy_domains_for_dc dc w s)))
    \<notin> set (take w (fst (proxy_domains_for_dc dc s)))"
proof -
  let ?p = "ba_proxies s"
  let ?n = "length ?p" and ?c = "proxy_cursor dc s"
  define e where "e = (if Some (?p ! ((?c + w) mod ?n)) = ba_sticky s dc then w + 1 else w)"
  have ne: "?p \<noteq> []" using assms(3) by auto
  have e: "w \<le> e" "e < ?n" using assms(3) by (auto simp: e_def)
  have cur: "proxy_cursor dc (advance_proxy_domains_for_dc dc w s) = (?c + e) mod ?n"
    using advance_cursor(1) [OF ne, of dc w] by (simp add: e_def)
  have "fst (proxy_domains_for_dc dc (advance_proxy_domains_for_dc dc w s)) = rot ((?c + e) mod ?n) ?p"
    unfolding proxy_order by (simp add: advance_cursor(2,3) [OF ne] cur)
  moreover have "hd (rot ((?c + e) mod ?n) ?p) = ?p ! ((?c + e) mod ?n)"
    using ne by (simp add: hd_conv_nth nth_rot rot_mod flip: length_greater_0_conv)
  ultimately have hd: "hd (fst (proxy_domains_for_dc dc (advance_proxy_domains_for_dc dc w s))) =
      ?p ! ((?c + e) mod ?n)" by simp
  have idx: "(?c + i) mod ?n < ?n" for i using ne by simp
  have "?p ! ((?c + e) mod ?n) \<noteq> ?p ! ((?c + i) mod ?n)" if "i < ?n" "i \<noteq> e" for i
    using that mod_inj [OF that(1) e(2), of ?c] nth_eq_iff_index_eq [OF assms(1) idx idx]
    by auto
  note other = this
  have "?p ! ((?c + e) mod ?n) \<notin> (\<lambda>i. ?p ! ((?c + i) mod ?n)) ` {..<w}"
  proof
    assume "?p ! ((?c + e) mod ?n) \<in> (\<lambda>i. ?p ! ((?c + i) mod ?n)) ` {..<w}"
    then obtain i where "i < w" "?p ! ((?c + e) mod ?n) = ?p ! ((?c + i) mod ?n)" by blast
    with other [of i] e show False by simp
  qed
  moreover have "?p ! ((?c + e) mod ?n) \<notin> set_option (ba_sticky s dc)"
    using other [of w] assms(3) by (auto simp: e_def split: if_splits)
  ultimately show ?thesis
    using tried_window [OF assms(1,2), of dc] assms(3) unfolding hd by auto
qed

lemma next_session_starts_fresh_witness:
  "hd (fst (proxy_domains_for_dc 2 (advance_proxy_domains_for_dc 2 2 sample_balancer)))
    \<notin> set (take 2 (fst (proxy_domains_for_dc 2 sample_balancer)))"
  by (rule next_session_starts_fresh) (simp_all add: sample_balancer_def init_balancer_def)

text \<open>
  The bound is sharp: with \<open>w + 1\<close> domains, the sticky one just past the window, the cursor
  skips the only untried domain's neighbour and comes back to one that has just failed.
\<close>

lemma next_session_repeats_failed:
  "let s = sample_balancer in
     hd (fst (proxy_domains_for_dc 2 (advance_proxy_domains_for_dc 2 3 s)))
       \<in> set (take 3 (fst (proxy_domains_for_dc 2 s)))"
  by (simp add: proxy_domains_for_dc_def advance_proxy_domains_for_dc_def sample_balancer_def
      init_balancer_def ordered_domains_def push_new_def upt_rec_numeral list_get_def)

definition failing_session :: "int \<Rightarrow> nat \<Rightarrow> balancer \<Rightarrow> balancer" where
  "failing_session dc w s = advance_proxy_domains_for_dc dc w (snd (proxy_domains_for_dc dc s))"

lemma failing_sessions_state:
  assumes "ba_proxies s \<noteq> []" and "ba_sticky s dc = None"
  defines "n \<equiv> length (ba_proxies s)"
  shows "ba_proxies ((failing_session dc w ^^ k) s) = ba_proxies s \<and>
    ba_sticky ((failing_session dc w ^^ k) s) dc = None \<and>
    proxy_cursor dc ((failing_session dc w ^^ k) s) mod n = (proxy_cursor dc s + k * w) mod n"
proof (induction k)
  case (Suc k)
  define s' where "s' = snd (proxy_domains_for_dc dc ((failing_session dc w ^^ k) s))"
  have s': "ba_proxies s' = ba_proxies s" "ba_sticky s' dc = None"
    "proxy_cursor dc s' mod n = (proxy_cursor dc s + k * w) mod n"
    using Suc by (simp_all add: s'_def proxy_state)
  have "(proxy_cursor dc s' + w) mod n = (proxy_cursor dc s + k * w + w) mod n"
    using s'(3) by (metis mod_add_left_eq)
  then show ?case
    using advance_cursor [of s' dc w] s' assms(1)
    by (simp add: s'_def [symmetric] n_def ac_simps
        failing_session_def [of dc w "(failing_session dc w ^^ k) s" for k])
qed (simp add: assms(2))

text \<open>
  C32: No domain is starved: if every session of a datacenter fails with its whole window of \<open>w\<close>
  domains, each domain of the pool is tried by one of the first sessions, before the number of
  domains tried so far reaches the size of the pool.
\<close>

theorem round_robin_covers_pool:
  assumes "d \<in> set (ba_proxies s)" and "ba_sticky s dc = None" and "0 < w"
  shows "\<exists>k. k * w < length (ba_proxies s) \<and>
    d \<in> set (take w (fst (proxy_domains_for_dc dc ((failing_session dc w ^^ k) s))))"
proof -
  let ?p = "ba_proxies s" and ?c = "proxy_cursor dc s"
  let ?n = "length ?p"
  have ne: "?p \<noteq> []" using assms(1) by auto
  obtain j where j: "j < ?n" "rot ?c ?p ! j = d"
    using assms(1) by (metis in_set_conv_nth length_rot set_rot)
  define k where "k = j div w"
  define i where "i = j mod w"
  have ji: "j = k * w + i" "i < w" using assms(3) by (simp_all add: k_def i_def)
  note st = failing_sessions_state [OF ne assms(2), where w = w and k = k]
  have "fst (proxy_domains_for_dc dc ((failing_session dc w ^^ k) s)) =
      rot (proxy_cursor dc ((failing_session dc w ^^ k) s)) ?p"
    using st by (simp add: proxy_order)
  also have "\<dots> = rot ((?c + k * w) mod ?n) ?p"
    using st by (metis rot_mod)
  finally have order: "fst (proxy_domains_for_dc dc ((failing_session dc w ^^ k) s)) = rot (?c + k * w) ?p"
    by (simp add: rot_mod)
  have i: "i < ?n" using j(1) ji(1) by linarith
  have "rot (?c + k * w) ?p ! i = d"
    using j i ji(1) by (simp add: nth_rot ac_simps)
  then have "d \<in> set (take w (rot (?c + k * w) ?p))"
    using i ji(2) by (metis (no_types, lifting) in_set_conv_nth length_rot length_take min_less_iff_conj nth_take)
  with order j(1) ji(1) show ?thesis by (intro exI [of _ k]) auto
qed

theorem round_robin_covers_pool_witness:
  "\<exists>k. k * 3 < 4 \<and> ''d'' \<in> set (take 3 (fst (proxy_domains_for_dc 1
     ((failing_session 1 3 ^^ k) sample_balancer))))"
proof -
  have "''d'' \<in> set (ba_proxies sample_balancer)" "ba_sticky sample_balancer 1 = None"
    "length (ba_proxies sample_balancer) = 4"
    by (simp_all add: sample_balancer_def init_balancer_def)
  with round_robin_covers_pool [of "''d''" sample_balancer 1 3] show ?thesis by simp
qed

end
