(* ===== verification/Conn_Pool.thy ===== *)
theory Conn_Pool
  imports Rust_Prelude "HOL-Library.Product_Lexorder"
begin

text \<open>
  \<open>conn_pool.rs\<close>: the pool of ready connections per slot \<open>(dc, is_media)\<close>. Each critical section
  of the source, from taking the lock to releasing it, is one function on the slot map; the
  asynchronous tasks around them are the step relation \<open>pool_step\<close>, in which critical sections
  of any number of refill tasks and sessions interleave. A socket is its identity, a natural
  number that no other socket has. What a section returns to be closed is closed by the task that
  called it; the step counts it as closed at once. The \<open>ttl\<close>, the size and the flags are
  constants of the pool.
\<close>

section \<open>State\<close>

type_synonym key = "int \<times> bool"

record pooled =
  po_ws :: nat
  po_created :: nat
  po_label :: string

record slot =
  sl_conns :: "pooled list"
  sl_last_used :: nat

type_synonym slots = "key \<rightharpoonup> slot"

record pool_cfg =
  pc_size :: nat
  pc_ttl :: nat
  pc_serves_media :: bool

definition SLOT_IDLE_AFTER :: nat where "SLOT_IDLE_AFTER = 600 * NANOS"

definition default_slot :: "nat \<Rightarrow> slot" where
  "default_slot now = \<lparr>sl_conns = [], sl_last_used = now\<rparr>"

text \<open>\<open>entry(key).or_default()\<close>\<close>

definition slot_of :: "nat \<Rightarrow> key \<Rightarrow> slots \<Rightarrow> slot" where
  "slot_of now k slots = (case slots k of Some sl \<Rightarrow> sl | None \<Rightarrow> default_slot now)"

section \<open>The critical sections\<close>

text \<open>\<open>take_expired\<close> at one instant: the fresh entries and the expired ones, in order.\<close>

definition take_expired :: "pooled list \<Rightarrow> nat \<Rightarrow> nat \<Rightarrow> pooled list \<times> pooled list" where
  "take_expired v ttl now = partition (\<lambda>e. now - po_created e \<le> ttl) v"

text \<open>\<open>acquire\<close>: the connection handed out, the expired ones to close, the new slots.\<close>

definition pool_acquire ::
  "pool_cfg \<Rightarrow> nat \<Rightarrow> int \<Rightarrow> bool \<Rightarrow> slots \<Rightarrow> pooled option \<times> pooled list \<times> slots" where
  "pool_acquire c now dc is_media slots =
     (if is_media \<and> \<not> pc_serves_media c then (None, [], slots)
      else case slots (dc, is_media) of
             None \<Rightarrow> (None, [], slots)
           | Some slot \<Rightarrow>
               (case take_expired (sl_conns slot) (pc_ttl c) now of
                  (fresh, expired) \<Rightarrow>
                    (if fresh = [] then None else Some (last fresh), expired,
                     slots((dc, is_media) \<mapsto>
                       \<lparr>sl_conns = butlast fresh, sl_last_used = now\<rparr>))))"

text \<open>
  The section of \<open>fill\<close> after a successful connect: the socket to close when the slot is
  already full, the expired connections to close, the new slots.
\<close>

definition fill_push ::
  "pool_cfg \<Rightarrow> nat \<Rightarrow> key \<Rightarrow> nat \<Rightarrow> string \<Rightarrow> slots \<Rightarrow> nat option \<times> pooled list \<times> slots" where
  "fill_push c now k ws label slots =
     (let slot = slot_of now k slots
      in case take_expired (sl_conns slot) (pc_ttl c) now of
           (fresh, expired) \<Rightarrow>
             if length fresh \<ge> pc_size c
             then (Some ws, expired, slots(k \<mapsto> slot\<lparr>sl_conns := fresh\<rparr>))
             else (None, expired,
                   slots(k \<mapsto> slot\<lparr>sl_conns :=
                     fresh @ [\<lparr>po_ws = ws, po_created = now, po_label = label\<rparr>]\<rparr>)))"

text \<open>The first section of \<open>refill_one\<close>: how many connections to make, and the new slots.\<close>

definition refill_begin :: "pool_cfg \<Rightarrow> nat \<Rightarrow> key \<Rightarrow> slots \<Rightarrow> nat \<times> slots" where
  "refill_begin c now k slots =
     (let slot = slot_of now k slots
      in (pc_size c - length (sl_conns slot), slots(k \<mapsto> slot\<lparr>sl_last_used := now\<rparr>)))"

definition accepts :: "pool_cfg \<Rightarrow> bool \<Rightarrow> bool" where
  "accepts c is_media \<longleftrightarrow> \<not> (is_media \<and> \<not> pc_serves_media c)"

text \<open>
  \<open>active_slots\<close>: the keys are listed by the caller (\<open>keys\<close> holds the keys of the map, in the
  order of its iteration). The active keys, the expired connections, the new slots.
\<close>

definition reap_slot :: "pool_cfg \<Rightarrow> nat \<Rightarrow> slot \<Rightarrow> slot" where
  "reap_slot c now sl = sl\<lparr>sl_conns := fst (take_expired (sl_conns sl) (pc_ttl c) now)\<rparr>"

definition active_slots ::
  "pool_cfg \<Rightarrow> nat \<Rightarrow> key list \<Rightarrow> slots \<Rightarrow> key list \<times> pooled list \<times> slots" where
  "active_slots c now keys slots =
     (filter (\<lambda>k. case slots k of Some sl \<Rightarrow> now - sl_last_used sl \<le> SLOT_IDLE_AFTER | None \<Rightarrow> False) keys,
      concat (map (\<lambda>k. case slots k of Some sl \<Rightarrow> snd (take_expired (sl_conns sl) (pc_ttl c) now) | None \<Rightarrow> [])
        keys),
      (\<lambda>k. map_option (reap_slot c now) (slots k)))"

definition depths :: "key list \<Rightarrow> slots \<Rightarrow> (int \<times> bool \<times> nat) list" where
  "depths keys slots =
     sort (map (\<lambda>k. (fst k, snd k, case slots k of Some sl \<Rightarrow> length (sl_conns sl) | None \<Rightarrow> 0)) keys)"

section \<open>One task on its own\<close>

text \<open>
  The loops between the critical sections, when no other task runs: \<open>con i\<close> is the outcome of the
  \<open>i\<close>-th dial and \<open>clk i\<close> the clock at its end, \<open>i\<close> the number of dials so far. The results are the
  next number, the sockets that were closed and the slots.
\<close>

fun pool_fill ::
  "pool_cfg \<Rightarrow> (nat \<Rightarrow> (nat \<times> string) option) \<Rightarrow> (nat \<Rightarrow> nat) \<Rightarrow> nat \<Rightarrow> key \<Rightarrow> nat \<Rightarrow> slots
   \<Rightarrow> nat \<times> nat list \<times> slots" where
  "pool_fill c con clk i k 0 slots = (i, [], slots)"
| "pool_fill c con clk i k (Suc n) slots =
     (case con i of
        None \<Rightarrow> pool_fill c con clk (i + 1) k n slots
      | Some (ws, label) \<Rightarrow>
          (case fill_push c (clk i) k ws label slots of
             (Some spare, expired, slots) \<Rightarrow> (i + 1, map po_ws expired @ [spare], slots)
           | (None, expired, slots) \<Rightarrow>
               (case pool_fill c con clk (i + 1) k n slots of
                  (j, closed, slots) \<Rightarrow> (j, map po_ws expired @ closed, slots))))"

definition refill_one ::
  "pool_cfg \<Rightarrow> (nat \<Rightarrow> (nat \<times> string) option) \<Rightarrow> (nat \<Rightarrow> nat) \<Rightarrow> nat \<Rightarrow> key \<Rightarrow> slots
   \<Rightarrow> nat \<times> nat list \<times> slots" where
  "refill_one c con clk i k slots =
     (case refill_begin c (clk i) k slots of (need, slots) \<Rightarrow> pool_fill c con clk i k need slots)"

fun refill_all ::
  "pool_cfg \<Rightarrow> (nat \<Rightarrow> (nat \<times> string) option) \<Rightarrow> (nat \<Rightarrow> nat) \<Rightarrow> nat \<Rightarrow> key list \<Rightarrow> slots
   \<Rightarrow> nat \<times> nat list \<times> slots" where
  "refill_all c con clk i [] slots = (i, [], slots)"
| "refill_all c con clk i (k # ks) slots =
     (case refill_one c con clk i k slots of
        (i, closed, slots) \<Rightarrow>
          (case refill_all c con clk i ks slots of (j, closed2, slots) \<Rightarrow> (j, closed @ closed2, slots)))"

text \<open>Whether a one-off refill is started for a slot, and what it does.\<close>

definition schedule_refill ::
  "pool_cfg \<Rightarrow> (nat \<Rightarrow> (nat \<times> string) option) \<Rightarrow> (nat \<Rightarrow> nat) \<Rightarrow> int \<Rightarrow> bool \<Rightarrow> slots \<Rightarrow> nat list \<times> slots" where
  "schedule_refill c con clk dc is_media slots =
     (if \<not> accepts c is_media then ([], slots) else snd (refill_one c con clk 0 (dc, is_media) slots))"

definition pool_warmup ::
  "pool_cfg \<Rightarrow> bool \<Rightarrow> key list \<Rightarrow> (nat \<Rightarrow> (nat \<times> string) option) \<Rightarrow> (nat \<Rightarrow> nat) \<Rightarrow> slots \<Rightarrow> nat list \<times> slots" where
  "pool_warmup c enabled seeds con clk slots =
     (if \<not> enabled then ([], slots)
      else if seeds = [] then ([], slots)
      else snd (refill_all c con clk 0 seeds slots))"

text \<open>One turn of the refill task; \<open>now\<close> is the clock at its sweep, \<open>keys\<close> the slots there are.\<close>

definition refill_tick ::
  "pool_cfg \<Rightarrow> bool \<Rightarrow> nat \<Rightarrow> key list \<Rightarrow> (nat \<Rightarrow> (nat \<times> string) option) \<Rightarrow> (nat \<Rightarrow> nat) \<Rightarrow> slots
   \<Rightarrow> nat list \<times> slots" where
  "refill_tick c enabled now keys con clk slots =
     (if \<not> enabled then ([], slots)
      else case active_slots c now keys slots of
             (active, expired, slots) \<Rightarrow>
               (case refill_all c con clk 0 active slots of (j, closed, slots) \<Rightarrow> (map po_ws expired @ closed, slots)))"

section \<open>The tasks\<close>

text \<open>
  The whole: the slots, the sockets handed to sessions, the closed ones, the running \<open>fill\<close>
  loops with the number of attempts each has left, and the clock.
\<close>

record pool_sys =
  ps_slots :: slots
  ps_handed :: "nat set"
  ps_closed :: "nat set"
  ps_created :: "nat set"
  ps_fills :: "(key \<times> nat) list"
  ps_now :: nat

definition ids :: "pooled list \<Rightarrow> nat set" where
  "ids ps = po_ws ` set ps"

inductive pool_step :: "pool_cfg \<Rightarrow> pool_sys \<Rightarrow> pool_sys \<Rightarrow> bool" for c where
  tick: "now \<ge> ps_now s \<Longrightarrow> pool_step c s (s\<lparr>ps_now := now\<rparr>)"
| refill: "refill_begin c (ps_now s) k (ps_slots s) = (need, sl) \<Longrightarrow>
    pool_step c s (s\<lparr>ps_slots := sl, ps_fills := (if need > 0 then (k, need) # ps_fills s else ps_fills s)\<rparr>)"
| connect_failed: "ps_fills s = fs @ (k, Suc n) # gs \<Longrightarrow>
    pool_step c s (s\<lparr>ps_fills := fs @ (k, n) # gs\<rparr>)"
| connected: "ps_fills s = fs @ (k, Suc n) # gs \<Longrightarrow> ws \<notin> ps_created s \<Longrightarrow>
    fill_push c (ps_now s) k ws label (ps_slots s) = (None, expired, sl) \<Longrightarrow>
    pool_step c s (s\<lparr>ps_slots := sl, ps_created := insert ws (ps_created s),
      ps_closed := ids expired \<union> ps_closed s, ps_fills := fs @ (k, n) # gs\<rparr>)"
| raced: "ps_fills s = fs @ (k, Suc n) # gs \<Longrightarrow> ws \<notin> ps_created s \<Longrightarrow>
    fill_push c (ps_now s) k ws label (ps_slots s) = (Some spare, expired, sl) \<Longrightarrow>
    pool_step c s (s\<lparr>ps_slots := sl, ps_created := insert ws (ps_created s),
      ps_closed := insert spare (ids expired \<union> ps_closed s), ps_fills := fs @ gs\<rparr>)"
| fill_done: "ps_fills s = fs @ (k, 0) # gs \<Longrightarrow> pool_step c s (s\<lparr>ps_fills := fs @ gs\<rparr>)"
| acquire: "pool_acquire c (ps_now s) dc m (ps_slots s) = (r, expired, sl) \<Longrightarrow>
    pool_step c s (s\<lparr>ps_slots := sl, ps_handed := ids (case r of Some p \<Rightarrow> [p] | None \<Rightarrow> []) \<union> ps_handed s,
      ps_closed := ids expired \<union> ps_closed s\<rparr>)"
| sweep: "active_slots c (ps_now s) keys (ps_slots s) = (active, expired, sl) \<Longrightarrow>
    set keys = dom (ps_slots s) \<Longrightarrow> distinct keys \<Longrightarrow>
    pool_step c s (s\<lparr>ps_slots := sl, ps_closed := ids expired \<union> ps_closed s\<rparr>)"

definition init_pool :: pool_sys where
  "init_pool = \<lparr>ps_slots = Map.empty, ps_handed = {}, ps_closed = {}, ps_created = {},
     ps_fills = [], ps_now = 0\<rparr>"

inductive pool_reachable :: "pool_cfg \<Rightarrow> pool_sys \<Rightarrow> bool" for c where
  init: "pool_reachable c init_pool"
| step: "pool_reachable c s \<Longrightarrow> pool_step c s s' \<Longrightarrow> pool_reachable c s'"

section \<open>The invariant\<close>

definition conns :: "slots \<Rightarrow> key \<Rightarrow> pooled list" where
  "conns slots k = (case slots k of Some sl \<Rightarrow> sl_conns sl | None \<Rightarrow> [])"

definition pool_inv :: "pool_cfg \<Rightarrow> pool_sys \<Rightarrow> bool" where
  "pool_inv c s \<longleftrightarrow>
     (\<forall>k. length (conns (ps_slots s) k) \<le> pc_size c) \<and>
     (\<forall>k. distinct (map po_ws (conns (ps_slots s) k))) \<and>
     (\<forall>k k'. k \<noteq> k' \<longrightarrow> ids (conns (ps_slots s) k) \<inter> ids (conns (ps_slots s) k') = {}) \<and>
     (\<forall>k. ids (conns (ps_slots s) k) \<inter> (ps_handed s \<union> ps_closed s) = {}) \<and>
     ps_handed s \<inter> ps_closed s = {} \<and>
     (\<Union>k. ids (conns (ps_slots s) k)) \<union> ps_handed s \<union> ps_closed s = ps_created s"


lemma conns_upd [simp]: "conns (slots(kk \<mapsto> sl)) k = (if k = kk then sl_conns sl else conns slots k)"
  by (simp add: conns_def)

lemma conns_empty [simp]: "conns Map.empty k = []"
  by (simp add: conns_def)

lemma conns_slot_of [simp]: "sl_conns (slot_of now k slots) = conns slots k"
  by (simp add: conns_def slot_of_def default_slot_def split: option.split)

lemma ids_simps [simp]: "ids [] = {}" "ids (p # ps) = insert (po_ws p) (ids ps)"
  "ids (ps @ qs) = ids ps \<union> ids qs"
  by (auto simp: ids_def)

lemma take_expired_parts:
  assumes "take_expired v ttl now = (fresh, expired)"
  shows "ids v = ids fresh \<union> ids expired" and "length fresh \<le> length v"
    and "distinct (map po_ws v) \<Longrightarrow> distinct (map po_ws fresh) \<and> ids fresh \<inter> ids expired = {}"
    and "p \<in> set fresh \<Longrightarrow> now - po_created p \<le> ttl"
proof -
  have f: "fresh = filter (\<lambda>e. now - po_created e \<le> ttl) v"
    and e: "expired = filter (\<lambda>e. \<not> now - po_created e \<le> ttl) v"
    using assms by (auto simp: take_expired_def comp_def)
  show "ids v = ids fresh \<union> ids expired" by (auto simp: ids_def f e)
  show "length fresh \<le> length v" by (simp add: f)
  show "distinct (map po_ws v) \<Longrightarrow> distinct (map po_ws fresh) \<and> ids fresh \<inter> ids expired = {}"
    by (auto simp: f e ids_def distinct_map inj_on_def)
  show "p \<in> set fresh \<Longrightarrow> now - po_created p \<le> ttl" by (simp add: f)
qed

lemma pool_invD:
  assumes "pool_inv c s"
  shows "length (conns (ps_slots s) k) \<le> pc_size c"
    and "distinct (map po_ws (conns (ps_slots s) k))"
    and "k \<noteq> k' \<Longrightarrow> ids (conns (ps_slots s) k) \<inter> ids (conns (ps_slots s) k') = {}"
    and "ids (conns (ps_slots s) k) \<inter> (ps_handed s \<union> ps_closed s) = {}"
    and "ps_handed s \<inter> ps_closed s = {}"
    and "(\<Union>k. ids (conns (ps_slots s) k)) \<union> ps_handed s \<union> ps_closed s = ps_created s"
    and "ids (conns (ps_slots s) k) \<subseteq> ps_created s"
proof -
  note inv = assms [unfolded pool_inv_def]
  show "length (conns (ps_slots s) k) \<le> pc_size c" using inv by (elim conjE) (erule spec)
  show "distinct (map po_ws (conns (ps_slots s) k))" using inv by (elim conjE) (erule spec)
  have "\<forall>k k'. k \<noteq> k' \<longrightarrow> ids (conns (ps_slots s) k) \<inter> ids (conns (ps_slots s) k') = {}"
    using inv by (elim conjE)
  then show "k \<noteq> k' \<Longrightarrow> ids (conns (ps_slots s) k) \<inter> ids (conns (ps_slots s) k') = {}"
    by blast
  show "ids (conns (ps_slots s) k) \<inter> (ps_handed s \<union> ps_closed s) = {}"
    using inv by (elim conjE) (erule spec)
  show "ps_handed s \<inter> ps_closed s = {}" using inv by (elim conjE)
  show all: "(\<Union>k. ids (conns (ps_slots s) k)) \<union> ps_handed s \<union> ps_closed s = ps_created s"
    using inv by (elim conjE)
  show "ids (conns (ps_slots s) k) \<subseteq> ps_created s" unfolding all [symmetric] by blast
qed

text \<open>One slot changes: its old connections and the newly created socket go to the slot, to a
  session or to be closed, each to one of them.\<close>

lemma set_shuffle:
  assumes "R \<union> n = N \<union> h \<union> d" and "U \<union> R \<union> H \<union> D = C"
  shows "U \<union> N \<union> (h \<union> H) \<union> (d \<union> D) = n \<union> C"
  using assms by blast

lemma disjoint_slot:
  "N \<subseteq> R \<union> n \<Longrightarrow> R \<inter> (H \<union> D) = {} \<Longrightarrow> N \<inter> h = {} \<Longrightarrow> N \<inter> d = {} \<Longrightarrow> H \<subseteq> C \<Longrightarrow> D \<subseteq> C \<Longrightarrow>
   n \<inter> C = {} \<Longrightarrow> N \<inter> (h \<union> H \<union> (d \<union> D)) = {}"
  by blast

lemma disjoint_other:
  "h \<subseteq> R \<union> n \<Longrightarrow> d \<subseteq> R \<union> n \<Longrightarrow> K \<inter> (H \<union> D) = {} \<Longrightarrow> K \<inter> R = {} \<Longrightarrow> K \<subseteq> C \<Longrightarrow> n \<inter> C = {} \<Longrightarrow>
   K \<inter> (h \<union> H \<union> (d \<union> D)) = {}"
  by blast

lemma disjoint_out:
  "h \<inter> d = {} \<Longrightarrow> h \<subseteq> R \<union> n \<Longrightarrow> d \<subseteq> R \<union> n \<Longrightarrow> R \<inter> (H \<union> D) = {} \<Longrightarrow> H \<inter> D = {} \<Longrightarrow> H \<subseteq> C \<Longrightarrow>
   D \<subseteq> C \<Longrightarrow> n \<inter> C = {} \<Longrightarrow> (h \<union> H) \<inter> (d \<union> D) = {}"
  by blast

lemma pool_inv_update:
  assumes inv: "pool_inv c s"
    and slots: "\<And>k. conns (ps_slots s') k = (if k = kk then new else conns (ps_slots s) k)"
    and new: "length new \<le> pc_size c" "distinct (map po_ws new)"
    and sets: "ps_handed s' = h \<union> ps_handed s" "ps_closed s' = d \<union> ps_closed s"
      "ps_created s' = n \<union> ps_created s" "n \<inter> ps_created s = {}"
    and moved: "ids (conns (ps_slots s) kk) \<union> n = ids new \<union> h \<union> d"
      "ids new \<inter> h = {}" "ids new \<inter> d = {}" "h \<inter> d = {}"
  shows "pool_inv c s'"
proof -
  let ?I = "\<lambda>k. ids (conns (ps_slots s) k)"
  note I = pool_invD(4) [OF inv] pool_invD(5) [OF inv] pool_invD(3) [OF inv] pool_invD(6) [OF inv]
    pool_invD(1) [OF inv] pool_invD(2) [OF inv]
  have sub: "?I k \<subseteq> ps_created s" for k by (rule pool_invD(7) [OF inv])
  have hd: "ps_handed s \<subseteq> ps_created s" "ps_closed s \<subseteq> ps_created s" using I(4) by blast+
  have new_ids: "ids new \<subseteq> ?I kk \<union> n" "h \<subseteq> ?I kk \<union> n" "d \<subseteq> ?I kk \<union> n" using moved(1) by blast+
  have "(\<Union>k. ids (conns (ps_slots s') k)) = (\<Union>k \<in> - {kk}. ?I k) \<union> ids new"
    unfolding slots by (auto simp del: split_paired_All split_paired_Ex split: if_splits)
  moreover have "(\<Union>k. ?I k) = (\<Union>k \<in> - {kk}. ?I k) \<union> ?I kk" by blast
  ultimately have all: "(\<Union>k. ids (conns (ps_slots s') k)) \<union> ps_handed s' \<union> ps_closed s' = ps_created s'"
    using set_shuffle [OF moved(1)] I(4) unfolding sets by simp
  have cross: "k \<noteq> kk \<Longrightarrow> ids new \<inter> ?I k = {}" for k
    using new_ids(1) I(3) [of kk k] sub [of k] sets(4) by blast
  have "ids (conns (ps_slots s') k) \<inter> ids (conns (ps_slots s') k') = {}"
    if "k \<noteq> k'" for k k'
    using cross [of k] cross [of k'] I(3) [OF that] that unfolding slots
    by (cases "k = kk"; cases "k' = kk") (simp_all add: Int_commute)
  moreover have "ids (conns (ps_slots s') k) \<inter> (ps_handed s' \<union> ps_closed s') = {}" for k
  proof (cases "k = kk")
    case True
    with disjoint_slot [OF new_ids(1) I(1) moved(2,3) hd sets(4)] show ?thesis
      by (simp only: sets slots simp_thms if_True)
  next
    case False
    from disjoint_other [OF new_ids(2,3) I(1) I(3) [OF False] sub sets(4)] False show ?thesis
      by (simp only: sets slots simp_thms if_False)
  qed
  moreover have "ps_handed s' \<inter> ps_closed s' = {}"
    unfolding sets by (rule disjoint_out [OF moved(4) new_ids(2,3) I(1) I(2) hd sets(4)])
  ultimately show ?thesis
    using all new I(5,6) unfolding pool_inv_def by (simp add: slots)
qed

lemma sweep_sets:
  fixes I F E :: "'k \<Rightarrow> 'a set"
  assumes I: "\<And>k. I k = F k \<union> E k" and "\<And>k. F k \<inter> E k = {}"
    and "\<And>k k'. k \<noteq> k' \<Longrightarrow> I k \<inter> I k' = {}" and "\<And>k. I k \<inter> (H \<union> D) = {}"
    and "(\<Union>k. I k) \<union> H \<union> D = C"
  shows "F k \<inter> (H \<union> ((\<Union>k. E k) \<union> D)) = {}" and "H \<inter> (\<Union>k. E k) = {}"
    and "k \<noteq> k' \<Longrightarrow> F k \<inter> F k' = {}" and "(\<Union>k. F k) \<union> H \<union> ((\<Union>k. E k) \<union> D) = C"
proof -
  have FE: "F k \<inter> E k' = {}" for k k' using assms(1-3) by (cases "k = k'") blast+
  have F: "F k \<inter> (H \<union> D) = {}" "E k \<inter> (H \<union> D) = {}" for k using assms(1,4) by blast+
  show "F k \<inter> (H \<union> ((\<Union>k. E k) \<union> D)) = {}" using FE F(1) by blast
  show "H \<inter> (\<Union>k. E k) = {}" using F(2) by blast
  show "k \<noteq> k' \<Longrightarrow> F k \<inter> F k' = {}" using assms(1,3) by blast
  have "(\<Union>k. I k) = (\<Union>k. F k) \<union> (\<Union>k. E k)" unfolding I by blast
  with assms(5) show "(\<Union>k. F k) \<union> H \<union> ((\<Union>k. E k) \<union> D) = C" by (simp add: Un_ac)
qed

lemma UN_outside:
  fixes E :: "'k \<Rightarrow> 'a set"
  assumes "\<And>k. k \<notin> K \<Longrightarrow> E k = {}" shows "(\<Union>k \<in> K. E k) = (\<Union>k. E k)"
  using assms by blast

lemma pool_inv_same:
  assumes "pool_inv c s" and "\<And>k. conns (ps_slots s') k = conns (ps_slots s) k"
    and "ps_handed s' = ps_handed s" "ps_closed s' = ps_closed s" "ps_created s' = ps_created s"
  shows "pool_inv c s'"
  using assms by (simp add: pool_inv_def)

lemma pool_connected_inv:
  assumes "ws \<notin> ps_created s"
    and "fill_push c (ps_now s) k ws label (ps_slots s) = (None, expired, sl)"
    and "pool_inv c s"
  shows "pool_inv c (s\<lparr>ps_slots := sl, ps_created := insert ws (ps_created s),
      ps_closed := ids expired \<union> ps_closed s, ps_fills := fills\<rparr>)"
proof -
  obtain fresh ex where t: "take_expired (conns (ps_slots s) k) (pc_ttl c) (ps_now s) = (fresh, ex)"
    by fastforce
  note parts = take_expired_parts [OF t]
  have inv: "distinct (map po_ws (conns (ps_slots s) k))" "ids (conns (ps_slots s) k) \<subseteq> ps_created s"
    using pool_invD [OF assms(3)] by simp_all
  from assms(2) t have room: "length fresh < pc_size c" and ex: "expired = ex"
    and sl: "sl = (ps_slots s)(k \<mapsto> (slot_of (ps_now s) k (ps_slots s))\<lparr>sl_conns :=
      fresh @ [\<lparr>po_ws = ws, po_created = ps_now s, po_label = label\<rparr>]\<rparr>)"
    by (auto simp: fill_push_def Let_def split: if_splits)
  have out: "ws \<notin> ids fresh" "ws \<notin> ids ex" using assms(1) inv(2) parts(1) by blast+
  show ?thesis
  proof (rule pool_inv_update [OF assms(3), where kk = k and h = "{}" and d = "ids ex" and n = "{ws}"
        and new = "fresh @ [\<lparr>po_ws = ws, po_created = ps_now s, po_label = label\<rparr>]"])
    show "distinct (map po_ws (fresh @ [\<lparr>po_ws = ws, po_created = ps_now s, po_label = label\<rparr>]))"
      using parts(3) [OF inv(1)] out by (auto simp: ids_def)
    show "ids (fresh @ [\<lparr>po_ws = ws, po_created = ps_now s, po_label = label\<rparr>]) \<inter> ids ex = {}"
      using parts(3) [OF inv(1)] out by auto
    show "ids (conns (ps_slots s) k) \<union> {ws} = ids (fresh @ [\<lparr>po_ws = ws, po_created = ps_now s,
        po_label = label\<rparr>]) \<union> {} \<union> ids ex"
      using parts(1) by auto
  qed (use room assms(1) ex in \<open>auto simp: sl\<close>)
qed

lemma pool_raced_inv:
  assumes "ws \<notin> ps_created s"
    and "fill_push c (ps_now s) k ws label (ps_slots s) = (Some spare, expired, sl)"
    and "pool_inv c s"
  shows "pool_inv c (s\<lparr>ps_slots := sl, ps_created := insert ws (ps_created s),
      ps_closed := insert spare (ids expired \<union> ps_closed s), ps_fills := fills\<rparr>)"
proof -
  obtain fresh ex where t: "take_expired (conns (ps_slots s) k) (pc_ttl c) (ps_now s) = (fresh, ex)"
    by fastforce
  note parts = take_expired_parts [OF t]
  have inv: "distinct (map po_ws (conns (ps_slots s) k))" "ids (conns (ps_slots s) k) \<subseteq> ps_created s"
    "length (conns (ps_slots s) k) \<le> pc_size c"
    using pool_invD [OF assms(3)] by simp_all
  from assms(2) t have sp: "spare = ws" and ex: "expired = ex"
    and sl: "sl = (ps_slots s)(k \<mapsto> (slot_of (ps_now s) k (ps_slots s))\<lparr>sl_conns := fresh\<rparr>)"
    by (auto simp: fill_push_def Let_def split: if_splits)
  have out: "ws \<notin> ids fresh" "ws \<notin> ids ex" using assms(1) inv(2) parts(1) by blast+
  show ?thesis
  proof (rule pool_inv_update [OF assms(3), where kk = k and h = "{}" and d = "insert ws (ids ex)"
        and n = "{ws}" and new = fresh])
    show "ids (conns (ps_slots s) k) \<union> {ws} = ids fresh \<union> {} \<union> insert ws (ids ex)"
      using parts(1) by auto
    show "distinct (map po_ws fresh)" "ids fresh \<inter> insert ws (ids ex) = {}"
      using parts(3) [OF inv(1)] out by auto
  qed (use assms(1) inv(3) parts(2) sp ex in \<open>auto simp: sl\<close>)
qed

text \<open>What \<open>pop\<close> takes out.\<close>

lemma last_out:
  assumes "distinct (map po_ws v)"
  defines "h \<equiv> ids (case (if v = [] then None else Some (last v)) of None \<Rightarrow> [] | Some p \<Rightarrow> [p])"
  shows "ids v = ids (butlast v) \<union> h" "ids (butlast v) \<inter> h = {}"
proof (atomize (full), cases v rule: rev_cases)
  case Nil
  then show "ids v = ids (butlast v) \<union> h \<and> ids (butlast v) \<inter> h = {}" by (simp add: h_def)
next
  case (snoc xs x)
  then show "ids v = ids (butlast v) \<union> h \<and> ids (butlast v) \<inter> h = {}"
    using assms by (auto simp: ids_def)
qed

lemma pool_acquire_inv:
  assumes "pool_acquire c (ps_now s) dc m (ps_slots s) = (r, expired, sl)"
    and "pool_inv c s"
  shows "pool_inv c (s\<lparr>ps_slots := sl, ps_handed := ids (case r of Some p \<Rightarrow> [p] | None \<Rightarrow> []) \<union> ps_handed s,
      ps_closed := ids expired \<union> ps_closed s\<rparr>)"
proof -
  let ?k = "(dc, m)"
  show ?thesis
  proof (cases "sl = ps_slots s \<and> r = None \<and> expired = []")
    case True
    with assms show ?thesis by (auto intro: pool_inv_same)
  next
    case False
    with assms(1) obtain slot where slot: "ps_slots s ?k = Some slot"
      by (auto simp: pool_acquire_def split: if_splits option.splits)
    have co: "conns (ps_slots s) ?k = sl_conns slot" by (simp add: conns_def slot)
    obtain fresh ex where t: "take_expired (sl_conns slot) (pc_ttl c) (ps_now s) = (fresh, ex)"
      by fastforce
    note parts = take_expired_parts [OF t]
    have inv: "distinct (map po_ws (sl_conns slot))" "length (sl_conns slot) \<le> pc_size c"
      using pool_invD(1,2) [OF assms(2), of ?k] co by simp_all
    from False assms(1) slot t have r: "r = (if fresh = [] then None else Some (last fresh))"
      and ex: "expired = ex" and sl: "sl = (ps_slots s)(?k \<mapsto> \<lparr>sl_conns = butlast fresh, sl_last_used = ps_now s\<rparr>)"
      by (auto simp: pool_acquire_def split: if_splits)
    let ?h = "ids (case r of None \<Rightarrow> [] | Some p \<Rightarrow> [p])"
    have split: "ids fresh = ids (butlast fresh) \<union> ?h" and dis: "ids (butlast fresh) \<inter> ?h = {}"
      using last_out [OF conjunct1 [OF parts(3) [OF inv(1)]]] by (simp_all add: r)
    show ?thesis
    proof (rule pool_inv_update [OF assms(2), where kk = ?k and h = ?h and d = "ids ex"
          and n = "{}" and new = "butlast fresh"])
      show "ids (conns (ps_slots s) ?k) \<union> {} = ids (butlast fresh) \<union> ?h \<union> ids ex"
        using parts(1) split co by simp
      show "distinct (map po_ws (butlast fresh))"
        using parts(3) [OF inv(1)] by (simp add: map_butlast distinct_butlast)
      show "ids (butlast fresh) \<inter> ids ex = {}" "?h \<inter> ids ex = {}"
        using parts(3) [OF inv(1)] split by blast+
      show "length (butlast fresh) \<le> pc_size c" using parts(2) inv(2) by simp
    qed (use dis ex in \<open>auto simp: sl\<close>)
  qed
qed

lemma pool_sweep_inv:
  assumes "active_slots c (ps_now s) keys (ps_slots s) = (active, expired, sl)"
    and "set keys = dom (ps_slots s)"
    and "pool_inv c s"
  shows "pool_inv c (s\<lparr>ps_slots := sl, ps_closed := ids expired \<union> ps_closed s\<rparr>)"
proof -
  define fresh where "fresh k = filter (\<lambda>e. ps_now s - po_created e \<le> pc_ttl c) (conns (ps_slots s) k)" for k
  define old where "old k = filter (\<lambda>e. \<not> ps_now s - po_created e \<le> pc_ttl c) (conns (ps_slots s) k)" for k
  have part: "take_expired (conns (ps_slots s) k) (pc_ttl c) (ps_now s) = (fresh k, old k)" for k
    by (simp add: take_expired_def fresh_def old_def comp_def)
  note parts = take_expired_parts [OF part]
  have co: "conns sl k = fresh k" for k
  proof (cases "ps_slots s k")
    case None
    with assms(1) show ?thesis by (auto simp: active_slots_def conns_def fresh_def)
  next
    case (Some x)
    with assms(1) part [of k] show ?thesis by (auto simp: active_slots_def conns_def reap_slot_def)
  qed
  have "expired = concat (map old keys)"
  proof -
    have "(case ps_slots s k of None \<Rightarrow> [] | Some sl \<Rightarrow> snd (take_expired (sl_conns sl) (pc_ttl c) (ps_now s)))
        = old k" for k
      using part [of k] by (auto simp: conns_def old_def split: option.splits)
    with assms(1) show ?thesis by (auto simp: active_slots_def)
  qed
  then have "ids expired = (\<Union>k \<in> set keys. ids (old k))" by (simp add: ids_def image_UN)
  also have "\<dots> = (\<Union>k. ids (old k))"
  proof (rule UN_outside)
    fix k assume "k \<notin> set keys"
    then have "ps_slots s k = None" using assms(2) by (simp add: domIff)
    then show "ids (old k) = {}" by (simp add: old_def conns_def)
  qed
  finally have ex: "ids expired = (\<Union>k. ids (old k))" .
  note D = pool_invD [OF assms(3)]
  note sets = sweep_sets [where I = "\<lambda>k. ids (conns (ps_slots s) k)" and F = "\<lambda>k. ids (fresh k)"
      and E = "\<lambda>k. ids (old k)", OF parts(1) conjunct2 [OF parts(3) [OF D(2)]] D(3) D(4) D(6)]
  have "length (fresh k) \<le> pc_size c" "distinct (map po_ws (fresh k))" for k
    using D(1) [of k] parts(2) [of k] parts(3) [OF D(2), of k] by auto
  moreover have "ps_handed s \<inter> (ids expired \<union> ps_closed s) = {}"
    using sets(2) D(5) unfolding ex by (simp add: Int_Un_distrib)
  ultimately show ?thesis
    using sets(1,3,4) unfolding pool_inv_def by (simp add: co ex)
qed

lemma pool_step_inv:
  assumes "pool_step c s s'" and "pool_inv c s" shows "pool_inv c s'"
  using assms
proof (induction rule: pool_step.induct)
  case (refill s k need sl)
  from refill(1) show ?case
    by (intro pool_inv_same [OF refill(2)]) (auto simp: refill_begin_def Let_def)
next
  case connected
  then show ?case by (intro pool_connected_inv)
next
  case raced
  then show ?case by (intro pool_raced_inv)
next
  case acquire
  then show ?case by (intro pool_acquire_inv)
next
  case sweep
  then show ?case by (intro pool_sweep_inv)
qed (auto intro: pool_inv_same)

text \<open>
  C19: The pool never leaks, duplicates or overfills, however its refill tasks and the sessions
  interleave: in every reachable state no slot holds more than its size, every socket ever
  opened is in exactly one place (one position of one slot, a session, or closed), and none is
  ever both pooled and handed out.
\<close>

theorem pool_conserves_connections:
  assumes "pool_reachable c s"
  shows "length (conns (ps_slots s) k) \<le> pc_size c
    \<and> distinct (map po_ws (conns (ps_slots s) k))
    \<and> (k = k' \<or> ids (conns (ps_slots s) k) \<inter> ids (conns (ps_slots s) k') = {})
    \<and> ids (conns (ps_slots s) k) \<inter> (ps_handed s \<union> ps_closed s) = {}
    \<and> ps_handed s \<inter> ps_closed s = {}
    \<and> (\<Union>k. ids (conns (ps_slots s) k)) \<union> ps_handed s \<union> ps_closed s = ps_created s"
proof -
  have "pool_inv c s"
    using assms
  proof (induction rule: pool_reachable.induct)
    case init
    then show ?case by (simp add: pool_inv_def init_pool_def)
  next
    case (step s s')
    then show ?case by (blast intro: pool_step_inv)
  qed
  note D = pool_invD [OF this]
  show ?thesis using D(1,2,4,5,6) D(3) [of k k'] by blast
qed

section \<open>Refilling\<close>

text \<open>A fill whose dials all succeed, on a slot with room and no connection that runs out meanwhile.\<close>

definition fresh_until :: "pool_cfg \<Rightarrow> nat \<Rightarrow> pooled list \<Rightarrow> bool" where
  "fresh_until c t ps \<longleftrightarrow> (\<forall>p \<in> set ps. t - po_created p \<le> pc_ttl c)"

lemma fresh_kept: "fresh_until c t ps \<Longrightarrow> now \<le> t \<Longrightarrow> take_expired ps (pc_ttl c) now = (ps, [])"
  by (auto simp: take_expired_def fresh_until_def filter_id_conv filter_empty_conv)

lemma fill_succeeds:
  assumes "\<forall>j. con j \<noteq> None" and "\<forall>j. clk j \<le> t \<and> t - clk j \<le> pc_ttl c"
    and "fresh_until c t (conns slots k)" and "length (conns slots k) + n \<le> pc_size c"
  shows "\<exists>slots'. pool_fill c con clk i k n slots = (i + n, [], slots')
    \<and> length (conns slots' k) = length (conns slots k) + n \<and> fresh_until c t (conns slots' k)
    \<and> (\<forall>k'. k' \<noteq> k \<longrightarrow> slots' k' = slots k')"
  using assms(3,4)
proof (induction n arbitrary: i slots)
  case (Suc n)
  obtain ws label where con: "con i = Some (ws, label)" using assms(1) by (metis not_None_eq surj_pair)
  let ?p = "\<lparr>po_ws = ws, po_created = clk i, po_label = label\<rparr>"
  define s1 where "s1 = slots(k \<mapsto> (slot_of (clk i) k slots)\<lparr>sl_conns := conns slots k @ [?p]\<rparr>)"
  have push: "fill_push c (clk i) k ws label slots = (None, [], s1)"
    using fresh_kept [OF Suc.prems(1)] Suc.prems(2) assms(2) by (simp add: fill_push_def Let_def s1_def)
  have s1: "conns s1 k = conns slots k @ [?p]" "\<And>k'. k' \<noteq> k \<Longrightarrow> s1 k' = slots k'" by (simp_all add: s1_def)
  have "fresh_until c t (conns s1 k)" "length (conns s1 k) + n \<le> pc_size c"
    using Suc.prems assms(2) by (auto simp: fresh_until_def s1(1))
  from Suc.IH [OF this, of "i + 1"] obtain s' where
    "pool_fill c con clk (i + 1) k n s1 = (i + 1 + n, [], s')"
    "length (conns s' k) = length (conns s1 k) + n" "fresh_until c t (conns s' k)"
    "\<forall>k'. k' \<noteq> k \<longrightarrow> s' k' = s1 k'" by blast
  then show ?case using con push s1 by (intro exI [of _ s']) simp
qed simp

lemma refill_one_fills:
  assumes "\<forall>j. con j \<noteq> None" and "\<forall>j. clk j \<le> t \<and> t - clk j \<le> pc_ttl c"
    and "fresh_until c t (conns slots k)" and "length (conns slots k) \<le> pc_size c"
  shows "\<exists>j slots'. refill_one c con clk i k slots = (j, [], slots')
    \<and> length (conns slots' k) = pc_size c \<and> fresh_until c t (conns slots' k)
    \<and> (\<forall>k'. k' \<noteq> k \<longrightarrow> conns slots' k' = conns slots k')"
proof -
  let ?s = "slots(k \<mapsto> (slot_of (clk i) k slots)\<lparr>sl_last_used := clk i\<rparr>)"
  have same: "conns ?s k' = conns slots k'" for k' by simp
  from fill_succeeds [OF assms(1,2), where slots = ?s and k = k and i = i and n = "pc_size c - length (conns slots k)"]
    assms(3,4)
  obtain s' where "pool_fill c con clk i k (pc_size c - length (conns slots k)) ?s =
      (i + (pc_size c - length (conns slots k)), [], s')"
    "length (conns s' k) = pc_size c" "fresh_until c t (conns s' k)" "\<forall>k'. k' \<noteq> k \<longrightarrow> s' k' = ?s k'"
    unfolding same by auto
  then show ?thesis by (auto simp: refill_one_def refill_begin_def Let_def conns_def)
qed

lemma refill_all_fills:
  assumes "\<forall>j. con j \<noteq> None" and "\<forall>j. clk j \<le> t \<and> t - clk j \<le> pc_ttl c"
    and "\<forall>k \<in> set ks. fresh_until c t (conns slots k) \<and> length (conns slots k) \<le> pc_size c"
  shows "\<exists>j slots'. refill_all c con clk i ks slots = (j, [], slots')
    \<and> (\<forall>k. conns slots' k = conns slots k \<and> k \<notin> set ks \<or>
          k \<in> set ks \<and> length (conns slots' k) = pc_size c \<and> fresh_until c t (conns slots' k))"
  using assms(3)
proof (induction ks arbitrary: i slots)
  case (Cons k ks)
  have k: "fresh_until c t (conns slots k)" "length (conns slots k) \<le> pc_size c" using Cons.prems by auto
  from refill_one_fills [OF assms(1,2) k, of i] obtain i' s1 where
    one: "refill_one c con clk i k slots = (i', [], s1)" "length (conns s1 k) = pc_size c"
      "fresh_until c t (conns s1 k)" and other: "\<And>k'. k' \<noteq> k \<Longrightarrow> conns s1 k' = conns slots k'" by blast
  have "\<forall>k' \<in> set ks. fresh_until c t (conns s1 k') \<and> length (conns s1 k') \<le> pc_size c"
  proof
    fix k' assume "k' \<in> set ks"
    with Cons.prems have "fresh_until c t (conns slots k') \<and> length (conns slots k') \<le> pc_size c" by simp
    then show "fresh_until c t (conns s1 k') \<and> length (conns s1 k') \<le> pc_size c"
      using one(2,3) other [of k'] by (cases "k' = k") simp_all
  qed
  from Cons.IH [OF this, of i'] obtain j s2 where two: "refill_all c con clk i' ks s1 = (j, [], s2)"
    and all: "\<And>k'. conns s2 k' = conns s1 k' \<and> k' \<notin> set ks \<or>
        k' \<in> set ks \<and> length (conns s2 k') = pc_size c \<and> fresh_until c t (conns s2 k')" by blast
  have "conns s2 k' = conns slots k' \<and> k' \<notin> set (k # ks) \<or>
      k' \<in> set (k # ks) \<and> length (conns s2 k') = pc_size c \<and> fresh_until c t (conns s2 k')" for k'
    using all [of k'] one(2,3) other [of k'] by (cases "k' = k") auto
  with one(1) two show ?case by (intro exI [of _ j] exI [of _ s2]) simp
qed simp

text \<open>
  C20: Refilling works: when the dials succeed and no connection runs out meanwhile, one turn of the
  refill task reaps what has expired in every slot and leaves each slot that was used within the
  last ten minutes with exactly as many fresh connections as the pool is to hold; no socket other
  than the expired ones is closed.
\<close>

theorem refill_tick_fills:
  assumes "\<forall>j. con j \<noteq> None" and "\<forall>j. clk j \<le> t \<and> t - clk j \<le> pc_ttl c"
    and "set keys = dom slots" and "\<forall>k. length (conns slots k) \<le> pc_size c"
    and "\<forall>k. \<forall>p \<in> set (conns slots k). now - po_created p \<le> pc_ttl c \<longrightarrow> t - po_created p \<le> pc_ttl c"
    and "refill_tick c True now keys con clk slots = (closed, slots')"
  shows "(\<forall>k sl. slots k = Some sl \<longrightarrow>
      (if now - sl_last_used sl \<le> SLOT_IDLE_AFTER then length (conns slots' k) = pc_size c
       else conns slots' k = fst (take_expired (sl_conns sl) (pc_ttl c) now))
      \<and> fresh_until c t (conns slots' k))
    \<and> set closed = (\<Union>k. ids (snd (take_expired (conns slots k) (pc_ttl c) now)))"
proof -
  obtain active expired s1 where sw: "active_slots c now keys slots = (active, expired, s1)"
    by (metis surj_pair)
  have s1: "conns s1 k = fst (take_expired (conns slots k) (pc_ttl c) now)" for k
    using sw by (auto simp: active_slots_def conns_def reap_slot_def take_expired_def split: option.splits)
  have act: "k \<in> set active \<longleftrightarrow> now - sl_last_used sl \<le> SLOT_IDLE_AFTER" if "slots k = Some sl" for k sl
    using sw that assms(3) by (auto simp: active_slots_def)
  have fresh: "fresh_until c t (conns s1 k)" for k
    using assms(5) [rule_format, of _ k] by (auto simp: s1 fresh_until_def take_expired_def)
  have "length (conns s1 k) \<le> pc_size c" for k
    using assms(4) [rule_format, of k] by (auto simp: s1 take_expired_def intro: order_trans [OF length_filter_le])
  with fresh refill_all_fills [OF assms(1,2), of active s1 0] obtain j s2 where
    two: "refill_all c con clk 0 active s1 = (j, [], s2)"
    and all: "\<And>k. conns s2 k = conns s1 k \<and> k \<notin> set active \<or>
        k \<in> set active \<and> length (conns s2 k) = pc_size c \<and> fresh_until c t (conns s2 k)" by blast
  have res: "closed = map po_ws expired" "slots' = s2"
    using assms(6) sw two by (auto simp: refill_tick_def)
  have "set (map po_ws expired) = (\<Union>k. ids (snd (take_expired (conns slots k) (pc_ttl c) now)))"
  proof -
    have "set expired = (\<Union>k \<in> set keys. set (snd (take_expired (conns slots k) (pc_ttl c) now)))"
    proof -
      have "expired = concat (map (\<lambda>k. snd (take_expired (conns slots k) (pc_ttl c) now)) keys)"
        using sw by (auto simp: active_slots_def conns_def take_expired_def split: option.split
            intro!: arg_cong [of _ _ concat] map_cong)
      then show ?thesis by simp
    qed
    also have "\<dots> = (\<Union>k. set (snd (take_expired (conns slots k) (pc_ttl c) now)))"
      unfolding assms(3) by (rule UN_outside) (auto simp: conns_def take_expired_def split: option.splits)
    finally show ?thesis by (auto simp: ids_def)
  qed
  moreover have "(if now - sl_last_used sl \<le> SLOT_IDLE_AFTER then length (conns s2 k) = pc_size c
       else conns s2 k = fst (take_expired (sl_conns sl) (pc_ttl c) now)) \<and> fresh_until c t (conns s2 k)"
    if "slots k = Some sl" for k sl
    using all [of k] act [OF that] fresh [of k] s1 [of k] that by (auto simp: conns_def)
  ultimately show ?thesis unfolding res by (metis (no_types, lifting))
qed

text \<open>
  A one-off refill does not reap first: it counts expired connections, so a slot full of them is
  not topped up until the next turn of the task.
\<close>

lemma refill_counts_expired:
  assumes "length (conns slots k) \<ge> pc_size c"
  shows "\<exists>slots'. refill_one c con clk i k slots = (i, [], slots') \<and> conns slots' k = conns slots k"
  using assms by (simp add: refill_one_def refill_begin_def Let_def)

definition sample_pool_cfg :: pool_cfg where
  "sample_pool_cfg = \<lparr>pc_size = 2, pc_ttl = 120, pc_serves_media = False\<rparr>"

definition sample_pool :: pool_sys where
  "sample_pool = init_pool\<lparr>ps_slots := [(2, False) \<mapsto> \<lparr>sl_conns = [], sl_last_used = 0\<rparr>],
     ps_fills := [((2, False), 2)]\<rparr>"

lemma sample_pool_reachable: "pool_reachable sample_pool_cfg sample_pool"
proof (rule pool_reachable.step [OF pool_reachable.init])
  have r: "refill_begin sample_pool_cfg (ps_now init_pool) (2, False) (ps_slots init_pool) =
      (2, [(2, False) \<mapsto> \<lparr>sl_conns = [], sl_last_used = 0\<rparr>])"
    by (simp add: refill_begin_def sample_pool_cfg_def init_pool_def slot_of_def default_slot_def)
  show "pool_step sample_pool_cfg init_pool sample_pool"
    using pool_step.refill [OF r] by (simp add: sample_pool_def init_pool_def)
qed

theorem pool_conserves_connections_witness:
  "pool_reachable sample_pool_cfg sample_pool \<and>
   length (conns (ps_slots sample_pool) (2, False)) \<le> 2 \<and> ps_handed sample_pool \<inter> ps_closed sample_pool = {}"
  using pool_conserves_connections [OF sample_pool_reachable, of "(2, False)"] sample_pool_reachable
  by (simp add: sample_pool_cfg_def)

text \<open>
  A session gets the youngest connection of its slot, and never a stale one: what
  \<open>acquire\<close> hands out is at most the TTL old, everything older is closed, everything else stays
  in the slot, other slots are untouched and a pool that does not serve media hands out none.
\<close>

lemma acquire_hands_out_fresh:
  assumes "pool_acquire c now dc m slots = (Some p, expired, slots')"
  shows "accepts c m \<and> now - po_created p \<le> pc_ttl c
    \<and> filter (\<lambda>e. now - po_created e \<le> pc_ttl c) (conns slots (dc, m)) = conns slots' (dc, m) @ [p]
    \<and> expired = filter (\<lambda>e. now - po_created e > pc_ttl c) (conns slots (dc, m))
    \<and> slots' = slots((dc, m) \<mapsto> \<lparr>sl_conns = conns slots' (dc, m), sl_last_used = now\<rparr>)"
proof -
  obtain slot where slot: "slots (dc, m) = Some slot" and acc: "accepts c m"
    using assms by (auto simp: pool_acquire_def accepts_def split: if_splits option.splits)
  define fresh where "fresh = filter (\<lambda>e. now - po_created e \<le> pc_ttl c) (sl_conns slot)"
  have t: "take_expired (sl_conns slot) (pc_ttl c) now =
      (fresh, filter (\<lambda>e. now - po_created e > pc_ttl c) (sl_conns slot))"
    by (simp add: take_expired_def fresh_def comp_def not_le)
  have ne: "fresh \<noteq> []" and p: "p = last fresh"
    and ex: "expired = filter (\<lambda>e. now - po_created e > pc_ttl c) (sl_conns slot)"
    and s': "slots' = slots((dc, m) \<mapsto> \<lparr>sl_conns = butlast fresh, sl_last_used = now\<rparr>)"
    using assms slot t acc by (auto simp: pool_acquire_def accepts_def split: if_splits)
  have "p \<in> set fresh" using ne p by simp
  then have "now - po_created p \<le> pc_ttl c" by (simp add: fresh_def)
  moreover have "fresh = butlast fresh @ [p]" using ne p by simp
  ultimately show ?thesis
    using acc ex s' slot by (simp add: conns_def fresh_def)
qed

lemma acquire_hands_out_fresh_witness:
  "\<exists>slots'. pool_acquire sample_pool_cfg 150 2 False [(2, False) \<mapsto>
       \<lparr>sl_conns = [\<lparr>po_ws = 1, po_created = 10, po_label = ''a''\<rparr>,
          \<lparr>po_ws = 2, po_created = 140, po_label = ''b''\<rparr>], sl_last_used = 0\<rparr>] =
     (Some \<lparr>po_ws = 2, po_created = 140, po_label = ''b''\<rparr>,
      [\<lparr>po_ws = 1, po_created = 10, po_label = ''a''\<rparr>], slots') \<and>
   150 - po_created \<lparr>po_ws = 2, po_created = 140, po_label = ''b''\<rparr> \<le> 120"
proof -
  have "pool_acquire sample_pool_cfg 150 2 False [(2, False) \<mapsto>
       \<lparr>sl_conns = [\<lparr>po_ws = 1, po_created = 10, po_label = ''a''\<rparr>,
          \<lparr>po_ws = 2, po_created = 140, po_label = ''b''\<rparr>], sl_last_used = 0\<rparr>] =
     (Some \<lparr>po_ws = 2, po_created = 140, po_label = ''b''\<rparr>,
      [\<lparr>po_ws = 1, po_created = 10, po_label = ''a''\<rparr>],
      [(2, False) \<mapsto> \<lparr>sl_conns = [], sl_last_used = 150\<rparr>])"
    by (simp add: pool_acquire_def sample_pool_cfg_def take_expired_def)
  from acquire_hands_out_fresh [OF this] this show ?thesis
    by (auto simp: sample_pool_cfg_def)
qed

text \<open>A slot with one expired connection, used just now, is filled up again.\<close>

definition stale_slots :: slots where
  "stale_slots = [(2, False) \<mapsto> \<lparr>sl_conns = [\<lparr>po_ws = 7, po_created = 0, po_label = ''''\<rparr>], sl_last_used = 900 * NANOS\<rparr>]"

lemma conns_stale: "conns stale_slots k =
    (if k = (2, False) then [\<lparr>po_ws = 7, po_created = 0, po_label = ''''\<rparr>] else [])"
  by (simp add: conns_def stale_slots_def)

theorem refill_tick_fills_witness:
  "\<exists>closed slots'. refill_tick sample_pool_cfg True (900 * NANOS) [(2, False)] (\<lambda>i. Some (i + 10, ''kws2''))
      (\<lambda>i. 900 * NANOS) stale_slots = (closed, slots')
    \<and> length (conns slots' (2, False)) = pc_size sample_pool_cfg \<and> set closed = {7}"
proof -
  obtain closed slots' where run: "refill_tick sample_pool_cfg True (900 * NANOS) [(2, False)]
      (\<lambda>i. Some (i + 10, ''kws2'')) (\<lambda>i. 900 * NANOS) stale_slots = (closed, slots')" by fastforce
  have k: "set [(2, False)] = dom stale_slots" by (auto simp: stale_slots_def)
  have few: "\<forall>k. length (conns stale_slots k) \<le> pc_size sample_pool_cfg"
    by (simp add: conns_stale sample_pool_cfg_def)
  have old: "\<forall>k. \<forall>p \<in> set (conns stale_slots k). 900 * NANOS - po_created p \<le> pc_ttl sample_pool_cfg \<longrightarrow>
      900 * NANOS - po_created p \<le> pc_ttl sample_pool_cfg" by simp
  note all = refill_tick_fills [OF _ _ k few old run]
  have "set closed = (\<Union>k. ids (snd (take_expired (conns stale_slots k) (pc_ttl sample_pool_cfg) (900 * NANOS))))"
    using all by simp
  also have "\<dots> = {7}"
    by (auto simp: conns_stale take_expired_def sample_pool_cfg_def NANOS_def split: if_splits)
  finally have "set closed = {7}" .
  moreover have "length (conns slots' (2, False)) = pc_size sample_pool_cfg"
    using all by (simp add: stale_slots_def SLOT_IDLE_AFTER_def split: if_splits)
  ultimately show ?thesis using run by blast
qed

end
