(* ===== verification/Tls_Sni.thy ===== *)
theory Tls_Sni
  imports Dc_Learn
begin

text \<open>
  The parsers of \<open>tls_sni.rs\<close>: the server name of a TLS ClientHello and the \<open>Host\<close> header of
  an HTTP request, from the first bytes of a client. Every index and slice of the source is an
  \<open>idx\<close> or \<open>slice\<close>, so a function returns \<open>None\<close> when the source panics and \<open>Some r\<close> when it
  returns \<open>r\<close>. \<open>str::to_lowercase\<close> is the argument \<open>lc\<close>: its Unicode tables matter only for
  text that is not ASCII, on which the theorems assume nothing about it.
\<close>

section \<open>IP literals\<close>

definition is_hex_digit :: "char \<Rightarrow> bool" where
  "is_hex_digit c \<longleftrightarrow> is_ascii_digit c \<or> 97 \<le> ord c \<and> ord c \<le> 102 \<or> 65 \<le> ord c \<and> ord c \<le> 70"

text \<open>\<open>read_number(16, Some(4), true)\<close>: one to four hexadecimal digits; the rest.\<close>

definition read_hextet :: "string \<Rightarrow> string option" where
  "read_hextet s =
     (let d = takeWhile is_hex_digit s
      in if d \<noteq> [] \<and> length d \<le> 4 then Some (drop (length d) s) else None)"

text \<open>\<open>read_ipv4_addr\<close> at the head of \<open>s\<close>: the longest run of digits and dots must be an address.\<close>

definition read_ipv4 :: "string \<Rightarrow> string option" where
  "read_ipv4 s =
     (let ps = split_on (\<lambda>c. c = CHR ''.'') s; d = takeWhile is_ascii_digit (ps ! 3)
      in if length ps \<ge> 4 \<and> list_all (\<lambda>p. parse_octet p \<noteq> None) (take 3 ps) \<and> parse_octet d \<noteq> None
         then Some (drop (length (ps ! 0) + length (ps ! 1) + length (ps ! 2) + 3 + length d) s)
         else None)"

definition read_sep :: "nat \<Rightarrow> string \<Rightarrow> string option" where
  "read_sep i s = (if i = 0 then Some s else strip_prefix '':'' s)"

text \<open>\<open>read_groups\<close>: groups read, whether the last was an IPv4 address, and the rest.\<close>

function read_groups :: "nat \<Rightarrow> nat \<Rightarrow> string \<Rightarrow> nat \<times> bool \<times> string" where
  "read_groups lim i s =
     (if lim \<le> i then (lim, False, s)
      else
        case (if i < lim - 1 then Option.bind (read_sep i s) read_ipv4 else None) of
          Some rest \<Rightarrow> (i + 2, True, rest)
        | None \<Rightarrow>
            (case Option.bind (read_sep i s) read_hextet of
               Some rest \<Rightarrow> read_groups lim (i + 1) rest
             | None \<Rightarrow> (i, False, s)))"
  by pat_completeness auto
termination by (relation "measure (\<lambda>(lim, i, s). lim - i)") auto

declare read_groups.simps [simp del]

definition is_ipv6 :: "string \<Rightarrow> bool" where
  "is_ipv6 s \<longleftrightarrow>
     (case read_groups 8 0 s of
        (head_size, head_ipv4, rest) \<Rightarrow>
          if head_size = 8 then rest = ''''
          else if head_ipv4 then False
          else (case strip_prefix ''::'' rest of
                  None \<Rightarrow> False
                | Some rest2 \<Rightarrow>
                    (case read_groups (8 - (head_size + 1)) 0 rest2 of (_, _, rest3) \<Rightarrow> rest3 = '''')))"

definition is_ip_addr :: "string \<Rightarrow> bool" where
  "is_ip_addr s \<longleftrightarrow> is_ipv4 s \<or> is_ipv6 s"

section \<open>ClientHello\<close>

definition rd_u16 :: "bytes \<Rightarrow> nat \<Rightarrow> nat option" where
  "rd_u16 body pos = do { a \<leftarrow> idx body pos; b \<leftarrow> idx body (pos + 1); Some (u16_be a b) }"

function sni_names :: "bytes \<Rightarrow> nat \<Rightarrow> nat \<Rightarrow> string option option" where
  "sni_names data list_len pos =
     (if pos + 3 \<le> 2 + list_len then do {
        name_type \<leftarrow> idx data pos;
        name_len \<leftarrow> rd_u16 data (pos + 1);
        (if pos + 3 + name_len > length data then Some None
         else if name_type = 0 then do {
           name \<leftarrow> slice data (pos + 3) (pos + 3 + name_len);
           Some (if is_utf8 name then Some (text_of name) else None)
         }
         else sni_names data list_len (pos + 3 + name_len))
      }
      else Some None)"
  by pat_completeness auto
termination by (relation "measure (\<lambda>(data, list_len, pos). 2 + list_len - pos)") auto

definition parse_sni_extension :: "bytes \<Rightarrow> string option option" where
  "parse_sni_extension data =
     (if length data < 5 then Some None
      else do {
        list_len \<leftarrow> rd_u16 data 0;
        (if list_len + 2 > length data then Some None else sni_names data list_len 2)
      })"

function ext_loop :: "bytes \<Rightarrow> nat \<Rightarrow> nat \<Rightarrow> string option option" where
  "ext_loop body ext_end pos =
     (if pos + 4 \<le> ext_end then do {
        ext_type \<leftarrow> rd_u16 body pos;
        ext_data_len \<leftarrow> rd_u16 body (pos + 2);
        (if pos + 4 + ext_data_len > ext_end then Some None
         else if ext_type = 0 then do {
           data \<leftarrow> slice body (pos + 4) (pos + 4 + ext_data_len);
           r \<leftarrow> parse_sni_extension data;
           (case r of
              Some host \<Rightarrow> Some (Some host)
            | None \<Rightarrow> ext_loop body ext_end (pos + 4 + ext_data_len))
         }
         else ext_loop body ext_end (pos + 4 + ext_data_len))
      }
      else Some None)"
  by pat_completeness auto
termination by (relation "measure (\<lambda>(body, ext_end, pos). ext_end - pos)") auto

declare sni_names.simps [simp del] ext_loop.simps [simp del]

text \<open>The body of the handshake message: session id, cipher suites and compression are skipped.\<close>

definition sni_from_body :: "bytes \<Rightarrow> string option option" where
  "sni_from_body body =
     (if length body < 34 then Some None
      else do {
        sid_len \<leftarrow> idx body 34;
        (let pos = 35 + unat sid_len
         in if pos > length body \<or> pos + 2 > length body then Some None
            else do {
              cs_len \<leftarrow> rd_u16 body pos;
              (let pos = pos + 2 + cs_len
               in if pos > length body \<or> pos \<ge> length body then Some None
                  else do {
                    comp_len \<leftarrow> idx body pos;
                    (let pos = pos + 1 + unat comp_len
                     in if pos > length body \<or> pos + 2 > length body then Some None
                        else do {
                          ext_len \<leftarrow> rd_u16 body pos;
                          (let pos = pos + 2
                           in if pos + ext_len > length body then Some None
                              else ext_loop body (pos + ext_len) pos)
                        })
                  })
            })
      })"

definition sni_from_client_hello :: "bytes \<Rightarrow> string option option" where
  "sni_from_client_hello payload =
     (if length payload < 4 then Some None
      else do {
        p0 \<leftarrow> idx payload 0;
        p1 \<leftarrow> idx payload 1;
        p2 \<leftarrow> idx payload 2;
        p3 \<leftarrow> idx payload 3;
        (let hs_len = u24_be p1 p2 p3
         in if p0 \<noteq> 0x01 \<or> hs_len + 4 > length payload then Some None
            else do {
              body \<leftarrow> slice payload 4 (4 + hs_len);
              sni_from_body body
            })
      })"

function tls_records :: "bytes \<Rightarrow> nat \<Rightarrow> string option option" where
  "tls_records data off =
     (if off + 5 \<le> length data then do {
        b0 \<leftarrow> idx data off;
        b1 \<leftarrow> idx data (off + 1);
        (if b0 \<noteq> 0x16 \<or> b1 \<noteq> 0x03 then tls_records data (off + 1)
         else do {
           rec_len \<leftarrow> rd_u16 data (off + 3);
           (if rec_len < 4 \<or> off + 5 + rec_len > length data then Some None
            else do {
              payload \<leftarrow> slice data (off + 5) (off + 5 + rec_len);
              r \<leftarrow> sni_from_client_hello payload;
              (case r of
                 Some host \<Rightarrow> Some (Some host)
               | None \<Rightarrow> tls_records data (off + 5 + rec_len))
            })
         })
      }
      else Some None)"
  by pat_completeness auto
termination by (relation "measure (\<lambda>(data, off). length data - off)") auto

declare tls_records.simps [simp del]

definition parse_tls_client_hello_sni :: "bytes \<Rightarrow> string option option" where
  "parse_tls_client_hello_sni data = tls_records data 0"

section \<open>The Host header\<close>

definition is_space_tab :: "byte \<Rightarrow> bool" where
  "is_space_tab b \<longleftrightarrow> b = 0x20 \<or> b = 0x09"

definition not_eol :: "byte \<Rightarrow> bool" where
  "not_eol b \<longleftrightarrow> b \<noteq> 0x0D \<and> b \<noteq> 0x0A"

abbreviation host_pattern :: string where
  "host_pattern \<equiv> [CHR 0x0D, CHR 0x0A] @ ''host:''"

definition http_host_raw :: "(string \<Rightarrow> string) \<Rightarrow> bytes \<Rightarrow> string option option" where
  "http_host_raw lc data =
     (let data = take 4096 data
      in case find_sub host_pattern (lc (from_utf8_lossy data)) of
           None \<Rightarrow> Some None
         | Some i \<Rightarrow> do {
             rest \<leftarrow> slice data (i + 7) (length data);
             (let val = takeWhile not_eol (dropWhile is_space_tab rest);
                  host = trim (from_utf8_lossy val)
              in Some (if val = [] \<or> host = '''' then None else Some host))
           })"

definition parse_http_host :: "(string \<Rightarrow> string) \<Rightarrow> bytes \<Rightarrow> string option option" where
  "parse_http_host lc data = do {
     r \<leftarrow> http_host_raw lc data;
     Some (case r of
             None \<Rightarrow> None
           | Some host \<Rightarrow>
               (let host = (case rsplit_once (CHR '':'') host of
                              Some (h, port) \<Rightarrow> if all_digits port then h else host
                            | None \<Rightarrow> host)
                in if is_ip_addr host then None else Some host))
   }"

definition passthrough_host :: "(string \<Rightarrow> string) \<Rightarrow> bytes \<Rightarrow> string option" where
  "passthrough_host lc initial = do {
     r \<leftarrow> parse_tls_client_hello_sni initial;
     (case r of
        Some h \<Rightarrow> Some h
      | None \<Rightarrow> do {
          r \<leftarrow> parse_http_host lc initial;
          Some (case r of Some h \<Rightarrow> h | None \<Rightarrow> '''')
        })
   }"

section \<open>Where the parsers can panic\<close>

lemma rd_u16_Some [simp]:
  "pos + 1 < length body \<Longrightarrow> rd_u16 body pos = Some (u16_be (body ! pos) (body ! (pos + 1)))"
  by (simp add: rd_u16_def byte_simps)

lemma sni_names_total: "list_len + 2 \<le> length data \<Longrightarrow> sni_names data list_len pos \<noteq> None"
proof (induction data list_len pos rule: sni_names.induct)
  case (1 data list_len pos)
  show ?case
  proof (cases "pos + 3 \<le> 2 + list_len")
    case False
    then show ?thesis by (simp add: sni_names.simps [of data list_len pos])
  next
    case True
    with "1.prems" have i: "idx data pos = Some (data ! pos)"
      "rd_u16 data (pos + 1) = Some (u16_be (data ! (pos + 1)) (data ! (pos + 1 + 1)))"
      by (simp_all add: byte_simps)
    with True "1.IH" [OF True i] "1.prems" show ?thesis
      by (subst sni_names.simps) (simp add: byte_simps del: rd_u16_Some)
  qed
qed

lemma parse_sni_extension_total: "parse_sni_extension data \<noteq> None"
  using sni_names_total by (simp add: parse_sni_extension_def)

lemma ext_loop_total: "ext_end \<le> length body \<Longrightarrow> ext_loop body ext_end pos \<noteq> None"
proof (induction body ext_end pos rule: ext_loop.induct)
  case (1 body ext_end pos)
  show ?case
  proof (cases "pos + 4 \<le> ext_end")
    case False
    then show ?thesis by (simp add: ext_loop.simps [of body ext_end pos])
  next
    case True
    define t where "t = u16_be (body ! pos) (body ! (pos + 1))"
    define l where "l = u16_be (body ! (pos + 2)) (body ! (pos + 2 + 1))"
    have tl: "rd_u16 body pos = Some t" "rd_u16 body (pos + 2) = Some l"
      using True "1.prems" by (simp_all add: t_def l_def)
    show ?thesis
    proof (cases "pos + 4 + l > ext_end")
      case True
      with tl \<open>pos + 4 \<le> ext_end\<close> show ?thesis
        by (subst ext_loop.simps) (simp del: rd_u16_Some)
    next
      case False
      then have s: "slice body (pos + 4) (pos + 4 + l) = Some (take l (drop (pos + 4) body))"
        using "1.prems" by (simp add: byte_simps)
      obtain r where r: "parse_sni_extension (take l (drop (pos + 4) body)) = Some r"
        using parse_sni_extension_total by blast
      have 1: "ext_loop body ext_end (pos + 4 + l) \<noteq> None" if "t = 0" "r = None"
        using "1.IH"(1) [OF \<open>pos + 4 \<le> ext_end\<close> tl False that(1) s r that(2)] "1.prems" by simp
      have 2: "ext_loop body ext_end (pos + 4 + l) \<noteq> None" if "t \<noteq> 0"
        using "1.IH"(2) [OF \<open>pos + 4 \<le> ext_end\<close> tl False that] "1.prems" by simp
      show ?thesis
        using tl False s r \<open>pos + 4 \<le> ext_end\<close> 1 2
        by (cases "t = 0"; cases r; subst ext_loop.simps) (simp_all del: rd_u16_Some)
    qed
  qed
qed

lemma bind_neq_NoneI: "x = Some a \<Longrightarrow> f a \<noteq> None \<Longrightarrow> Option.bind x f \<noteq> None"
  by simp

lemma if_neq_NoneI: "(c \<Longrightarrow> a \<noteq> None) \<Longrightarrow> (\<not> c \<Longrightarrow> b \<noteq> None) \<Longrightarrow> (if c then a else b) \<noteq> None"
  by simp

lemma sni_from_body_panic: "sni_from_body body = None \<longleftrightarrow> length body = 34"
proof -
  consider "length body < 34" | "length body = 34" | "34 < length body" by linarith
  then show ?thesis
  proof cases
    case 3
    have "sni_from_body body \<noteq> None"
      unfolding sni_from_body_def Let_def
      using 3 by (intro if_neq_NoneI bind_neq_NoneI [OF idx_Some] bind_neq_NoneI [OF rd_u16_Some]
          ext_loop_total option.distinct(2) [THEN not_sym]) auto
    with 3 show ?thesis by simp
  qed (simp_all add: sni_from_body_def idx_def)
qed

lemma sni_from_client_hello_eq:
  "4 \<le> length payload \<Longrightarrow> sni_from_client_hello payload =
     (let n = u24_be (payload ! 1) (payload ! 2) (payload ! 3)
      in if payload ! 0 \<noteq> 0x01 \<or> n + 4 > length payload then Some None
         else sni_from_body (take n (drop 4 payload)))"
proof -
  assume "4 \<le> length payload"
  then have "idx payload 0 = Some (payload ! 0)" "idx payload 1 = Some (payload ! 1)"
    "idx payload 2 = Some (payload ! 2)" "idx payload 3 = Some (payload ! 3)"
    by (auto simp: idx_def)
  with \<open>4 \<le> length payload\<close> show ?thesis
    by (simp add: sni_from_client_hello_def byte_simps Let_def del: One_nat_def)
qed

text \<open>
  A handshake message with the ClientHello type, of which \<open>hs_len\<close> body bytes are present.
\<close>

definition client_hello_body_len :: "bytes \<Rightarrow> nat option" where
  "client_hello_body_len payload =
     (if 4 \<le> length payload \<and> payload ! 0 = 0x01
         \<and> u24_be (payload ! 1) (payload ! 2) (payload ! 3) + 4 \<le> length payload
      then Some (u24_be (payload ! 1) (payload ! 2) (payload ! 3)) else None)"

text \<open>
  C36: The ClientHello parser returns without a panic on every payload but one shape: a
  ClientHello whose body is exactly 34 bytes long (version and random, no session id length),
  for which the read of \<open>body[34]\<close> is out of range.
\<close>

theorem client_hello_panic_exact:
  "sni_from_client_hello payload = None \<longleftrightarrow> client_hello_body_len payload = Some 34"
proof (cases "4 \<le> length payload")
  case True
  then show ?thesis
    by (auto simp: client_hello_body_len_def sni_from_client_hello_eq sni_from_body_panic Let_def)
qed (simp add: client_hello_body_len_def sni_from_client_hello_def)

section \<open>A ClientHello and its server name\<close>

text \<open>The wire format of RFC 8446 and RFC 6066, for a record that holds one ClientHello.\<close>

definition ext_bytes :: "nat \<times> bytes \<Rightarrow> bytes" where
  "ext_bytes e = to_be 2 (fst e) @ to_be 2 (length (snd e)) @ snd e"

definition sni_data :: "bytes \<Rightarrow> bytes" where
  "sni_data host = to_be 2 (length host + 3) @ [0] @ to_be 2 (length host) @ host"

definition client_hello_body :: "bytes \<Rightarrow> bytes \<Rightarrow> bytes \<Rightarrow> bytes \<Rightarrow> bytes \<Rightarrow> bytes" where
  "client_hello_body fixed sid cs cmp exts =
     fixed @ [of_nat (length sid)] @ sid @ to_be 2 (length cs) @ cs
     @ [of_nat (length cmp)] @ cmp @ to_be 2 (length exts) @ exts"

definition client_hello_record :: "byte \<Rightarrow> bytes \<Rightarrow> bytes" where
  "client_hello_record minor body =
     [0x16, 0x03, minor] @ to_be 2 (length body + 4) @ [0x01] @ to_be 3 (length body) @ body"

lemma to_be_2: "to_be 2 n = [of_nat (n div 256 mod 256), of_nat (n mod 256)]"
  by (simp add: numeral_2_eq_2)

lemma to_be_3:
  "to_be 3 n = [of_nat (n div 256 div 256 mod 256), of_nat (n div 256 mod 256), of_nat (n mod 256)]"
  by (simp add: numeral_3_eq_3)

lemma drop_shift: "drop pos body = xs @ ys \<Longrightarrow> n = length xs \<Longrightarrow> drop (pos + n) body = ys"
  by (metis add.commute append_eq_conv_conj drop_drop)

lemma drop_prefix: "body = xs @ ys \<Longrightarrow> n = length xs \<Longrightarrow> drop n body = ys"
  by simp

lemma drop_suffix: "body = xs @ ys \<Longrightarrow> drop (length body - length ys) body = ys"
  by simp

lemma idx_drop: "drop pos body = b # ys \<Longrightarrow> idx body pos = Some b"
  by (metis drop_eq_Nil2 idx_Some list.distinct(1) not_le nth_via_drop)

lemma rd_u16_drop:
  assumes "drop pos body = to_be 2 n @ ys" and "n < 65536"
  shows "rd_u16 body pos = Some n"
proof -
  have a: "drop pos body = [of_nat (n div 256 mod 256)] @ of_nat (n mod 256) # ys"
    using assms(1) by (simp add: to_be_2)
  have "idx body (pos + 1) = Some (of_nat (n mod 256))"
    by (rule idx_drop [OF drop_shift [OF a]]) simp
  moreover have "idx body pos = Some (of_nat (n div 256 mod 256))"
    by (rule idx_drop) (simp add: a)
  moreover have "n div 256 < 256" using assms(2) by linarith
  ultimately show ?thesis
    by (simp add: rd_u16_def u16_be_def unat_of_nat del: One_nat_def)
qed

lemma slice_drop:
  assumes "drop pos body = d @ ys" and "n = length d" and "pos \<le> length body"
  shows "slice body pos (pos + n) = Some d"
proof -
  have "length body - pos = length d + length ys"
    by (metis assms(1) length_append length_drop)
  with assms show ?thesis by (simp add: slice_def)
qed

lemma parse_sni_data:
  assumes "is_utf8 host" and "length host + 3 < 65536"
  shows "parse_sni_extension (sni_data host) = Some (Some (text_of host))"
proof -
  let ?d = "sni_data host"
  have "rd_u16 ?d 0 = Some (length host + 3)"
    using assms by (intro rd_u16_drop) (simp_all add: sni_data_def)
  moreover have n: "rd_u16 ?d 3 = Some (length host)"
    using assms by (intro rd_u16_drop) (simp_all add: sni_data_def to_be_2)
  moreover have "idx ?d 2 = Some 0"
    by (rule idx_drop) (simp add: sni_data_def to_be_2)
  moreover have "slice ?d 5 (5 + length host) = Some host"
    by (rule slice_drop [of _ _ _ "[]"]) (simp_all add: sni_data_def to_be_2)
  ultimately show ?thesis
    using assms
    by (subst parse_sni_extension_def, subst sni_names.simps) (simp add: sni_data_def)
qed

lemma length_ext_bytes [simp]: "length (ext_bytes e) = 4 + length (snd e)"
  by (simp add: ext_bytes_def)

text \<open>One extension read by the loop.\<close>

lemma ext_loop_step:
  assumes "drop pos body = ext_bytes (t, d) @ ys"
    and "t < 65536" and "length d < 65536" and "pos + 4 + length d \<le> e" and "e \<le> length body"
  shows "ext_loop body e pos =
    (if t = 0 then (case parse_sni_extension d of
                      Some (Some host) \<Rightarrow> Some (Some host)
                    | _ \<Rightarrow> ext_loop body e (pos + 4 + length d))
     else ext_loop body e (pos + 4 + length d))"
proof -
  have "rd_u16 body pos = Some t"
    using assms by (intro rd_u16_drop) (simp_all add: ext_bytes_def)
  moreover have d2: "drop (pos + 2) body = to_be 2 (length d) @ d @ ys"
    by (rule drop_shift [of _ _ "to_be 2 t"]) (simp_all add: assms(1) ext_bytes_def)
  then have "rd_u16 body (pos + 2) = Some (length d)"
    using assms by (intro rd_u16_drop) simp_all
  moreover have "drop (pos + 4) body = d @ ys"
    by (rule drop_shift [of _ _ "to_be 2 t @ to_be 2 (length d)"])
      (simp_all add: assms(1) ext_bytes_def)
  then have "slice body (pos + 4) (pos + 4 + length d) = Some d"
    using assms by (intro slice_drop) simp_all
  moreover obtain r where "parse_sni_extension d = Some r"
    using parse_sni_extension_total by blast
  ultimately show ?thesis
    using assms(4) by (subst ext_loop.simps) (simp split: option.split)
qed

lemma ext_loop_finds:
  assumes "drop pos body = concat (map ext_bytes before) @ ext_bytes (0, sni_data host) @ ys"
    and "\<forall>x \<in> set before. 0 < fst x \<and> fst x < 65536 \<and> length (snd x) < 65536"
    and "is_utf8 host" and "length host + 5 < 65536"
    and "pos + length (concat (map ext_bytes before)) + 4 + length (sni_data host) \<le> e"
    and "e \<le> length body"
  shows "ext_loop body e pos = Some (Some (text_of host))"
  using assms
proof (induction before arbitrary: pos)
  case Nil
  then show ?case
    by (subst ext_loop_step [of _ _ 0 "sni_data host" ys])
      (simp_all add: parse_sni_data sni_data_def [THEN arg_cong, of length])
next
  case (Cons x before)
  obtain t d where x: "x = (t, d)" by fastforce
  have s: "drop pos body = ext_bytes (t, d) @ concat (map ext_bytes before)
      @ ext_bytes (0, sni_data host) @ ys"
    using Cons.prems(1) by (simp add: x)
  have "drop (pos + (4 + length d)) body =
      concat (map ext_bytes before) @ ext_bytes (0, sni_data host) @ ys"
    by (rule drop_shift [OF s]) simp
  then have "drop (pos + 4 + length d) body =
      concat (map ext_bytes before) @ ext_bytes (0, sni_data host) @ ys"
    by (simp add: add.assoc)
  then have "ext_loop body e (pos + 4 + length d) = Some (Some (text_of host))"
    using Cons.prems by (intro Cons.IH) (auto simp: x)
  with Cons.prems show ?case
    by (subst ext_loop_step [OF s]) (auto simp: x)
qed

lemma sni_from_body_hello:
  assumes "length fixed = 34" and "length sid < 256" and "length cs < 65536" and "length cmp < 256"
    and "length exts < 65536"
  shows "sni_from_body (client_hello_body fixed sid cs cmp exts) =
    ext_loop (client_hello_body fixed sid cs cmp exts)
      (length (client_hello_body fixed sid cs cmp exts))
      (length (client_hello_body fixed sid cs cmp exts) - length exts)"
proof -
  let ?b = "client_hello_body fixed sid cs cmp exts"
  let ?p = "35 + length sid" let ?q = "?p + 2 + length cs" let ?r = "?q + 1 + length cmp"
  note b = client_hello_body_def
  let ?x = "fixed @ [of_nat (length sid)] @ sid" let ?y = "?x @ to_be 2 (length cs) @ cs"
  let ?z = "?y @ [of_nat (length cmp)] @ cmp"
  have "idx ?b 34 = Some (of_nat (length sid))"
    by (rule idx_drop [OF drop_prefix [of _ fixed]]) (simp_all add: b assms(1))
  moreover have "rd_u16 ?b ?p = Some (length cs)"
    by (rule rd_u16_drop [OF drop_prefix [of _ ?x]]) (simp_all add: b assms)
  moreover have "idx ?b ?q = Some (of_nat (length cmp))"
    by (rule idx_drop [OF drop_prefix [of _ ?y]]) (simp_all add: b assms(1))
  moreover have "rd_u16 ?b ?r = Some (length exts)"
    by (rule rd_u16_drop [OF drop_prefix [of _ ?z]]) (simp_all add: b assms)
  moreover have "length ?b = ?r + 2 + length exts"
    by (simp add: b assms(1))
  ultimately show ?thesis
    using assms by (simp add: sni_from_body_def unat_of_nat Let_def)
qed



section \<open>The slice of the Host scanner\<close>

lemma text_of_ascii_lossy:
  "\<forall>b \<in> set bs. b < 0x80 \<Longrightarrow> from_utf8_lossy bs = text_of bs"
  by (simp add: from_utf8_lossy_def utf8_lossy_ascii)

text \<open>On ASCII input an index into the lower-cased text is one into the data: no panic.\<close>

lemma http_host_raw_ascii:
  assumes "\<forall>b \<in> set data. b < 0x80"
    and "lc (text_of (take 4096 data)) = to_ascii_lowercase (text_of (take 4096 data))"
  shows "http_host_raw lc data \<noteq> None"
proof -
  let ?d = "take 4096 data"
  have t: "from_utf8_lossy ?d = text_of ?d"
    using assms(1) by (intro text_of_ascii_lossy) (meson in_set_takeD)
  show ?thesis
  proof (cases "find_sub host_pattern (to_ascii_lowercase (text_of ?d))")
    case (Some i)
    then have "i + 7 \<le> length ?d"
      using find_sub_room [OF Some] by simp
    with Some show ?thesis
      by (simp add: http_host_raw_def Let_def t assms(2) byte_simps)
  qed (simp add: http_host_raw_def Let_def t assms(2))
qed

text \<open>
  Ill-formed bytes before the header are replaced by three bytes each, so the index is past the
  end of the data and the slice panics.
\<close>

lemma http_host_raw_panics:
  "http_host_raw to_ascii_lowercase ([0xFF] @ as_bytes (host_pattern @ ''a'')) = None"
  by code_simp

end
