(* ===== verification/Media.thy ===== *)
theory Media
  imports Tls_Sni
begin

text \<open>
  \<open>media.rs\<close> and the target choice of \<open>tls_sni.rs\<close>: which addresses are media CDNs, the host
  name the front expects for a datacenter, the rewriting of the \<open>Host\<close> header of an
  MTProto-over-HTTP request, and the list of addresses that blind passthrough dials. The learned
  datacenter map is the argument \<open>lm\<close>, the front settings \<open>st\<close>; \<open>lc\<close> is \<open>str::to_lowercase\<close> as
  in \<open>Tls_Sni\<close>.
\<close>

section \<open>Hosts\<close>

definition is_blocked_media_cdn :: "string \<Rightarrow> bool" where
  "is_blocked_media_cdn ip \<longleftrightarrow> (case map_of dc_alt_ips ip of Some (dc, m) \<Rightarrow> m | None \<Rightarrow> False)"

definition media_http_host :: "int \<Rightarrow> string" where
  "media_http_host dc = ''kws'' @ show_int (fold_dc dc) @ ''-1.web.telegram.org''"

definition regular_http_host :: "int \<Rightarrow> string" where
  "regular_http_host dc = ''kws'' @ show_int (fold_dc dc) @ ''.web.telegram.org''"

definition http_front_host :: "learned_map \<Rightarrow> string \<Rightarrow> nat \<Rightarrow> string" where
  "http_front_host lm orig_ip orig_port =
     (if orig_port \<noteq> 80 then ''''
      else case dc_from_orig_dst lm orig_ip of
             None \<Rightarrow> ''''
           | Some (dc, is_media) \<Rightarrow> if is_media then media_http_host dc else regular_http_host dc)"

definition tls_front_host :: "learned_map \<Rightarrow> string \<Rightarrow> nat \<Rightarrow> string" where
  "tls_front_host lm orig_ip orig_port =
     (if orig_port \<noteq> 443 then ''''
      else case dc_from_orig_dst lm orig_ip of
             None \<Rightarrow> ''''
           | Some (dc, is_media) \<Rightarrow> if is_media then media_http_host dc else regular_http_host dc)"

section \<open>The Host rewrite\<close>

definition byte_lower :: "byte \<Rightarrow> byte" where
  "byte_lower b = (if 0x41 \<le> b \<and> b \<le> 0x5A then b + 0x20 else b)"

text \<open>Where the line of the first \<open>Host\<close> header starts: after CR LF, else after a bare LF.\<close>

definition host_line_start :: "bytes \<Rightarrow> nat option" where
  "host_line_start data =
     (let lower = map byte_lower data
      in case find_sub (as_bytes ([CHR 0x0D, CHR 0x0A] @ ''host:'')) lower of
           Some i \<Rightarrow> Some (i + 2)
         | None \<Rightarrow> map_option (\<lambda>i. i + 1) (find_sub (as_bytes (CHR 0x0A # ''host:'')) lower))"

definition replace_http_host :: "bytes \<Rightarrow> string \<Rightarrow> bytes option" where
  "replace_http_host data new_host = do {
     line_start \<leftarrow> host_line_start data;
     let rest = drop line_start data;
     colon \<leftarrow> position (\<lambda>b. b = 0x3A) rest;
     let val = dropWhile is_space_tab (drop (colon + 1) rest);
     Some (take line_start data @ take (colon + 1) rest @ [0x20] @ as_bytes new_host
           @ dropWhile not_eol val)
   }"

definition rewrite_http_front_host :: "learned_map \<Rightarrow> bytes \<Rightarrow> string \<Rightarrow> nat \<Rightarrow> bytes" where
  "rewrite_http_front_host lm data orig_ip orig_port =
     (let host = http_front_host lm orig_ip orig_port
      in if host = '''' then data
         else case replace_http_host data host of Some out \<Rightarrow> out | None \<Rightarrow> data)"

definition needs_http_host_rewrite :: "learned_map \<Rightarrow> string \<Rightarrow> bool" where
  "needs_http_host_rewrite lm orig_ip \<longleftrightarrow>
     (if is_blocked_media_cdn orig_ip then True
      else case dc_from_orig_dst lm orig_ip of Some (dc, is_media) \<Rightarrow> is_media | None \<Rightarrow> False)"

definition http_front_passthrough_payload :: "learned_map \<Rightarrow> bytes \<Rightarrow> string \<Rightarrow> nat \<Rightarrow> bytes" where
  "http_front_passthrough_payload lm data orig_ip orig_port =
     (if orig_port \<noteq> 80 \<or> \<not> needs_http_host_rewrite lm orig_ip then data
      else rewrite_http_front_host lm data orig_ip orig_port)"

section \<open>The answer of the front\<close>

definition http_status_code :: "bytes \<Rightarrow> nat option" where
  "http_status_code chunk =
     (if \<not> is_utf8 chunk then None
      else case lines (text_of chunk) of
             [] \<Rightarrow> None
           | line # _ \<Rightarrow>
               Option.bind (strip_prefix ''HTTP/'' line)
                 (\<lambda>rest. case drop 1 (split_whitespace rest) of
                    [] \<Rightarrow> None
                  | s # _ \<Rightarrow> parse_u16 s))"

definition media_http_rejected :: "nat option \<Rightarrow> bool" where
  "media_http_rejected status \<longleftrightarrow>
     (case status of Some s \<Rightarrow> \<not> (200 \<le> s \<and> s < 300) | None \<Rightarrow> False)"

definition should_try_worker_passthrough :: "nat \<Rightarrow> bool" where
  "should_try_worker_passthrough orig_port \<longleftrightarrow> orig_port \<noteq> 80"

section \<open>Passthrough targets\<close>

definition web_blocked_ips :: "string list" where
  "web_blocked_ips =
     [''149.154.167.99'', ''149.154.175.211'', ''149.154.171.255'', ''149.154.162.123'',
      ''149.154.175.204'', ''149.154.175.205'']"

text \<open>The part of a lower-cased host before its port.\<close>

definition bare_host :: "string \<Rightarrow> string" where
  "bare_host host = hd (split_on (\<lambda>c. c = CHR '':'') host)"

definition is_web_telegram_host :: "(string \<Rightarrow> string) \<Rightarrow> string \<Rightarrow> bool" where
  "is_web_telegram_host lc host \<longleftrightarrow>
     (let host = lc (trim host)
      in if host = '''' then False
         else let host = bare_host host
              in host = ''web.telegram.org'' \<or> ends_with ''.web.telegram.org'' host)"

definition is_cdn_telegram_host :: "(string \<Rightarrow> string) \<Rightarrow> string \<Rightarrow> bool" where
  "is_cdn_telegram_host lc host \<longleftrightarrow>
     (let host = lc (trim host)
      in if host = '''' then False
         else let host = bare_host host
              in if host = ''telesco.pe'' then True
                 else ends_with ''.telesco.pe'' host
                   \<or> starts_with ''cdn'' host \<and> ends_with ''.telegram.org'' host)"

definition dc_public_ips :: "string list" where
  "dc_public_ips =
     [''149.154.167.51'', ''149.154.175.50'', ''149.154.175.100'', ''149.154.167.91'',
      ''149.154.171.5'', ''91.105.192.100'']"

definition passthrough_targets ::
  "(string \<Rightarrow> string) \<Rightarrow> front_state \<Rightarrow> learned_map \<Rightarrow> string \<Rightarrow> string \<Rightarrow> nat \<Rightarrow> string list" where
  "passthrough_targets lc st lm orig_ip host orig_port =
     (let front = fs_front_ip st;
          web_host = is_web_telegram_host lc host;
          cdn_host = is_cdn_telegram_host lc host;
          blocked_orig = orig_ip \<in> set web_blocked_ips;
          media_cdn = is_blocked_media_cdn orig_ip;
          http_front = orig_port = 80 \<and> http_front_host lm orig_ip orig_port \<noteq> '''';
          tls_front = orig_port = 443 \<and> tls_front_host lm orig_ip orig_port \<noteq> '''';
          targets =
            (if web_host \<or> cdn_host \<or> blocked_orig \<or> media_cdn \<or> http_front \<or> tls_front
             then let t = add_target front []
                  in if orig_ip \<noteq> '''' \<and> \<not> blocked_orig \<and> \<not> media_cdn \<and> \<not> http_front \<and> \<not> tls_front
                     then add_target orig_ip t else t
             else let t = (if orig_ip \<noteq> '''' then add_target orig_ip [] else [])
                  in add_target front t)
      in if \<not> media_cdn \<and> \<not> http_front \<and> \<not> tls_front then fold add_target dc_public_ips targets
         else targets)"

section \<open>A rewritten request is routed by its new host\<close>

lemma find_sub_here: "pat \<noteq> [] \<Longrightarrow> find_sub pat (pat @ zs) = Some 0"
  by (cases pat) simp_all

lemma find_sub_cut:
  "pat \<noteq> [] \<Longrightarrow> find_sub pat xs = Some i \<Longrightarrow> n = i + length pat \<Longrightarrow> find_sub pat (take n xs @ zs) = Some i"
proof (induction xs arbitrary: i n)
  case (Cons x xs)
  show ?case
  proof (cases "take (length pat) (x # xs) = pat")
    case True
    then have "n = length pat" using Cons.prems by simp
    with True have "take n (x # xs) @ zs = pat @ zs" by simp
    then show ?thesis using True Cons.prems by (simp add: find_sub_here)
  next
    case False
    then obtain j where j: "find_sub pat xs = Some j" "i = Suc j" using Cons.prems by auto
    then have n: "n = Suc (j + length pat)" using Cons.prems by simp
    then have "take n (x # xs) @ zs = x # (take (j + length pat) xs @ zs)" by simp
    moreover have "take (length pat) (x # (take (j + length pat) xs @ zs)) \<noteq> pat"
    proof
      assume eq: "take (length pat) (x # (take (j + length pat) xs @ zs)) = pat"
      have room: "j + length pat \<le> length xs" using find_sub_room [OF j(1)] .
      then have "take (length pat) (x # (take (j + length pat) xs @ zs)) = take (length pat) (x # xs)"
        by (cases "length pat") (simp_all add: min_def)
      with eq False show False by simp
    qed
    ultimately show ?thesis using Cons.IH [OF Cons.prems(1) j(1) refl] j(2) by simp
  qed
qed simp

lemma find_sub_map: "inj f \<Longrightarrow> find_sub (map f p) (map f xs) = find_sub p xs"
proof (induction xs)
  case (Cons x xs)
  have "(take (length p) (map f (x # xs)) = map f p) = (take (length p) (x # xs) = p)"
    using Cons.prems by (metis inj_map_eq_map take_map)
  with Cons show ?case by simp
qed simp

abbreviation char_byte :: "byte \<Rightarrow> char" where
  "char_byte b \<equiv> char_of (unat b)"

lemma ord_char_byte [simp]: "ord (char_byte b) = unat b"
  by (simp add: of_char_of)

lemma inj_char_byte: "inj (\<lambda>b :: byte. char_byte b)"
  by (rule injI) (metis ord_char_byte unsigned_word_eqI)

lemma unat_byte_lower:
  "unat (byte_lower b) = (if 65 \<le> unat b \<and> unat b \<le> 90 then unat b + 32 else unat b)"
  by (simp add: byte_lower_def word_le_nat_alt unat_word_ariths)

lemma char_lower_byte: "char_lower (char_byte b) = char_byte (byte_lower b)"
  by (simp add: char_lower_def is_ascii_uppercase_def unat_byte_lower)

lemma lower_text: "to_ascii_lowercase (text_of bs) = text_of (map byte_lower bs)"
  by (simp add: to_ascii_lowercase_def text_of_def char_lower_byte)

lemma find_text: "find_sub (text_of p) (text_of xs) = find_sub p xs"
  unfolding text_of_def by (rule find_sub_map [OF inj_char_byte])

lemma find_host: "find_sub host_pattern (to_ascii_lowercase (text_of data)) =
    find_sub (as_bytes host_pattern) (map byte_lower data)"
  using find_text [of "as_bytes host_pattern" "map byte_lower data"] by (simp only: lower_text text_of_as_bytes)

lemma byte_lower_colon: "byte_lower b = 0x3A \<longleftrightarrow> b = 0x3A"
  by (auto simp: word_unat_eq_iff unat_byte_lower)

lemma five_items: "length xs = 5 \<Longrightarrow> \<exists>a b c d e. xs = [a, b, c, d, e]"
  by (auto simp: eval_nat_numeral length_Suc_conv)

lemma as_bytes_Nil [simp]: "as_bytes s = [] \<longleftrightarrow> s = []"
  by (simp add: as_bytes_def)

lemma host_line:
  assumes "find_sub (as_bytes host_pattern) (map byte_lower data) = Some i"
  shows "host_line_start data = Some (i + 2)"
    and "position (\<lambda>b. b = 0x3A) (drop (i + 2) data) = Some 4"
    and "i + 7 \<le> length data"
proof -
  have room: "i + 7 \<le> length data"
    using find_sub_room [OF assms] by simp
  have "length (as_bytes host_pattern) = 7" by simp
  then have "take 7 (drop i (map byte_lower data)) = as_bytes host_pattern"
    using find_sub_Some [OF assms] by metis
  then have "drop 2 (take 7 (drop i (map byte_lower data))) = as_bytes ''host:''"
    by (simp add: as_bytes_def)
  then have low: "map byte_lower (take 5 (drop (i + 2) data)) = as_bytes ''host:''"
    by (simp add: drop_take drop_map take_map add.commute)
  have "length (take 5 (drop (i + 2) data)) = 5"
    using room by simp
  then have "\<exists>a b c d e. take 5 (drop (i + 2) data) = [a, b, c, d, e]"
    by (rule five_items)
  then obtain a b c d e where t: "take 5 (drop (i + 2) data) = [a, b, c, d, e]"
    by blast
  then have "drop (i + 2) data = [a, b, c, d, e] @ drop 5 (drop (i + 2) data)"
    by (metis append_take_drop_id)
  moreover have "byte_lower a = 0x68" "byte_lower b = 0x6F" "byte_lower c = 0x73" "byte_lower d = 0x74"
    "e = 0x3A"
    using low unfolding t by (simp_all add: as_bytes_def byte_lower_colon)
  moreover from this have "a \<noteq> 0x3A" "b \<noteq> 0x3A" "c \<noteq> 0x3A" "d \<noteq> 0x3A"
    by (auto simp: byte_lower_def)
  ultimately show "position (\<lambda>b. b = 0x3A) (drop (i + 2) data) = Some 4"
    by (simp add: numeral_eq_Suc)
  show "host_line_start data = Some (i + 2)"
    using assms by (simp add: host_line_start_def)
  show "i + 7 \<le> length data" by (rule room)
qed

lemma replace_http_host_split:
  assumes "find_sub (as_bytes host_pattern) (map byte_lower data) = Some i"
  obtains val post where "data = take (i + 7) data @ val @ post"
    and "\<forall>b \<in> set val. not_eol b" and "post = [] \<or> \<not> not_eol (hd post)"
    and "replace_http_host data host = Some (take (i + 7) data @ [0x20] @ as_bytes host @ post)"
proof -
  let ?sp = "takeWhile is_space_tab (drop (i + 7) data)"
  let ?rest = "dropWhile is_space_tab (drop (i + 7) data)"
  let ?val = "?sp @ takeWhile not_eol ?rest" and ?post = "dropWhile not_eol ?rest"
  have "drop 5 (drop (i + 2) data) = drop (i + 7) data"
    by (simp add: add.commute)
  moreover have "take (i + 2) data @ take 5 (drop (i + 2) data) = take (i + 7) data"
    using take_add [of "i + 2" 5 data] by (simp add: add.commute)
  ultimately have "replace_http_host data host =
      Some (take (i + 7) data @ [0x20] @ as_bytes host @ ?post)"
    using host_line [OF assms] by (simp add: replace_http_host_def Let_def)
  moreover have "data = take (i + 7) data @ ?val @ ?post"
    by (simp add: append_assoc)
  moreover have "\<forall>b \<in> set ?val. not_eol b"
    by (auto dest!: set_takeWhileD simp: is_space_tab_def not_eol_def)
  moreover have "?post = [] \<or> \<not> not_eol (hd ?post)"
    using hd_dropWhile by blast
  ultimately show thesis using that by blast
qed

lemma graphic_bytes:
  assumes "\<forall>c \<in> set host. is_graphic c"
  shows "\<forall>b \<in> set (as_bytes host). b < 0x80 \<and> not_eol b \<and> \<not> is_space_tab b"
proof
  fix b assume "b \<in> set (as_bytes host)"
  then obtain c where "c \<in> set host" and b: "b = of_nat (ord c)" by (auto simp: as_bytes_def)
  with assms have "33 \<le> ord c \<and> ord c \<le> 126" by (simp add: is_graphic_def)
  then have "unat b = ord c \<and> 33 \<le> ord c \<and> ord c \<le> 126"
    unfolding b by (simp add: unat_of_nat)
  then show "b < 0x80 \<and> not_eol b \<and> \<not> is_space_tab b"
    by (auto simp: not_eol_def is_space_tab_def word_less_nat_alt word_unat_eq_iff)
qed

definition ascii_lower :: "(string \<Rightarrow> string) \<Rightarrow> bool" where
  "ascii_lower lc \<longleftrightarrow> (\<forall>s. (\<forall>c \<in> set s. ord c < 128) \<longrightarrow> lc s = to_ascii_lowercase s)"

lemma ascii_lower_text:
  assumes "ascii_lower lc" and "\<forall>b \<in> set bs. b < 0x80"
  shows "lc (text_of bs) = to_ascii_lowercase (text_of bs)"
proof -
  have "\<forall>c \<in> set (text_of bs). ord c < 128"
    using assms(2) by (auto simp: text_of_def word_less_nat_alt)
  with assms(1) show ?thesis by (simp add: ascii_lower_def)
qed

text \<open>The scanner on a request with the header line \<open>Host: host\<close>.\<close>

lemma http_host_raw_line:
  assumes "find_sub (as_bytes host_pattern) (map byte_lower data) = Some i"
    and "\<forall>b \<in> set (take (i + 7) data). b < 0x80" and "\<forall>b \<in> set post. b < 0x80"
    and "host \<noteq> ''''" and "\<forall>c \<in> set host. is_graphic c"
    and "post = [] \<or> \<not> not_eol (hd post)"
    and "i + 8 + length host \<le> 4096" and "ascii_lower lc"
  shows "http_host_raw lc (take (i + 7) data @ [0x20] @ as_bytes host @ post) = Some (Some host)"
proof -
  let ?out = "take (i + 7) data @ [0x20] @ as_bytes host @ post"
  define p where "p = take (4096 - (i + 8 + length host)) post"
  have len: "length (take (i + 7) data) = i + 7"
    using host_line(3) [OF assms(1)] by simp
  then have d: "take 4096 ?out = take (i + 7) data @ [0x20] @ as_bytes host @ p"
    using assms(7) by (simp add: p_def take_Cons')
  define D where "D = take 4096 ?out"
  have D: "D = take (i + 7) data @ [0x20] @ as_bytes host @ p"
    unfolding D_def by (rule d)
  have ascii: "\<forall>b \<in> set D. b < 0x80"
    unfolding D p_def using assms(2,3) graphic_bytes [OF assms(5)] by (auto dest: in_set_takeD)
  have "find_sub host_pattern (to_ascii_lowercase (text_of D)) = Some i"
    unfolding find_host D
    using find_sub_cut [OF _ assms(1), of "i + 7" "map byte_lower ([0x20] @ as_bytes host @ p)"]
    by (simp add: take_map)
  then have find: "find_sub host_pattern (lc (from_utf8_lossy D)) = Some i"
    using ascii_lower_text [OF assms(8) ascii] text_of_ascii_lossy [OF ascii] by simp
  have "slice D (i + 7) (length D) = Some ([0x20] @ as_bytes host @ p)"
    unfolding D using len by (simp add: slice_def)
  moreover have "dropWhile is_space_tab ([0x20] @ as_bytes host @ p) = as_bytes host @ p"
    using graphic_bytes [OF assms(5)] assms(4)
    by (cases "as_bytes host") (auto simp: is_space_tab_def)
  moreover have "p = [] \<or> \<not> not_eol (hd p)"
    using assms(6) by (cases post) (auto simp: p_def take_Cons')
  then have "takeWhile not_eol (as_bytes host @ p) = as_bytes host"
    using graphic_bytes [OF assms(5)] by (cases p) auto
  moreover have "from_utf8_lossy (as_bytes host) = host"
    using graphic_bytes [OF assms(5)] by (simp add: text_of_ascii_lossy)
  ultimately show ?thesis
    using assms(4) trim_all_graphic [OF assms(5)] find
    unfolding http_host_raw_def Let_def D_def [symmetric] by simp
qed

lemma front_hosts_graphic:
  "\<forall>c \<in> set (media_http_host dc). is_graphic c" "\<forall>c \<in> set (regular_http_host dc). is_graphic c"
  "media_http_host dc \<noteq> ''''"
proof -
  have "\<forall>c \<in> set (show_int (fold_dc dc)). is_graphic c"
    using show_nat_graphic by (auto simp: show_int_def is_graphic_def)
  then show "\<forall>c \<in> set (media_http_host dc). is_graphic c" "\<forall>c \<in> set (regular_http_host dc). is_graphic c"
    "media_http_host dc \<noteq> ''''"
    by (auto simp: media_http_host_def regular_http_host_def is_graphic_def)
qed


definition sample_request :: bytes where
  "sample_request = as_bytes (''POST /api HTTP/1.1'' @ [CHR 0x0D, CHR 0x0A] @ ''Host: 91.108.56.155:80''
     @ [CHR 0x0D, CHR 0x0A, CHR 0x0D, CHR 0x0A] @ ''body'')"


section \<open>The passthrough targets\<close>

lemma set_add_targets: "set (fold add_target xs out) = set out \<union> (set xs - {''''})"
  by (induction xs arbitrary: out) (auto simp: add_target_def)

lemma distinct_add_targets: "distinct (fold add_target xs out) = distinct out"
  by (induction xs arbitrary: out) (auto simp: add_target_def)

lemma hd_add_targets: "out \<noteq> [] \<Longrightarrow> hd (fold add_target xs out) = hd out"
proof (induction xs arbitrary: out)
  case (Cons x xs)
  then have "add_target x out \<noteq> [] \<and> hd (add_target x out) = hd out"
    by (auto simp: add_target_def push_new_def)
  with Cons.IH show ?case by simp
qed simp

lemma front_host_known:
  "http_front_host lm ip 80 \<noteq> '''' \<longleftrightarrow> dc_from_orig_dst lm ip \<noteq> None"
  "tls_front_host lm ip 443 \<noteq> '''' \<longleftrightarrow> dc_from_orig_dst lm ip \<noteq> None"
  by (auto simp: http_front_host_def tls_front_host_def media_http_host_def regular_http_host_def
      split: option.splits prod.splits)

text \<open>Addresses the ISP or the front makes useless to dial directly.\<close>

definition fronted :: "learned_map \<Rightarrow> string \<Rightarrow> nat \<Rightarrow> bool" where
  "fronted lm ip port \<longleftrightarrow> port \<in> {80, 443} \<and> dc_from_orig_dst lm ip \<noteq> None"

text \<open>
  C31: The targets of blind passthrough, with a front configured: no address twice, none empty,
  the front always among them. The original destination is dialled first when it is not known to
  be blocked and the host is not one of Telegram's web or CDN hosts; a blocked destination (a
  blocked web address, a media CDN, or a datacenter address on port 80 or 443) is never dialled
  itself, the front comes first for it, and for a media CDN or a datacenter it is the only target.
\<close>

theorem passthrough_targets_safe:
  assumes "fs_front_ip st \<noteq> ''''"
  shows "let ts = passthrough_targets lc st lm orig_ip host orig_port; front = fs_front_ip st;
             only_front = is_blocked_media_cdn orig_ip \<or> fronted lm orig_ip orig_port;
             blocked = orig_ip \<in> set web_blocked_ips \<or> only_front
         in distinct ts \<and> '''' \<notin> set ts \<and> front \<in> set ts
            \<and> orig_ip \<notin> (if blocked then set ts - {front} else {orig_ip} - {''''} - set ts)
            \<and> hd ts = (if blocked \<or> is_web_telegram_host lc host \<or> is_cdn_telegram_host lc host
                          \<or> orig_ip = '''' then front else orig_ip)
            \<and> (if only_front then ts = [front] else set dc_public_ips \<subseteq> set ts)"
proof -
  have ports: "(orig_port = 80 \<and> http_front_host lm orig_ip orig_port \<noteq> ''''
      \<or> orig_port = 443 \<and> tls_front_host lm orig_ip orig_port \<noteq> '''') = fronted lm orig_ip orig_port"
    using front_host_known [of lm orig_ip] unfolding fronted_def by fastforce
  have disj: "orig_ip \<in> set web_blocked_ips \<Longrightarrow> orig_ip \<notin> set dc_public_ips"
    by (auto simp: web_blocked_ips_def dc_public_ips_def)
  have nonempty: "'''' \<notin> set dc_public_ips"
    by (simp add: dc_public_ips_def)
  note ops = add_target_def push_new_def
  show ?thesis
  proof (cases "is_blocked_media_cdn orig_ip \<or> fronted lm orig_ip orig_port")
    case True
    then have "passthrough_targets lc st lm orig_ip host orig_port = [fs_front_ip st]"
      using assms ports by (auto simp: passthrough_targets_def Let_def ops)
    with True assms show ?thesis by (auto simp: Let_def)
  next
    case False
    define t where "t =
      (if is_web_telegram_host lc host \<or> is_cdn_telegram_host lc host \<or> orig_ip \<in> set web_blocked_ips
       then (if orig_ip \<noteq> '''' \<and> orig_ip \<notin> set web_blocked_ips
             then add_target orig_ip [fs_front_ip st] else [fs_front_ip st])
       else (if orig_ip \<noteq> '''' then add_target (fs_front_ip st) [orig_ip] else [fs_front_ip st]))"
    have ts: "passthrough_targets lc st lm orig_ip host orig_port = fold add_target dc_public_ips t"
      using assms False ports unfolding passthrough_targets_def t_def Let_def
      by (auto simp: ops)
    have "t \<noteq> []" "distinct t" "'''' \<notin> set t" "fs_front_ip st \<in> set t"
      using assms by (auto simp: t_def ops)
    moreover have "hd t = (if orig_ip \<in> set web_blocked_ips \<or> is_web_telegram_host lc host
        \<or> is_cdn_telegram_host lc host \<or> orig_ip = '''' then fs_front_ip st else orig_ip)"
      by (auto simp: t_def ops)
    moreover have "if orig_ip \<in> set web_blocked_ips then set t = {fs_front_ip st}
        else {orig_ip} - {''''} \<subseteq> set t"
      by (auto simp: t_def ops)
    ultimately show ?thesis
      unfolding ts using False disj nonempty
      by (auto simp: Let_def set_add_targets distinct_add_targets hd_add_targets split: if_splits)
  qed
qed

theorem passthrough_targets_safe_witness:
  "hd (passthrough_targets to_ascii_lowercase init_front [] ''149.154.167.99'' ''web.telegram.org'' 443)
   = ''149.154.167.220''"
  using passthrough_targets_safe [of init_front to_ascii_lowercase "[]" "''149.154.167.99''"
      "''web.telegram.org''" 443]
  by (simp add: Let_def init_front_def web_blocked_ips_def)

end
