(* ===== verification/Handshake.thy ===== *)
theory Handshake
  imports Tls_Sni Media
begin

text \<open>
  \<open>handshake.rs\<close>: the first bytes of an accepted connection are read and classified as an
  MTProto handshake, an HTTP request or a TLS stream. The socket is the list of the outcomes its
  reads will have; a read of at most \<open>room\<close> bytes leaves the rest of a longer chunk for the next
  one, and a list that is used up is a peer that stays silent, so the read times out. \<open>clk k\<close> is
  the time since the start when the loop is entered for the \<open>k\<close>-th time. \<open>us\<close> is the number of
  values of \<open>usize\<close> on the target. \<open>None\<close> is a panic.
\<close>

section \<open>Sockets\<close>

datatype read_ev = RdBytes bytes | RdEof | RdErr string | RdTimeout

type_synonym sock = "read_ev list"

fun sock_read :: "nat \<Rightarrow> sock \<Rightarrow> read_ev \<times> sock" where
  "sock_read room [] = (RdTimeout, [])"
| "sock_read room (RdBytes bs # s) =
     (RdBytes (take room bs), if length bs > room then RdBytes (drop room bs) # s else s)"
| "sock_read room (ev # s) = (ev, s)"

text \<open>What the peer sends in all.\<close>

fun sock_bytes :: "sock \<Rightarrow> bytes" where
  "sock_bytes [] = []"
| "sock_bytes (RdBytes bs # s) = bs @ sock_bytes s"
| "sock_bytes (_ # s) = sock_bytes s"

text \<open>A read that returns bytes brings a buffer closer to its bound.\<close>

lemma read_progress: "length buf < n \<Longrightarrow> bs \<noteq> [] \<Longrightarrow> n - (length buf + length bs) < n - length buf"
  by (cases bs) auto

section \<open>Classification\<close>

definition INIT_READ_MAX :: nat where "INIT_READ_MAX = 4096"
definition INIT_READ_TOTAL :: nat where "INIT_READ_TOTAL = 10 * NANOS"

definition looks_like_tls_stream :: "bytes \<Rightarrow> bool" where
  "looks_like_tls_stream data \<longleftrightarrow>
     (if length data < 2 then False
      else data ! 1 = 0x03 \<and> (data ! 0 = 0x16 \<or> data ! 0 = 0x17))"

definition is_http_transport :: "bytes \<Rightarrow> bool" where
  "is_http_transport data \<longleftrightarrow>
     (if length data < 4 then False
      else take 4 data = as_bytes ''POST''
        \<or> length data \<ge> 3 \<and> take 3 data = as_bytes ''GET''
        \<or> take 4 data = as_bytes ''HEAD''
        \<or> length data \<ge> 7 \<and> take 7 data = as_bytes ''OPTIONS'')"

abbreviation head_end :: bytes where
  "head_end \<equiv> [0x0D, 0x0A, 0x0D, 0x0A]"

definition has_complete_http_headers :: "bytes \<Rightarrow> bool" where
  "has_complete_http_headers data \<longleftrightarrow> find_sub head_end data \<noteq> None"

definition find_handshake_offset :: "keystream \<Rightarrow> bytes \<Rightarrow> nat option" where
  "find_handshake_offset ks buf =
     (if length buf < HANDSHAKE_LEN then None
      else find (\<lambda>off. case parse_direct_handshake ks (take HANDSHAKE_LEN (drop off buf)) of
                         Inr _ \<Rightarrow> True | Inl _ \<Rightarrow> False)
             [0..<length buf - HANDSHAKE_LEN + 1])"

section \<open>The body of an HTTP request\<close>

definition length_pattern :: "bool \<Rightarrow> bytes" where
  "length_pattern cr =
     as_bytes (if cr then [CHR 0x0D, CHR 0x0A] @ ''content-length:'' else CHR 0x0A # ''content-length:'')"

lemma length_pattern_pos: "0 < length (length_pattern cr)"
  by (simp add: length_pattern_def)

lemma search_progress:
  "search + length (length_pattern cr) \<le> n \<Longrightarrow>
   n - (search + rel + length (length_pattern cr)) < n - search"
  using length_pattern_pos [of cr] by linarith

definition is_digit_byte :: "byte \<Rightarrow> bool" where
  "is_digit_byte b \<longleftrightarrow> 0x30 \<le> b \<and> b \<le> 0x39"

text \<open>The search for one pattern: \<open>Some r\<close> when the function returns \<open>r\<close> from it.\<close>

function search_length :: "nat \<Rightarrow> bytes \<Rightarrow> bool \<Rightarrow> nat \<Rightarrow> nat option option" where
  "search_length us headers cr search =
     (let lower = map byte_lower headers; pat = length_pattern cr
      in if search + length pat \<le> length lower
         then (case find_sub pat (drop search lower) of
                 None \<Rightarrow> None
               | Some rel \<Rightarrow>
                   let start = search + rel + length pat;
                       val_start = start + length (takeWhile is_space_tab (drop start lower));
                       n = length (takeWhile is_digit_byte (drop val_start lower))
                   in if n > 0
                      then let v = take n (drop val_start headers)
                           in Some (if is_utf8 v then parse_unsigned us (text_of v) else None)
                      else search_length us headers cr start)
         else None)"
  by pat_completeness auto
termination
  by (relation "measure (\<lambda>(us, headers, cr, search). length headers - search)")
    (auto simp: Let_def intro: search_progress)

declare search_length.simps [simp del]

definition parse_http_content_length :: "nat \<Rightarrow> bytes \<Rightarrow> nat option" where
  "parse_http_content_length us headers =
     (case search_length us headers True 0 of
        Some r \<Rightarrow> r
      | None \<Rightarrow> (case search_length us headers False 0 of Some r \<Rightarrow> r | None \<Rightarrow> None))"

text \<open>The error text is a reason for the log; the connection is then relayed blindly.\<close>

function read_body :: "(nat \<Rightarrow> nat) \<Rightarrow> nat \<Rightarrow> nat \<Rightarrow> bytes \<Rightarrow> sock \<Rightarrow> sock \<times> bytes \<times> string" where
  "read_body clk k total_len buf s =
     (if length buf < total_len \<and> length buf < INIT_READ_MAX \<and> clk k < INIT_READ_TOTAL
      then (case sock_read (min (total_len - length buf) (INIT_READ_MAX - length buf)) s of
              (RdErr e, s') \<Rightarrow> (s', buf, e)
            | (RdBytes bs, s') \<Rightarrow>
                if bs = [] then (s', buf, ''http passthrough'')
                else read_body clk (k + 1) total_len (buf @ bs) s'
            | (_, s') \<Rightarrow> (s', buf, ''http passthrough''))
      else (s, buf, ''http passthrough''))"
  by pat_completeness auto
termination
  by (relation "measure (\<lambda>(clk, k, total_len, buf, s). total_len - length buf)")
    (auto intro: read_progress)

declare read_body.simps [simp del]

definition read_full_http_request ::
  "nat \<Rightarrow> (nat \<Rightarrow> nat) \<Rightarrow> sock \<Rightarrow> bytes \<Rightarrow> sock \<times> bytes \<times> string" where
  "read_full_http_request us clk s buf =
     (case find_sub head_end buf of
        None \<Rightarrow> (s, buf, ''http passthrough'')
      | Some i \<Rightarrow>
          (case parse_http_content_length us (take (i + 4) buf) of
             Some content_len \<Rightarrow> read_body clk 0 (min (i + 4 + content_len) (us - 1)) buf s
           | None \<Rightarrow> (s, buf, ''http passthrough'')))"

section \<open>Reading the init\<close>

record prefixed_stream =
  pf_inner :: sock
  pf_prefix :: bytes
  pf_off :: nat

datatype parsed_init =
    InitMtproto handshake_info prefixed_stream
  | InitErr sock bytes string

definition init_end :: "sock \<Rightarrow> bytes \<Rightarrow> parsed_init" where
  "init_end s buf =
     (if buf = [] then InitErr s [] ''EOF''
      else if length buf < HANDSHAKE_LEN then InitErr s buf (''short read '' @ show_nat (length buf))
      else InitErr s buf ''unrecognized handshake'')"

text \<open>One round of the loop after a read: \<open>None\<close> reads on.\<close>

definition classify ::
  "nat \<Rightarrow> keystream \<Rightarrow> (nat \<Rightarrow> nat) \<Rightarrow> sock \<Rightarrow> bytes \<Rightarrow> parsed_init option option" where
  "classify us ks clk s buf =
     (if is_http_transport buf \<and> has_complete_http_headers buf
      then Some (Some (case read_full_http_request us clk s buf of (s', b, e) \<Rightarrow> InitErr s' b e))
      else if looks_like_tls_stream buf then Some (Some (InitErr s buf ''tls passthrough''))
      else case find_handshake_offset ks buf of
             None \<Rightarrow> None
           | Some off \<Rightarrow>
               Some (case parse_direct_handshake ks (take HANDSHAKE_LEN (drop off buf)) of
                       Inl _ \<Rightarrow> None
                     | Inr info \<Rightarrow>
                         Some (InitMtproto info \<lparr>pf_inner = s,
                           pf_prefix = drop (off + HANDSHAKE_LEN) buf, pf_off = 0\<rparr>)))"

function read_init_loop ::
  "nat \<Rightarrow> keystream \<Rightarrow> (nat \<Rightarrow> nat) \<Rightarrow> (nat \<Rightarrow> nat) \<Rightarrow> nat \<Rightarrow> bytes \<Rightarrow> sock \<Rightarrow> parsed_init option" where
  "read_init_loop us ks clk clk2 k buf s =
     (if length buf < INIT_READ_MAX \<and> clk k < INIT_READ_TOTAL
      then (case sock_read (INIT_READ_MAX - length buf) s of
              (RdErr e, s') \<Rightarrow> Some (InitErr s' buf e)
            | (RdBytes bs, s') \<Rightarrow>
                if bs = [] then Some (init_end s' buf)
                else (case classify us ks clk2 s' (buf @ bs) of
                        Some r \<Rightarrow> r
                      | None \<Rightarrow> read_init_loop us ks clk clk2 (k + 1) (buf @ bs) s')
            | (_, s') \<Rightarrow> Some (init_end s' buf))
      else Some (init_end s buf))"
  by pat_completeness auto
termination
  by (relation "measure (\<lambda>(us, ks, clk, clk2, k, buf, s). INIT_READ_MAX - length buf)")
    (auto intro: read_progress)

declare read_init_loop.simps [simp del]

definition read_client_init ::
  "nat \<Rightarrow> keystream \<Rightarrow> (nat \<Rightarrow> nat) \<Rightarrow> (nat \<Rightarrow> nat) \<Rightarrow> sock \<Rightarrow> parsed_init option" where
  "read_client_init us ks clk clk2 s = read_init_loop us ks clk clk2 0 [] s"

section \<open>The stream after the handshake\<close>

definition prefixed_read :: "nat \<Rightarrow> prefixed_stream \<Rightarrow> read_ev \<times> prefixed_stream" where
  "prefixed_read room p =
     (if pf_off p < length (pf_prefix p)
      then let n = min room (length (pf_prefix p) - pf_off p)
           in (RdBytes (take n (drop (pf_off p) (pf_prefix p))), p\<lparr>pf_off := pf_off p + n\<rparr>)
      else case sock_read room (pf_inner p) of (r, s) \<Rightarrow> (r, p\<lparr>pf_inner := s\<rparr>))"

definition into_parts :: "prefixed_stream \<Rightarrow> sock \<times> bytes" where
  "into_parts p =
     (pf_inner p, if pf_off p < length (pf_prefix p) then drop (pf_off p) (pf_prefix p) else [])"

section \<open>No byte is lost\<close>

lemma sock_read_bytes:
  "sock_read room s = (RdBytes bs, s') \<Longrightarrow> sock_bytes s = bs @ sock_bytes s' \<and> length bs \<le> room"
  by (induction room s rule: sock_read.induct) (auto split: if_splits)

lemma sock_read_other:
  "sock_read room s = (ev, s') \<Longrightarrow> \<forall>bs. ev \<noteq> RdBytes bs \<Longrightarrow> sock_bytes s = sock_bytes s'"
  by (induction room s rule: sock_read.induct) auto

lemma read_body_keeps:
  "read_body clk k n buf s = (s', b, e) \<Longrightarrow>
   buf @ sock_bytes s = b @ sock_bytes s' \<and> (length buf \<le> INIT_READ_MAX \<longrightarrow> length b \<le> INIT_READ_MAX)"
proof (induction clk k n buf s rule: read_body.induct)
  case (1 clk k n buf s)
  obtain ev s1 where r: "sock_read (min (n - length buf) (INIT_READ_MAX - length buf)) s = (ev, s1)"
    by fastforce
  show ?case
  proof (cases "length buf < n \<and> length buf < INIT_READ_MAX \<and> clk k < INIT_READ_TOTAL")
    case False
    with "1.prems" show ?thesis by (subst (asm) read_body.simps) auto
  next
    case go: True
    show ?thesis
    proof (cases "\<exists>bs. ev = RdBytes bs \<and> bs \<noteq> []")
      case True
      then obtain bs where bs: "ev = RdBytes bs" "bs \<noteq> []" by blast
      have "read_body clk (k + 1) n (buf @ bs) s1 = (s', b, e)"
        using "1.prems" go r bs by (subst (asm) read_body.simps) simp
      with "1.IH" [OF go r [symmetric] bs] sock_read_bytes [OF r [unfolded bs]] show ?thesis
        by auto
    next
      case False
      then have "s' = s1 \<and> b = buf \<and> sock_bytes s = sock_bytes s1"
        using "1.prems" go r sock_read_bytes [of _ s "[]" s1] sock_read_other [OF r]
        by (subst (asm) read_body.simps) (auto split: read_ev.splits if_splits)
      with go show ?thesis by simp
    qed
  qed
qed

lemma full_request_keeps:
  "read_full_http_request us clk s buf = (s', b, e) \<Longrightarrow>
   buf @ sock_bytes s = b @ sock_bytes s' \<and> (length buf \<le> INIT_READ_MAX \<longrightarrow> length b \<le> INIT_READ_MAX)"
  by (auto simp: read_full_http_request_def dest: read_body_keeps split: option.splits)

text \<open>A result accounts for all of the stream \<open>str\<close>.\<close>

definition init_keeps :: "keystream \<Rightarrow> bytes \<Rightarrow> parsed_init \<Rightarrow> bool" where
  "init_keeps ks str r \<longleftrightarrow>
     (case r of
        InitMtproto info p \<Rightarrow>
          parse_direct_handshake ks (hi_handshake info) = Inr info \<and> pf_off p = 0 \<and>
          (\<exists>junk. str = junk @ hi_handshake info @ pf_prefix p @ sock_bytes (pf_inner p))
      | InitErr s buf e \<Rightarrow> str = buf @ sock_bytes s \<and> length buf \<le> INIT_READ_MAX)"

lemma parse_keeps_handshake: "parse_direct_handshake ks h = Inr info \<Longrightarrow> hi_handshake info = h"
  by (auto simp: parse_direct_handshake_def Let_def split: if_splits option.splits)

lemma find_handshake_offset_Some:
  assumes "find_handshake_offset ks buf = Some off"
  obtains info where "parse_direct_handshake ks (take HANDSHAKE_LEN (drop off buf)) = Inr info"
    and "off + HANDSHAKE_LEN \<le> length buf"
proof -
  have len: "HANDSHAKE_LEN \<le> length buf"
    using assms by (auto simp: find_handshake_offset_def split: if_splits)
  with assms have "off < length buf - HANDSHAKE_LEN + 1"
    and "case parse_direct_handshake ks (take HANDSHAKE_LEN (drop off buf)) of Inr _ \<Rightarrow> True | Inl _ \<Rightarrow> False"
    by (auto simp: find_handshake_offset_def find_Some_iff simp del: upt_Suc split: if_splits)
  with len that show thesis by (auto split: sum.splits)
qed

lemma split_at: "xs = take a xs @ take n (drop a xs) @ drop (a + n) xs"
  by (metis add.commute append_take_drop_id drop_drop)

lemma init_keeps_mtproto:
  "parse_direct_handshake ks (hi_handshake info) = Inr info \<Longrightarrow>
   str = junk @ hi_handshake info @ pre @ sock_bytes s \<Longrightarrow>
   init_keeps ks str (InitMtproto info \<lparr>pf_inner = s, pf_prefix = pre, pf_off = 0\<rparr>)"
  by (auto simp: init_keeps_def)

lemma init_end_keeps: "length buf \<le> INIT_READ_MAX \<Longrightarrow> init_keeps ks (buf @ sock_bytes s) (init_end s buf)"
  by (simp add: init_end_def init_keeps_def)

lemma classify_keeps:
  assumes "classify us ks clk s buf = Some r" and "length buf \<le> INIT_READ_MAX"
  shows "\<exists>x. r = Some x \<and> init_keeps ks (buf @ sock_bytes s) x"
proof (cases "is_http_transport buf \<and> has_complete_http_headers buf")
  case True
  obtain s' b e where f: "read_full_http_request us clk s buf = (s', b, e)"
    using prod_cases3 by blast
  with True assms full_request_keeps [OF f] show ?thesis
    by (auto simp: classify_def init_keeps_def)
next
  case http: False
  show ?thesis
  proof (cases "looks_like_tls_stream buf")
    case True
    with http assms show ?thesis by (auto simp: classify_def init_keeps_def)
  next
    case False
    with http assms(1) obtain off where off: "find_handshake_offset ks buf = Some off"
      by (auto simp: classify_def split: option.splits)
    obtain info where i: "parse_direct_handshake ks (take HANDSHAKE_LEN (drop off buf)) = Inr info"
      "off + HANDSHAKE_LEN \<le> length buf"
      by (rule find_handshake_offset_Some [OF off])
    have "hi_handshake info = take HANDSHAKE_LEN (drop off buf)"
      by (rule parse_keeps_handshake [OF i(1)])
    moreover have "buf @ sock_bytes s = take off buf @ take HANDSHAKE_LEN (drop off buf)
        @ drop (off + HANDSHAKE_LEN) buf @ sock_bytes s"
      using arg_cong [OF split_at [of buf off HANDSHAKE_LEN], of "\<lambda>xs. xs @ sock_bytes s"]
      by (simp only: append_assoc)
    ultimately have "init_keeps ks (buf @ sock_bytes s) (InitMtproto info
        \<lparr>pf_inner = s, pf_prefix = drop (off + HANDSHAKE_LEN) buf, pf_off = 0\<rparr>)"
      using i(1) by (intro init_keeps_mtproto) simp_all
    then show ?thesis
      using http False assms(1) off i(1) by (auto simp: classify_def)
  qed
qed

lemma read_init_loop_keeps:
  "length buf \<le> INIT_READ_MAX \<Longrightarrow>
   \<exists>r. read_init_loop us ks clk clk2 k buf s = Some r \<and> init_keeps ks (buf @ sock_bytes s) r"
proof (induction us ks clk clk2 k buf s rule: read_init_loop.induct)
  case (1 us ks clk clk2 k buf s)
  obtain ev s1 where r: "sock_read (INIT_READ_MAX - length buf) s = (ev, s1)"
    by fastforce
  show ?case
  proof (cases "length buf < INIT_READ_MAX \<and> clk k < INIT_READ_TOTAL")
    case False
    with init_end_keeps [OF "1.prems"] show ?thesis by (subst read_init_loop.simps) auto
  next
    case go: True
    show ?thesis
    proof (cases "\<exists>bs. ev = RdBytes bs \<and> bs \<noteq> []")
      case True
      then obtain bs where bs: "ev = RdBytes bs" "bs \<noteq> []" by blast
      have len: "length (buf @ bs) \<le> INIT_READ_MAX" and str: "sock_bytes s = bs @ sock_bytes s1"
        using sock_read_bytes [OF r [unfolded bs]] go by auto
      show ?thesis
      proof (cases "classify us ks clk2 s1 (buf @ bs)")
        case None
        with "1.IH" [OF go r [symmetric] bs None len] go r bs str show ?thesis
          by (subst read_init_loop.simps) simp
      next
        case (Some x)
        with classify_keeps [OF Some len] go r bs str show ?thesis
          by (subst read_init_loop.simps) simp
      qed
    next
      case False
      then have "sock_bytes s = sock_bytes s1"
        using sock_read_other [OF r] sock_read_bytes [of _ s "[]" s1] r by (cases ev) auto
      with init_end_keeps [OF "1.prems", of ks s1] False go r "1.prems" show ?thesis
        by (subst read_init_loop.simps) (auto simp: init_keeps_def split: read_ev.splits)
    qed
  qed
qed


section \<open>A handshake is recognised\<close>

lemma prefix_classes:
  assumes "buf @ rest = h @ extra" and "7 \<le> length h"
  shows "is_http_transport buf \<Longrightarrow> is_http_transport h"
    and "looks_like_tls_stream buf \<Longrightarrow> looks_like_tls_stream h"
proof -
  have t: "take n buf = take n h" if "n \<le> length buf" "n \<le> 7" for n
    using arg_cong [OF assms(1), of "take n"] that assms(2) by simp
  show "is_http_transport h" if "is_http_transport buf"
    using that t [of 4] t [of 3] t [of 7] assms(2)
    by (auto simp: is_http_transport_def split: if_splits)
  have n: "buf ! i = h ! i" if "i < length buf" "i < 7" for i
    using arg_cong [OF assms(1), of "\<lambda>xs. xs ! i"] that assms(2) by (simp add: nth_append)
  show "looks_like_tls_stream h" if tls: "looks_like_tls_stream buf"
  proof -
    have "1 < length buf" using tls by (simp add: looks_like_tls_stream_def split: if_splits)
    moreover from this have "buf ! 0 = h ! 0" "buf ! 1 = h ! 1" using n [of 0] n [of 1] by (cases buf; auto)+
    ultimately show ?thesis using tls assms(2) by (simp add: looks_like_tls_stream_def)
  qed
qed

lemma find_handshake_at_start:
  assumes "parse_direct_handshake ks (take HANDSHAKE_LEN buf) = Inr info" and "HANDSHAKE_LEN \<le> length buf"
  shows "find_handshake_offset ks buf = Some 0"
proof -
  have "[0..<length buf - HANDSHAKE_LEN + 1] = 0 # [1..<length buf - HANDSHAKE_LEN + 1]"
    by (simp add: upt_conv_Cons del: upt_Suc)
  with assms show ?thesis by (simp add: find_handshake_offset_def del: upt_Suc)
qed

lemma sock_bytes_chunks: "sock_bytes (map RdBytes chunks @ s0) = concat chunks @ sock_bytes s0"
  by (induction chunks) simp_all

text \<open>Once the handshake is complete, it is found at the start.\<close>

lemma classify_start:
  assumes h: "length h = HANDSHAKE_LEN" "\<not> is_http_transport h" "\<not> looks_like_tls_stream h"
    and str: "buf @ concat chunks = h @ extra" and len: "HANDSHAKE_LEN \<le> length buf"
    and info: "parse_direct_handshake ks h = Inr info"
  shows "\<exists>p. classify us ks clk2 (map RdBytes chunks @ s0) buf = Some (Some (InitMtproto info p)) \<and> pf_off p = 0
    \<and> pf_prefix p @ sock_bytes (pf_inner p) = extra @ sock_bytes s0"
proof -
  have "7 \<le> length h" using h(1) by (simp add: HANDSHAKE_LEN_def)
  note no = prefix_classes [OF str this]
  have start: "take HANDSHAKE_LEN buf = h" "drop HANDSHAKE_LEN buf @ concat chunks = extra"
    using arg_cong [OF str, of "take HANDSHAKE_LEN"] arg_cong [OF str, of "drop HANDSHAKE_LEN"] h(1) len by simp_all
  then have "find_handshake_offset ks buf = Some 0"
    using len info by (intro find_handshake_at_start) simp_all
  moreover have "drop HANDSHAKE_LEN buf @ sock_bytes (map RdBytes chunks @ s0) = extra @ sock_bytes s0"
    using start(2) by (metis append.assoc sock_bytes_chunks)
  ultimately show ?thesis using no info h(2,3) start(1) by (auto simp: classify_def)
qed

lemma handshake_loop:
  assumes h: "length h = HANDSHAKE_LEN" "\<not> is_http_transport h" "\<not> looks_like_tls_stream h"
  shows "length buf < HANDSHAKE_LEN \<Longrightarrow> buf @ concat chunks = h @ extra \<Longrightarrow> [] \<notin> set chunks \<Longrightarrow>
    s = map RdBytes chunks @ s0 \<Longrightarrow> parse_direct_handshake ks h = Inr info \<Longrightarrow>
    \<forall>k. clk k < INIT_READ_TOTAL \<Longrightarrow>
    \<exists>p. read_init_loop us ks clk clk2 k buf s = Some (InitMtproto info p) \<and> pf_off p = 0
      \<and> pf_prefix p @ sock_bytes (pf_inner p) = extra @ sock_bytes s0"
proof (induction us ks clk clk2 k buf s arbitrary: chunks rule: read_init_loop.induct)
  case (1 us ks clk clk2 k buf s)
  from "1.prems"(1,2) h(1) have "concat chunks \<noteq> []"
    by (metis append_Nil2 length_append not_add_less1)
  then obtain c cs where cs: "chunks = c # cs" "c \<noteq> []"
    using "1.prems"(3) by (cases chunks) auto
  define room where "room = INIT_READ_MAX - length buf"
  have room: "0 < room" "length buf < INIT_READ_MAX"
    using "1.prems"(1) by (simp_all add: room_def INIT_READ_MAX_def HANDSHAKE_LEN_def)
  define chunks2 where "chunks2 = (if length c > room then drop room c # cs else cs)"
  have read: "sock_read room s = (RdBytes (take room c), map RdBytes chunks2 @ s0)"
    using "1.prems"(4) by (simp add: cs chunks2_def)
  have bs: "take room c \<noteq> []" using cs room by (cases c) auto
  have "take room c @ concat chunks2 = concat chunks"
    by (auto simp: cs chunks2_def simp flip: append_assoc)
  then have str: "(buf @ take room c) @ concat chunks2 = h @ extra"
    using "1.prems"(2) by simp
  have ne: "[] \<notin> set chunks2" using "1.prems"(3) by (auto simp: cs chunks2_def)
  have "7 \<le> length h" using h(1) by (simp add: HANDSHAKE_LEN_def)
  note no = prefix_classes [OF str this]
  show ?case
  proof (cases "length (buf @ take room c) < HANDSHAKE_LEN")
    case True
    then have c: "classify us ks clk2 (map RdBytes chunks2 @ s0) (buf @ take room c) = None"
      using no h(2,3) by (auto simp: classify_def find_handshake_offset_def)
    have go: "length buf < INIT_READ_MAX \<and> clk k < INIT_READ_TOTAL"
      using room "1.prems"(6) by blast
    show ?thesis
      using "1.IH" [OF go read [unfolded room_def, symmetric] refl bs [unfolded room_def]
          c [unfolded room_def] True [unfolded room_def] str [unfolded room_def] ne refl "1.prems"(5,6)]
        go read bs c
      by (subst read_init_loop.simps) (simp add: room_def)
  next
    case False
    with classify_start [OF h str _ "1.prems"(5)] have "\<exists>p. classify us ks clk2 (map RdBytes chunks2 @ s0)
        (buf @ take room c) = Some (Some (InitMtproto info p)) \<and> pf_off p = 0
        \<and> pf_prefix p @ sock_bytes (pf_inner p) = extra @ sock_bytes s0"
      by simp
    then show ?thesis
      using room "1.prems"(6) read bs
      by (subst read_init_loop.simps) (auto simp: room_def)
  qed
qed


definition zero_handshake :: bytes where
  "zero_handshake = replicate 64 0"

lemma zero_handshake_parses: "\<exists>i. parse_direct_handshake (\<lambda>k i n. 0xEF) zero_handshake = Inr i"
proof -
  have "length zero_handshake = 64" "drop 56 zero_handshake = [0, 0, 0, 0, 0, 0, 0, 0]"
    by (simp_all add: zero_handshake_def numeral_eq_Suc)
  then show ?thesis
    by (simp add: parse_direct_handshake_def HANDSHAKE_LEN_def SKIP_LEN_def PREKEY_LEN_def
        IV_LEN_def PROTO_TAG_POS_def new_ctr_def apply_keystream_def tag_defs Let_def upt_rec_numeral)
qed


text \<open>
  A valid handshake whose random bytes start like a TLS record is taken for TLS: the obfuscation
  excludes only the start 16 03 01 02, the classifier takes every 16 03 and 17 03.
\<close>

lemma tls_like_handshake_relayed:
  assumes "looks_like_tls_stream h" and "length h = HANDSHAKE_LEN"
  shows "read_client_init us ks (\<lambda>k. 0) clk2 [RdBytes h] = Some (InitErr [] h ''tls passthrough'')"
proof -
  have "h ! 0 = 0x16 \<or> h ! 0 = 0x17"
    using assms(1) by (auto simp: looks_like_tls_stream_def split: if_splits)
  moreover obtain a r where "h = a # r" using assms(2) by (cases h) (simp_all add: HANDSHAKE_LEN_def)
  ultimately have "\<not> is_http_transport h" "h \<noteq> []"
    by (auto simp: is_http_transport_def as_bytes_def take_Cons')
  with assms show ?thesis
    by (simp add: read_client_init_def read_init_loop.simps classify_def INIT_READ_TOTAL_def
        NANOS_def INIT_READ_MAX_def HANDSHAKE_LEN_def)
qed

end
