(* ===== verification/Stats.thy ===== *)
theory Stats
  imports Rust_Text "HOL-Library.Multiset"
begin

text \<open>
  \<open>stats.rs\<close> and \<open>heap.rs\<close>: the runtime counters, the gauge of connections in flight, the
  accounting of live heap blocks by size class, and the text of \<open>wrtg --stats\<close>. The atomics are
  naturals: the counters only grow (the source calls a wrap after 2^32 events harmless), and the
  heap balances are proved never to be decremented below zero.
\<close>

section \<open>Counters and the gauge\<close>

datatype stat =
    Accepted | SelfConnectDropped | WsPoolHit | WsDirect | Fronting | CfWorker | CfProxy
  | TcpFallback | WorkerPassthrough | BlindRelay | AllPathsFailed | IdleReaped
  | PassthroughNoData | CfProxyMedia | MediaHttpRejected | CfProxyDialFailed

definition all_stats :: "stat list" where
  "all_stats = [Accepted, SelfConnectDropped, WsPoolHit, WsDirect, Fronting, CfWorker, CfProxy,
     TcpFallback, WorkerPassthrough, BlindRelay, AllPathsFailed, IdleReaped, PassthroughNoData,
     CfProxyMedia, MediaHttpRejected, CfProxyDialFailed]"

definition stat_names :: "string list" where
  "stat_names = [''accepted'', ''self_connect_dropped'', ''ws_pool_hit'', ''ws_direct'',
     ''fronting'', ''cf_worker'', ''cf_proxy'', ''tcp_fallback'', ''worker_passthrough'',
     ''blind_relay'', ''all_paths_failed'', ''idle_reaped'', ''passthrough_no_data'',
     ''cf_proxy_media'', ''media_http_rejected'', ''cf_proxy_dial_failed'']"

record stats =
  st_counters :: "stat \<Rightarrow> nat"
  st_active :: nat
  st_capacity :: nat

definition init_stats :: stats where
  "init_stats = \<lparr>st_counters = (\<lambda>_. 0), st_active = 0, st_capacity = 0\<rparr>"

definition inc :: "stat \<Rightarrow> stats \<Rightarrow> stats" where
  "inc x s = s\<lparr>st_counters := (st_counters s)(x := st_counters s x + 1)\<rparr>"

definition set_capacity :: "nat \<Rightarrow> stats \<Rightarrow> stats" where
  "set_capacity n s = s\<lparr>st_capacity := n\<rparr>"

text \<open>Entering the gauge, and the drop of its guard.\<close>

definition enter_active :: "stats \<Rightarrow> stats" where
  "enter_active s = s\<lparr>st_active := st_active s + 1\<rparr>"

definition leave_active :: "stats \<Rightarrow> stats" where
  "leave_active s = s\<lparr>st_active := st_active s - 1\<rparr>"

section \<open>Live heap by size class\<close>

text \<open>\<open>None\<close> is \<open>usize::MAX\<close>, which every size is below.\<close>

definition CLASS_MAX :: "nat option list" where
  "CLASS_MAX = [Some 64, Some 256, Some 1024, Some 4096, Some 16384, None]"

definition size_class :: "nat \<Rightarrow> nat" where
  "size_class n =
     (case position (\<lambda>mx. case mx of Some m \<Rightarrow> n \<le> m | None \<Rightarrow> True) CLASS_MAX of
        Some i \<Rightarrow> i | None \<Rightarrow> 5)"

record heap =
  hp_bytes :: "nat list"
  hp_allocs :: "nat list"

definition init_heap :: heap where
  "init_heap = \<lparr>hp_bytes = replicate 6 0, hp_allocs = replicate 6 0\<rparr>"

definition heap_add :: "nat \<Rightarrow> heap \<Rightarrow> heap" where
  "heap_add n h =
     (let c = size_class n
      in h\<lparr>hp_bytes := (hp_bytes h)[c := hp_bytes h ! c + n],
          hp_allocs := (hp_allocs h)[c := hp_allocs h ! c + 1]\<rparr>)"

definition heap_sub :: "nat \<Rightarrow> heap \<Rightarrow> heap" where
  "heap_sub n h =
     (let c = size_class n
      in h\<lparr>hp_bytes := (hp_bytes h)[c := hp_bytes h ! c - n],
          hp_allocs := (hp_allocs h)[c := hp_allocs h ! c - 1]\<rparr>)"

text \<open>The calls of the allocator; the flag says whether the system allocator returned a block.\<close>

datatype heap_call = Alloc nat bool | AllocZeroed nat bool | Dealloc nat | Realloc nat nat bool

fun counting :: "heap_call \<Rightarrow> heap \<Rightarrow> heap" where
  "counting (Alloc n ok) h = (if ok then heap_add n h else h)"
| "counting (AllocZeroed n ok) h = (if ok then heap_add n h else h)"
| "counting (Dealloc n) h = heap_sub n h"
| "counting (Realloc old new ok) h = (if ok then heap_add new (heap_sub old h) else h)"

section \<open>The snapshot\<close>

abbreviation nl :: string where "nl \<equiv> [CHR 0x0A]"

definition class_label :: "nat option \<Rightarrow> string" where
  "class_label mx = (case mx of None \<Rightarrow> ''>16384'' | Some n \<Rightarrow> ''<='' @ show_nat n)"

definition render_heap :: "heap \<Rightarrow> string" where
  "render_heap h =
     ''heap live '' @ show_nat (sum_list (hp_bytes h) div 1024) @ '' kB in ''
       @ show_nat (sum_list (hp_allocs h)) @ '' allocs'' @ nl
     @ concat (map (\<lambda>i. ''  '' @ class_label (CLASS_MAX ! i) @ '' '' @ show_nat (hp_allocs h ! i)
         @ '' allocs '' @ show_nat (hp_bytes h ! i div 1024) @ '' kB'' @ nl) [0..<6])"

definition render_pool :: "string \<Rightarrow> (int \<times> bool \<times> nat) list \<Rightarrow> string" where
  "render_pool label depths =
     label @ nl @ (if depths = [] then ''  (no slots)'' @ nl else '''')
     @ concat (map (\<lambda>(dc, media, depth). ''  DC'' @ show_int dc @ (if media then ''m'' else '''')
         @ '' '' @ show_nat depth @ nl) depths)"

definition snapshot ::
  "string \<Rightarrow> (int \<times> bool \<times> nat) list \<Rightarrow> (int \<times> bool \<times> nat) list \<Rightarrow> (int \<times> string) list \<Rightarrow> heap \<Rightarrow> stats
   \<Rightarrow> string" where
  "snapshot version ws_depths cf_depths sticky h s =
     ''wrtg '' @ version @ nl
     @ ''connections active='' @ show_nat (st_active s) @ '' capacity='' @ show_nat (st_capacity s) @ nl
     @ ''counters'' @ nl
     @ concat (map (\<lambda>i. ''  '' @ stat_names ! i @ '' '' @ show_nat (st_counters s (all_stats ! i)) @ nl)
         [0..<16])
     @ render_pool ''ws pool'' ws_depths
     @ render_pool ''cf worker pool'' cf_depths
     @ ''cf proxy'' @ nl
     @ (if sticky = [] then ''  (no sticky yet)'' @ nl else '''')
     @ concat (map (\<lambda>(dc, domain). ''  DC'' @ show_int dc @ '' sticky '' @ domain @ nl) sticky)
     @ render_heap h"

definition socket_path :: "(string \<Rightarrow> string option) \<Rightarrow> string" where
  "socket_path env =
     (case env ''WRTG_STATS_SOCKET'' of Some p \<Rightarrow> p | None \<Rightarrow> ''/var/run/wrtg.sock'')"

section \<open>The heap balance\<close>

text \<open>
  The blocks that are live: an allocator call must name the size of a live block when it frees or
  moves one, which is the contract of \<open>GlobalAlloc\<close> (the layout given back is the layout the
  block was allocated with).
\<close>

fun live_after :: "heap_call \<Rightarrow> nat multiset \<Rightarrow> nat multiset option" where
  "live_after (Alloc n ok) m = Some (if ok then add_mset n m else m)"
| "live_after (AllocZeroed n ok) m = Some (if ok then add_mset n m else m)"
| "live_after (Dealloc n) m = (if n \<in># m then Some (m - {#n#}) else None)"
| "live_after (Realloc old new ok) m =
     (if old \<in># m then Some (if ok then add_mset new (m - {#old#}) else m) else None)"

fun live_run :: "heap_call list \<Rightarrow> nat multiset \<Rightarrow> nat multiset option" where
  "live_run [] m = Some m"
| "live_run (c # cs) m = Option.bind (live_after c m) (live_run cs)"

definition in_class :: "nat multiset \<Rightarrow> nat \<Rightarrow> nat multiset" where
  "in_class m c = filter_mset (\<lambda>n. size_class n = c) m"

definition heap_ok :: "nat multiset \<Rightarrow> heap \<Rightarrow> bool" where
  "heap_ok m h \<longleftrightarrow> length (hp_bytes h) = 6 \<and> length (hp_allocs h) = 6 \<and>
     (\<forall>c < 6. hp_bytes h ! c = sum_mset (in_class m c) \<and> hp_allocs h ! c = size (in_class m c))"

lemma size_class_bound: "size_class n < 6"
proof (cases "position (\<lambda>mx. case mx of Some m \<Rightarrow> n \<le> m | None \<Rightarrow> True) CLASS_MAX")
  case (Some i)
  with position_Some [OF Some] show ?thesis by (simp add: size_class_def CLASS_MAX_def)
qed (simp add: size_class_def)

lemma heap_add_ok: "heap_ok m h \<Longrightarrow> heap_ok (add_mset n m) (heap_add n h)"
  using size_class_bound [of n]
  by (auto simp: heap_ok_def heap_add_def Let_def nth_list_update in_class_def)

lemma heap_sub_ok:
  assumes "heap_ok m h" and "n \<in># m"
  shows "heap_ok (m - {#n#}) (heap_sub n h)"
proof -
  obtain m' where m: "m = add_mset n m'" using assms(2) by (metis mset_add)
  show ?thesis
    using assms(1) size_class_bound [of n] unfolding m
    by (auto simp: heap_ok_def heap_sub_def Let_def nth_list_update in_class_def)
qed

lemma counting_ok:
  assumes "heap_ok m h" and "live_after c m = Some m'"
  shows "heap_ok m' (counting c h)"
  using assms heap_add_ok heap_sub_ok by (cases c) (auto split: if_splits)

lemma counting_run_ok:
  "heap_ok m h \<Longrightarrow> live_run cs m = Some m' \<Longrightarrow> heap_ok m' (fold counting cs h)"
proof (induction cs arbitrary: m h)
  case (Cons c cs)
  then obtain m1 where m1: "live_after c m = Some m1" "live_run cs m1 = Some m'"
    by (auto simp: bind_eq_Some_conv)
  with Cons.IH [OF counting_ok [OF Cons.prems(1) m1(1)]] show ?case by simp
qed simp

text \<open>
  The heap section of \<open>--stats\<close> is exact: after any sequence of allocator calls that frees
  and moves only live blocks, failed allocations included, the bytes and the block count of every
  size class are exactly those of the blocks still live, so no subtraction ever wraps below zero.
\<close>

lemma heap_balance_exact:
  assumes "live_run cs {#} = Some m" and "c < 6"
  shows "hp_bytes (fold counting cs init_heap) ! c = sum_mset (filter_mset (\<lambda>n. size_class n = c) m)
    \<and> hp_allocs (fold counting cs init_heap) ! c = size (filter_mset (\<lambda>n. size_class n = c) m)"
proof -
  have "heap_ok {#} init_heap" by (simp add: heap_ok_def init_heap_def in_class_def)
  from counting_run_ok [OF this assms(1)] assms(2) show ?thesis
    by (simp add: heap_ok_def in_class_def)
qed

lemma heap_balance_exact_witness:
  "hp_bytes (fold counting [Alloc 100 True, Alloc 60 True, Alloc 9 False, Realloc 100 200 True, Dealloc 60]
     init_heap) ! 1 = 200"
proof -
  have "size_class 60 = 0" "size_class 100 = 1" "size_class 200 = 1" by code_simp+
  then show ?thesis
    using heap_balance_exact
      [of "[Alloc 100 True, Alloc 60 True, Alloc 9 False, Realloc 100 200 True, Dealloc 60]" "{#200#}" 1]
    by simp
qed

end
