(* ===== verification/Pools.thy ===== *)
theory Pools
  imports Skip_State Cooldown Balancer Conn_Pool Dc_Learn
begin

text \<open>
  \<open>ws_pool.rs\<close> and \<open>cf_worker_pool.rs\<close>: the configuration and the connectors of the two
  connection pools. What the network answers to a dial is an argument. \<open>us\<close> is the number of
  values of \<open>usize\<close> on the target.
\<close>

section \<open>The direct WebSocket pool\<close>

text \<open>\<open>env::var(..).ok().and_then(|s| s.parse().ok()).unwrap_or(default)\<close>, as a \<open>usize\<close>.\<close>

definition env_usize :: "nat \<Rightarrow> string option \<Rightarrow> nat \<Rightarrow> nat" where
  "env_usize us v d =
     (case v of Some s \<Rightarrow> (case parse_unsigned us s of Some n \<Rightarrow> n | None \<Rightarrow> d) | None \<Rightarrow> d)"

definition ws_pool_size :: "nat \<Rightarrow> (string \<Rightarrow> string option) \<Rightarrow> nat" where
  "ws_pool_size us env = max 1 (min (env_usize us (env ''WRTG_WS_POOL_SIZE'') 2) 8)"

definition ws_pool_ttl :: "(string \<Rightarrow> string option) \<Rightarrow> nat" where
  "ws_pool_ttl env = secs (env_u64 (env ''WRTG_WS_POOL_TTL_SEC'') 120)"

definition ws_pool_enabled :: "front_state \<Rightarrow> bool" where
  "ws_pool_enabled st \<longleftrightarrow> list_ex (\<lambda>dc. dc_front_ip st dc \<noteq> '''') [1, 2, 3, 4, 5]"

definition ws_pool_seeds :: "front_state \<Rightarrow> key list" where
  "ws_pool_seeds st = map (\<lambda>dc. (dc, False)) (filter (\<lambda>dc. dc_front_ip st dc \<noteq> '''') [1, 2, 3, 4, 5])"

text \<open>The connector: the domain that answered, and the skip state.\<close>

definition ws_pool_connect ::
  "front_state \<Rightarrow> (string \<Rightarrow> string \<Rightarrow> bool) \<Rightarrow> int \<Rightarrow> bool \<Rightarrow> string \<Rightarrow> skip_state
   \<Rightarrow> string option \<times> skip_state" where
  "ws_pool_connect st dial dc is_media hint s =
     (let target = (if hint = '''' then ws_target_ip st dc '''' else hint)
      in if target = '''' then (None, s)
         else case find (dial target) (ws_domains dc is_media) of
                Some domain \<Rightarrow> (Some domain, note_connect_success target dc is_media s)
              | None \<Rightarrow> (None, s))"

definition ws_pool_cfg :: "nat \<Rightarrow> (string \<Rightarrow> string option) \<Rightarrow> pool_cfg" where
  "ws_pool_cfg us env =
     \<lparr>pc_size = ws_pool_size us env, pc_ttl = ws_pool_ttl env, pc_serves_media = False\<rparr>"

section \<open>The Cloudflare Worker pool\<close>

definition cf_pool_size :: "nat \<Rightarrow> (string \<Rightarrow> string option) \<Rightarrow> nat" where
  "cf_pool_size us env = max 1 (min (env_usize us (env ''WRTG_CF_WORKER_POOL_SIZE'') 2) 4)"

definition cf_pool_ttl :: "(string \<Rightarrow> string option) \<Rightarrow> nat" where
  "cf_pool_ttl env = secs (env_u64 (env ''WRTG_CF_WORKER_POOL_TTL_SEC'') 120)"

definition cf_pool_cfg :: "nat \<Rightarrow> (string \<Rightarrow> string option) \<Rightarrow> pool_cfg" where
  "cf_pool_cfg us env =
     \<lparr>pc_size = cf_pool_size us env, pc_ttl = cf_pool_ttl env, pc_serves_media = True\<rparr>"

text \<open>Asking for the Workers of the pseudo-DC 0 takes it a cursor like any other.\<close>

definition cf_pool_enabled :: "balancer \<Rightarrow> bool \<times> balancer" where
  "cf_pool_enabled b = (case worker_domains_for_dc 0 b of (ds, b') \<Rightarrow> (ds \<noteq> [], b'))"

definition cf_pool_seeds :: "learned_map \<Rightarrow> key list" where
  "cf_pool_seeds lm = observed_slots lm"

definition cf_dst_ip :: "front_state \<Rightarrow> int \<Rightarrow> string \<Rightarrow> string" where
  "cf_dst_ip st dc orig_hint =
     (let target = ws_target_ip st dc orig_hint
      in if target \<noteq> '''' then target
         else case dc_default_ip dc of Some ip \<Rightarrow> ip | None \<Rightarrow> ''149.154.167.220'')"

datatype dial = DialOk | DialErr ws_connect_error | DialTimeout

text \<open>
  The loop over the Workers: the Worker that answered, and the state. \<open>clk i\<close> is the clock when
  the \<open>i\<close>-th dial has ended.
\<close>

fun cf_dial_loop ::
  "nat \<Rightarrow> nat \<Rightarrow> (nat \<Rightarrow> nat) \<Rightarrow> (string \<Rightarrow> dial) \<Rightarrow> int \<Rightarrow> string list \<Rightarrow> balancer \<times> worker_cd
   \<Rightarrow> string option \<times> balancer \<times> worker_cd" where
  "cf_dial_loop base mx clk dial dc [] (b, w) = (None, b, w)"
| "cf_dial_loop base mx clk dial dc (worker # ws) (b, w) =
     (case dial worker of
        DialOk \<Rightarrow> (Some worker, b, clear_worker_429 worker w)
      | DialErr e \<Rightarrow>
          (case worker_domains_for_dc dc b of
             (peers, b') \<Rightarrow>
               cf_dial_loop base mx (\<lambda>i. clk (i + 1)) dial dc ws
                 (b', mark_worker_429_with_peers base mx (clk 0) worker e peers w))
      | DialTimeout \<Rightarrow> cf_dial_loop base mx (\<lambda>i. clk (i + 1)) dial dc ws (b, w))"

definition cf_pool_connect ::
  "nat \<Rightarrow> nat \<Rightarrow> nat \<Rightarrow> (nat \<Rightarrow> nat) \<Rightarrow> (string \<Rightarrow> dial) \<Rightarrow> int \<Rightarrow> nat \<Rightarrow> balancer \<times> worker_cd
   \<Rightarrow> (string option \<times> balancer \<times> worker_cd) \<times> nat" where
  "cf_pool_connect base mx t clk dial dc rr bw =
     (case worker_domains_for_dc dc (fst bw) of
        (ds, b) \<Rightarrow>
          (case usable_workers mx t ds (snd bw) of
             ((workers, cooling), w) \<Rightarrow>
               if workers = [] then ((None, b, w), rr)
               else (cf_dial_loop base mx clk dial dc
                       (map (\<lambda>i. workers ! ((rr + i) mod length workers)) [0..<length workers]) (b, w),
                     rr + 1)))"

end
