(* ===== verification/Cf_Proxy.thy ===== *)
theory Cf_Proxy
  imports Pools
begin

text \<open>
  \<open>cf_proxy.rs\<close>: a WebSocket through a Cloudflare-proxied domain. \<open>con ip host\<close> is the outcome of
  \<open>connect_ws_with_headers\<close> to \<open>ip\<close> with the TLS and Host name \<open>host\<close>, and \<open>doh host\<close> the address
  the DNS-over-HTTPS lookup finds, empty when it finds none. The semaphore that bounds parallel
  dials only delays them and is left out.
\<close>

definition cf_proxy_ws_domain :: "string \<Rightarrow> int \<Rightarrow> bool \<Rightarrow> string" where
  "cf_proxy_ws_domain cf_domain dc is_media =
     (let dc = fold_dc dc
      in if is_media then ''kws'' @ show_int dc @ ''-1.'' @ cf_domain
         else ''kws'' @ show_int dc @ ''.'' @ cf_domain)"

definition cf_proxy_parallel_limit :: "nat \<Rightarrow> (string \<Rightarrow> string option) \<Rightarrow> nat" where
  "cf_proxy_parallel_limit us env =
     (case env ''WRTG_CFPROXY_PARALLEL'' of
        Some v \<Rightarrow> (case parse_unsigned us (trim v) of
                     Some n \<Rightarrow> if n > 0 then n else 2
                   | None \<Rightarrow> 2)
      | None \<Rightarrow> 2)"

definition cf_proxy_hosts :: "string \<Rightarrow> int \<Rightarrow> bool \<Rightarrow> string list" where
  "cf_proxy_hosts cf_domain dc is_media =
     (let host = cf_proxy_ws_domain cf_domain dc is_media
      in if \<not> is_media then [host] else [host, cf_proxy_ws_domain cf_domain dc False])"

type_synonym connector = "string \<Rightarrow> string \<Rightarrow> ws_connect_error + unit"

definition transport_failure :: "ws_connect_error \<Rightarrow> bool" where
  "transport_failure e \<longleftrightarrow> (case e of WsIo _ \<Rightarrow> True | WsTimeout \<Rightarrow> True | _ \<Rightarrow> False)"

definition cf_connect_domain ::
  "connector \<Rightarrow> (string \<Rightarrow> string) \<Rightarrow> string \<Rightarrow> string \<Rightarrow> ws_connect_error + unit" where
  "cf_connect_domain con doh dial_host sni_host =
     (case con dial_host sni_host of
        Inr ws \<Rightarrow> Inr ws
      | Inl host_err \<Rightarrow>
          if is_ws_http_status host_err 429 then Inl host_err
          else if \<not> transport_failure host_err then Inl host_err
          else let resolved_ip = doh dial_host
               in if resolved_ip = '''' then Inl host_err else con resolved_ip sni_host)"

fun connect_hosts ::
  "connector \<Rightarrow> (string \<Rightarrow> string) \<Rightarrow> string list \<Rightarrow> ws_connect_error option \<Rightarrow> ws_connect_error + unit" where
  "connect_hosts con doh [] last_err =
     Inl (case last_err of Some e \<Rightarrow> e | None \<Rightarrow> WsTimeout)"
| "connect_hosts con doh (host # hosts) last_err =
     (case cf_connect_domain con doh host host of
        Inr ws \<Rightarrow> Inr ws
      | Inl e \<Rightarrow> if is_ws_http_status e 429 then Inl e else connect_hosts con doh hosts (Some e))"

definition connect_cf_proxy_ws ::
  "connector \<Rightarrow> (string \<Rightarrow> string) \<Rightarrow> string \<Rightarrow> int \<Rightarrow> bool \<Rightarrow> ws_connect_error + unit" where
  "connect_cf_proxy_ws con doh cf_domain dc is_media =
     connect_hosts con doh (cf_proxy_hosts cf_domain dc is_media) None"

definition cooldown_error :: ws_connect_error where
  "cooldown_error = WsIo (io_err WouldBlock ''CF proxy domain in 429 cooldown'')"

text \<open>
  One base domain: \<open>t1\<close> is the clock at the cooldown check, \<open>t2\<close> when the dial has ended; \<open>outer\<close>
  says that the caller's timeout ends the dial, so that nothing after it happens.
\<close>

definition try_cf_proxy_domain ::
  "nat \<Rightarrow> nat \<Rightarrow> nat \<Rightarrow> nat \<Rightarrow> bool \<Rightarrow> connector \<Rightarrow> (string \<Rightarrow> string) \<Rightarrow> string \<Rightarrow> int \<Rightarrow> bool \<Rightarrow> cooldown_map
   \<Rightarrow> (ws_connect_error + unit) option \<times> cooldown_map" where
  "try_cf_proxy_domain base mx t1 t2 outer con doh cf_domain dc is_media m =
     (case cf_proxy_cooldown_remaining mx t1 cf_domain m of
        (rem, m1) \<Rightarrow>
          (if rem > 0 then (Some (Inl cooldown_error), m1)
           else if outer then (None, m1)
           else (case connect_cf_proxy_ws con doh cf_domain dc is_media of
                   Inr ws \<Rightarrow> (Some (Inr ws), clear_cf_proxy_429_cooldown cf_domain m1)
                 | Inl e \<Rightarrow>
                     (Some (Inl e),
                      if is_ws_http_status e 429
                      then mark_cf_proxy_429_cooldown base mx t2 cf_domain e m1 else m1))))"

end
