(* ===== verification/Bridge.thy ===== *)
theory Bridge
  imports Cf_Proxy Media Stats
begin

text \<open>
  \<open>bridge.rs\<close>, the ladder: how a session finds a path to its datacenter. The process-wide statics
  are the record \<open>net_state\<close>, the settings \<open>bridge_cfg\<close>. What the network does to one session is
  the record \<open>world\<close>: the outcome of each dial and of the first write on it, the completion order
  of the parallel race, and the clock readings of each stage. A stage returns the route it
  connected by, or says that it failed. Relaying the bytes of a connected session is in \<open>Relay\<close>.
\<close>

section \<open>State, settings, network\<close>

record net_state =
  ns_front :: front_state
  ns_skip :: skip_state
  ns_bal :: balancer
  ns_workers :: worker_cd
  ns_proxies :: cooldown_map
  ns_ws_pool :: slots
  ns_cf_pool :: slots
  ns_learned :: dc_learn
  ns_stats :: stats
  ns_refills :: "(bool \<times> key \<times> string) list"
  ns_no_data :: "string ttl_map"
  ns_warned :: "string ttl_map"

record bridge_cfg =
  bc_skip :: skip_config
  bc_ws_pool :: pool_cfg
  bc_cf_pool :: pool_cfg
  bc_worker_base :: nat
  bc_worker_max :: nat
  bc_proxy_base :: nat
  bc_proxy_max :: nat
  bc_max_attempts :: nat
  bc_no_cfproxy :: bool
  bc_no_worker_passthrough :: bool

definition max_cf_proxy_attempts :: "nat \<Rightarrow> (string \<Rightarrow> string option) \<Rightarrow> nat" where
  "max_cf_proxy_attempts us env =
     (case env ''WRTG_CFPROXY_MAX_ATTEMPTS'' of
        Some v \<Rightarrow> (case parse_unsigned us (trim v) of
                     Some n \<Rightarrow> if n > 0 then n else 3
                   | None \<Rightarrow> 3)
      | None \<Rightarrow> 3)"

definition bridge_cfg_of :: "nat \<Rightarrow> (string \<Rightarrow> string option) \<Rightarrow> bridge_cfg" where
  "bridge_cfg_of us env =
     \<lparr>bc_skip = skip_config_of env, bc_ws_pool = ws_pool_cfg us env, bc_cf_pool = cf_pool_cfg us env,
      bc_worker_base = worker_base_cooldown env, bc_worker_max = worker_max_cooldown env,
      bc_proxy_base = proxy_base_cooldown env, bc_proxy_max = proxy_max_cooldown env,
      bc_max_attempts = max_cf_proxy_attempts us env,
      bc_no_cfproxy = cf_fallback_disabled env,
      bc_no_worker_passthrough = worker_passthrough_disabled env\<rparr>"

text \<open>A TCP dial: it fails or times out, it connects but the first write fails, or it is up.\<close>

datatype tcp_attempt = TcpNoConnect | TcpNoWrite | TcpUp

record world =
  wo_pool_sent :: bool
  wo_direct :: "nat \<Rightarrow> string \<Rightarrow> attempt"
  wo_fronting :: "nat \<Rightarrow> string \<Rightarrow> attempt"
  wo_cf_pool_sent :: bool
  wo_worker :: "string \<Rightarrow> string \<Rightarrow> dial"
  wo_worker_sent :: "string \<Rightarrow> bool"
  wo_con :: connector
  wo_doh :: "string \<Rightarrow> string"
  wo_proxy_outer :: "string \<Rightarrow> bool"
  wo_proxy_sent :: "string \<Rightarrow> bool"
  wo_race :: "string list"
  wo_late :: "string list"
  wo_tcp :: "nat \<Rightarrow> string \<Rightarrow> tcp_attempt"
  wo_ws_clk :: "nat \<Rightarrow> nat"
  wo_cf_clk :: "nat \<Rightarrow> nat"
  wo_proxy_clk :: "string \<Rightarrow> nat \<times> nat"
  wo_tcp_clk :: "nat \<Rightarrow> nat"

datatype route =
    ViaWsPool string
  | ViaDirect string
  | ViaFronting string
  | ViaCfPool string
  | ViaWorker string
  | ViaProxy string
  | ViaTcp string

section \<open>The direct rung\<close>

datatype ws_result = WsConnected route | WsFailed bool bool

text \<open>What a successful direct rung leaves behind.\<close>

definition ws_up ::
  "bridge_cfg \<Rightarrow> stat \<Rightarrow> route \<Rightarrow> string \<Rightarrow> int \<Rightarrow> bool \<Rightarrow> net_state \<Rightarrow> ws_result \<times> net_state" where
  "ws_up c x r target dc m s =
     (WsConnected r,
      s\<lparr>ns_skip := clear_fronting_fail target dc (clear_dc_fail dc m (clear_ip_fail target dc (ns_skip s))),
        ns_stats := inc x (ns_stats s),
        ns_refills := ns_refills s @ (if accepts (bc_ws_pool c) m then [(False, (dc, m), target)] else [])\<rparr>)"

text \<open>The end of a round without a connection.\<close>

definition ws_down ::
  "bridge_cfg \<Rightarrow> world \<Rightarrow> string \<Rightarrow> int \<Rightarrow> bool \<Rightarrow> bool \<Rightarrow> bool \<Rightarrow> net_state \<Rightarrow> ws_result \<times> net_state" where
  "ws_down c w target dc m all_blocked timed_out s =
     (let sk = (if timed_out then mark_ip_failed (bc_skip c) (wo_ws_clk w 5) target dc (ns_skip s)
                else ns_skip s)
      in (WsFailed all_blocked timed_out,
          s\<lparr>ns_skip := mark_dc_failed (bc_skip c) (wo_ws_clk w 6) dc m sk\<rparr>))"

text \<open>\<open>acquire\<close> of the direct pool, which media sessions skip.\<close>

definition take_ws_pool ::
  "bridge_cfg \<Rightarrow> world \<Rightarrow> int \<Rightarrow> bool \<Rightarrow> net_state \<Rightarrow> pooled option \<times> net_state" where
  "take_ws_pool c w dc m s =
     (if m then (None, s)
      else case pool_acquire (bc_ws_pool c) (wo_ws_clk w 0) dc m (ns_ws_pool s) of
             (r, old, sl) \<Rightarrow> (r, s\<lparr>ns_ws_pool := sl\<rparr>))"

definition try_dials ::
  "bridge_cfg \<Rightarrow> world \<Rightarrow> nat \<Rightarrow> nat \<Rightarrow> string \<Rightarrow> int \<Rightarrow> bool \<Rightarrow> net_state \<Rightarrow> ws_result \<times> net_state" where
  "try_dials c w front_timeout connect_timeout target dc m s =
     (case try_ws_with_domains (wo_direct w connect_timeout) (ws_domains dc m) of
        Inr d \<Rightarrow> ws_up c WsDirect (ViaDirect d) target dc m s
      | Inl (all_blocked, timed_out) \<Rightarrow>
          (case should_skip_fronting (bc_skip c) (wo_ws_clk w 3) target dc (ns_skip s) of
             (skip, sk) \<Rightarrow>
               let s = s\<lparr>ns_skip := sk\<rparr>
               in if skip then ws_down c w target dc m all_blocked timed_out s
                  else (case try_ws_fronting (bc_skip c) (wo_fronting w front_timeout) dc m of
                          Inr d \<Rightarrow> ws_up c Fronting (ViaFronting d) target dc m s
                        | Inl (f_blocked, f_timed_out) \<Rightarrow>
                            ws_down c w target dc m (all_blocked \<and> f_blocked) (timed_out \<or> f_timed_out)
                              (s\<lparr>ns_skip := mark_fronting_failed (bc_skip c) (wo_ws_clk w 4) target dc
                                              (ns_skip s)\<rparr>))))"

definition try_direct ::
  "bridge_cfg \<Rightarrow> world \<Rightarrow> string \<Rightarrow> int \<Rightarrow> bool \<Rightarrow> net_state \<Rightarrow> ws_result \<times> net_state" where
  "try_direct c w target dc m s =
     (case ws_connect_timeout (bc_skip c) (wo_ws_clk w 1) dc m (ns_skip s) of
        (front_timeout, sk) \<Rightarrow>
          (case ws_connect_timeout (bc_skip c) (wo_ws_clk w 2) dc m sk of
             (connect_timeout, sk) \<Rightarrow>
               try_dials c w front_timeout connect_timeout target dc m (s\<lparr>ns_skip := sk\<rparr>)))"

definition try_ws_bridge ::
  "bridge_cfg \<Rightarrow> world \<Rightarrow> int \<Rightarrow> bool \<Rightarrow> string \<Rightarrow> net_state \<Rightarrow> ws_result \<times> net_state" where
  "try_ws_bridge c w dc m orig_ip s =
     (let target = ws_target_ip (ns_front s) dc orig_ip
      in if target = '''' then (WsFailed False False, s)
         else case take_ws_pool c w dc m s of
                (Some p, s) \<Rightarrow>
                  if wo_pool_sent w then ws_up c WsPoolHit (ViaWsPool (po_label p)) target dc m s
                  else try_direct c w target dc m s
              | (None, s) \<Rightarrow> try_direct c w target dc m s)"

section \<open>The Cloudflare rungs\<close>

definition dst_fallback :: "front_state \<Rightarrow> int \<Rightarrow> string \<Rightarrow> string" where
  "dst_fallback st dc orig_ip =
     (let dst = ws_target_ip st dc orig_ip
      in if dst = '''' then (case dc_default_ip dc of Some ip \<Rightarrow> ip | None \<Rightarrow> ''149.154.167.220'') else dst)"

definition worker_up ::
  "bridge_cfg \<Rightarrow> route \<Rightarrow> int \<Rightarrow> bool \<Rightarrow> string \<Rightarrow> net_state \<Rightarrow> route option \<times> net_state" where
  "worker_up c r dc m orig_ip s =
     (Some r,
      s\<lparr>ns_stats := inc CfWorker (ns_stats s),
        ns_refills := ns_refills s @ (if accepts (bc_cf_pool c) m then [(True, (dc, m), orig_ip)] else [])\<rparr>)"

text \<open>A dial of a Worker asks it for the address \<open>dst\<close>.\<close>

fun try_workers ::
  "bridge_cfg \<Rightarrow> world \<Rightarrow> (nat \<Rightarrow> nat) \<Rightarrow> string \<Rightarrow> int \<Rightarrow> bool \<Rightarrow> string \<Rightarrow> string list \<Rightarrow> net_state
   \<Rightarrow> route option \<times> net_state" where
  "try_workers c w clk dst dc m orig_ip [] s = (None, s)"
| "try_workers c w clk dst dc m orig_ip (worker # ws) s =
     (case wo_worker w worker dst of
        DialOk \<Rightarrow>
          if wo_worker_sent w worker
          then worker_up c (ViaWorker worker) dc m orig_ip
                 (s\<lparr>ns_workers := clear_worker_429 worker (ns_workers s)\<rparr>)
          else try_workers c w (\<lambda>i. clk (i + 1)) dst dc m orig_ip ws s
      | DialErr e \<Rightarrow>
          (case worker_domains_for_dc dc (ns_bal s) of
             (peers, b) \<Rightarrow>
               try_workers c w (\<lambda>i. clk (i + 1)) dst dc m orig_ip ws
                 (s\<lparr>ns_bal := b, ns_workers :=
                      mark_worker_429_with_peers (bc_worker_base c) (bc_worker_max c) (clk 0) worker e peers
                        (ns_workers s)\<rparr>))
      | DialTimeout \<Rightarrow> try_workers c w (\<lambda>i. clk (i + 1)) dst dc m orig_ip ws s)"

definition would_block :: "ws_connect_error \<Rightarrow> bool" where
  "would_block e \<longleftrightarrow> (case e of WsIo io \<Rightarrow> ie_kind io = WouldBlock | _ \<Rightarrow> False)"

definition finish_cf_proxy_connect ::
  "bridge_cfg \<Rightarrow> world \<Rightarrow> int \<Rightarrow> bool \<Rightarrow> string \<Rightarrow> net_state \<Rightarrow> string option \<times> net_state" where
  "finish_cf_proxy_connect c w dc m cf_domain s =
     (case try_cf_proxy_domain (bc_proxy_base c) (bc_proxy_max c)
             (fst (wo_proxy_clk w cf_domain)) (snd (wo_proxy_clk w cf_domain))
             (wo_proxy_outer w cf_domain) (wo_con w) (wo_doh w) cf_domain dc m (ns_proxies s) of
        (r, pm) \<Rightarrow>
          let s = s\<lparr>ns_proxies := pm\<rparr>
          in case r of
               Some (Inr ws) \<Rightarrow>
                 if \<not> wo_proxy_sent w cf_domain then (None, s)
                 else (Some cf_domain,
                       s\<lparr>ns_stats := (if m then inc CfProxyMedia (inc CfProxy (ns_stats s))
                                      else inc CfProxy (ns_stats s))\<rparr>)
             | Some (Inl e) \<Rightarrow>
                 if would_block e then (None, s)
                 else (None, s\<lparr>ns_stats := inc CfProxyDialFailed (ns_stats s)\<rparr>)
             | None \<Rightarrow> (None, s\<lparr>ns_stats := inc CfProxyDialFailed (ns_stats s)\<rparr>))"

text \<open>The tasks of the race in the order they complete, up to the first that connects.\<close>

fun race ::
  "bridge_cfg \<Rightarrow> world \<Rightarrow> int \<Rightarrow> bool \<Rightarrow> string list \<Rightarrow> net_state \<Rightarrow> string option \<times> net_state" where
  "race c w dc m [] s = (None, s)"
| "race c w dc m (d # ds) s =
     (case finish_cf_proxy_connect c w dc m d s of
        (Some chosen, s') \<Rightarrow> (Some chosen, s')
      | (None, s') \<Rightarrow> race c w dc m ds s')"

text \<open>Losers that complete before they are aborted; what they connected is closed.\<close>

definition drain ::
  "bridge_cfg \<Rightarrow> world \<Rightarrow> int \<Rightarrow> bool \<Rightarrow> string list \<Rightarrow> net_state \<Rightarrow> net_state" where
  "drain c w dc m ds s = fold (\<lambda>d s. snd (finish_cf_proxy_connect c w dc m d s)) ds s"

definition proxy_up :: "int \<Rightarrow> string \<Rightarrow> net_state \<Rightarrow> route option \<times> net_state" where
  "proxy_up dc chosen s =
     (Some (ViaProxy chosen), s\<lparr>ns_bal := update_proxy_domain_for_dc dc chosen (ns_bal s)\<rparr>)"

definition proxy_down :: "int \<Rightarrow> nat \<Rightarrow> net_state \<Rightarrow> route option \<times> net_state" where
  "proxy_down dc window s = (None, s\<lparr>ns_bal := advance_proxy_domains_for_dc dc window (ns_bal s)\<rparr>)"

text \<open>
  The proxy rung: the first domain alone, then the rest at once. \<open>wo_race\<close> gives the order in
  which the tasks of the race complete, \<open>wo_late\<close> the losers that still complete after the winner:
  domains that are not in the race have no task, and a domain the order leaves out comes last.
\<close>

definition race_order :: "world \<Rightarrow> string list \<Rightarrow> string list" where
  "race_order w others =
     filter (\<lambda>d. d \<in> set others) (remdups (wo_race w)) @ filter (\<lambda>d. d \<notin> set (wo_race w)) others"

definition try_proxies ::
  "bridge_cfg \<Rightarrow> world \<Rightarrow> int \<Rightarrow> bool \<Rightarrow> net_state \<Rightarrow> route option \<times> net_state" where
  "try_proxies c w dc m s =
     (case proxy_domains_for_dc dc (ns_bal s) of
        (ds, b) \<Rightarrow>
          let cf_domains = take (bc_max_attempts c) ds; window = length cf_domains;
              s = s\<lparr>ns_bal := b\<rparr>
          in case cf_domains of
               [] \<Rightarrow> proxy_down dc window s
             | primary # others \<Rightarrow>
                 (case finish_cf_proxy_connect c w dc m primary s of
                    (Some chosen, s) \<Rightarrow> proxy_up dc chosen s
                  | (None, s) \<Rightarrow>
                      (case race c w dc m (race_order w others) s of
                         (Some chosen, s) \<Rightarrow>
                           proxy_up dc chosen
                             (drain c w dc m (filter (\<lambda>d. d \<in> set others) (remdups (wo_late w))) s)
                       | (None, s) \<Rightarrow> proxy_down dc window s)))"

text \<open>\<open>acquire\<close> of the Worker pool.\<close>

definition take_cf_pool ::
  "bridge_cfg \<Rightarrow> world \<Rightarrow> int \<Rightarrow> bool \<Rightarrow> net_state \<Rightarrow> pooled option \<times> net_state" where
  "take_cf_pool c w dc m s =
     (case pool_acquire (bc_cf_pool c) (wo_cf_clk w 0) dc m (ns_cf_pool s) of
        (r, old, sl) \<Rightarrow> (r, s\<lparr>ns_cf_pool := sl\<rparr>))"

definition try_cf_dials ::
  "bridge_cfg \<Rightarrow> world \<Rightarrow> int \<Rightarrow> bool \<Rightarrow> string \<Rightarrow> net_state \<Rightarrow> route option \<times> net_state" where
  "try_cf_dials c w dc m orig_ip s =
     (case worker_domains_for_dc dc (ns_bal s) of
        (ds, b) \<Rightarrow>
          (case usable_workers (bc_worker_max c) (wo_cf_clk w 1) ds (ns_workers s) of
             ((workers, cooling), wc) \<Rightarrow>
               (case try_workers c w (\<lambda>i. wo_cf_clk w (i + 2)) (dst_fallback (ns_front s) dc orig_ip) dc m
                       orig_ip workers (s\<lparr>ns_bal := b, ns_workers := wc\<rparr>) of
                  (Some r, s) \<Rightarrow> (Some r, s)
                | (None, s) \<Rightarrow> try_proxies c w dc m s)))"

definition try_cf_fallback ::
  "bridge_cfg \<Rightarrow> world \<Rightarrow> int \<Rightarrow> bool \<Rightarrow> string \<Rightarrow> net_state \<Rightarrow> route option \<times> net_state" where
  "try_cf_fallback c w dc m orig_ip s =
     (if bc_no_cfproxy c then (None, s)
      else case take_cf_pool c w dc m s of
             (Some p, s) \<Rightarrow>
               if wo_cf_pool_sent w then worker_up c (ViaCfPool (po_label p)) dc m orig_ip s
               else try_cf_dials c w dc m orig_ip s
           | (None, s) \<Rightarrow> try_cf_dials c w dc m orig_ip s)"

section \<open>The TCP rung\<close>

fun try_tcp ::
  "bridge_cfg \<Rightarrow> world \<Rightarrow> (nat \<Rightarrow> nat) \<Rightarrow> int \<Rightarrow> string list \<Rightarrow> net_state \<Rightarrow> route option \<times> net_state" where
  "try_tcp c w clk dc [] s = (None, s)"
| "try_tcp c w clk dc (dst # dsts) s =
     (if dst = '''' then try_tcp c w clk dc dsts s
      else
        let s1 = s\<lparr>ns_skip := snd (should_skip_direct_ws (clk 0) dst dc (ns_skip s))\<rparr>;
            connect_timeout = (if fst (should_skip_direct_ws (clk 0) dst dc (ns_skip s))
                               then 2 * NANOS else 10 * NANOS)
        in case wo_tcp w connect_timeout dst of
             TcpNoConnect \<Rightarrow>
               try_tcp c w (\<lambda>i. clk (i + 2)) dc dsts
                 (s1\<lparr>ns_skip := mark_ip_failed (bc_skip c) (clk 1) dst dc (ns_skip s1)\<rparr>)
           | TcpNoWrite \<Rightarrow> try_tcp c w (\<lambda>i. clk (i + 2)) dc dsts s1
           | TcpUp \<Rightarrow> (Some (ViaTcp dst), s1\<lparr>ns_stats := inc TcpFallback (ns_stats s1)\<rparr>))"

definition try_tcp_fallback ::
  "bridge_cfg \<Rightarrow> world \<Rightarrow> int \<Rightarrow> bool \<Rightarrow> string \<Rightarrow> net_state \<Rightarrow> route option \<times> net_state" where
  "try_tcp_fallback c w dc m orig_ip s =
     (case ws_blacklisted (wo_tcp_clk w 0) dc m (ns_skip s) of
        (blacklisted, sk) \<Rightarrow>
          try_tcp c w (\<lambda>i. wo_tcp_clk w (i + 1)) dc
            (tcp_fallback_targets (ns_front s) dc orig_ip m (is_blocked_media_cdn orig_ip) blacklisted)
            (s\<lparr>ns_skip := sk\<rparr>))"

end
