(* ===== verification/Ladder.thy ===== *)
theory Ladder
  imports Bridge
begin

text \<open>
  What the rungs of \<open>Bridge\<close> promise. The interface \<open>rung\<close> is that of a rung that tries candidates
  one by one: whether a candidate can connect is not changed by attempts on other candidates, so
  that the rung takes the first one able to connect when it started. The Cloudflare proxy domains
  provide it; the theorem about the whole Cloudflare rung gives its choice as a function of the
  state at its start.
\<close>

section \<open>Rungs\<close>

locale rung =
  fixes attempt :: "'k \<Rightarrow> 's \<Rightarrow> 'r option \<times> 's"
    and able :: "'s \<Rightarrow> 'k \<Rightarrow> bool"
    and result :: "'k \<Rightarrow> 'r"
    and tag :: "'k \<Rightarrow> 't"
  assumes attempt_able: "fst (attempt k s) = (if able s k then Some (result k) else None)"
    and able_other: "tag k' \<noteq> tag k \<Longrightarrow> able (snd (attempt k s)) k' = able s k'"
begin

fun run :: "'k list \<Rightarrow> 's \<Rightarrow> 'r option \<times> 's" where
  "run [] s = (None, s)"
| "run (k # ks) s =
     (case attempt k s of
        (Some r, s') \<Rightarrow> (Some r, s')
      | (None, s') \<Rightarrow> run ks s')"

lemma find_able_other:
  "tag k \<notin> tag ` set ks \<Longrightarrow> find (able (snd (attempt k s))) ks = find (able s) ks"
proof (induction ks)
  case (Cons k' ks)
  then have "tag k' \<noteq> tag k" by auto
  with Cons able_other show ?case by auto
qed simp

lemma run_first:
  "distinct (map tag ks) \<Longrightarrow> fst (run ks s) = map_option result (find (able s) ks)"
proof (induction ks arbitrary: s)
  case (Cons k ks)
  then have rest: "find (able (snd (attempt k s))) ks = find (able s) ks"
    by (intro find_able_other) auto
  show ?case
    using Cons attempt_able [of k s] rest by (cases "able s k"; cases "attempt k s") auto
qed simp

end

section \<open>The proxy rung\<close>

text \<open>A proxy domain is able to carry the session: not cooling down, dialled, and written to.\<close>

definition proxy_able :: "world \<Rightarrow> int \<Rightarrow> bool \<Rightarrow> net_state \<Rightarrow> string \<Rightarrow> bool" where
  "proxy_able w dc m s d \<longleftrightarrow>
     left (ns_proxies s) (fst (wo_proxy_clk w d)) d = 0 \<and> \<not> wo_proxy_outer w d
     \<and> connect_cf_proxy_ws (wo_con w) (wo_doh w) d dc m = Inr () \<and> wo_proxy_sent w d"

lemma would_block_cooldown: "would_block cooldown_error"
  by (simp add: would_block_def cooldown_error_def)

lemma finish_able:
  "fst (finish_cf_proxy_connect c w dc m d s) = (if proxy_able w dc m s d then Some d else None)"
  by (auto simp: finish_cf_proxy_connect_def try_cf_proxy_domain_def proxy_able_def Let_def
      cf_proxy_cooldown_remaining_def case_prod_unfold would_block_cooldown split: sum.splits)

lemma remaining_other: "k \<noteq> norm_key key \<Longrightarrow> snd (remaining mx t1 t2 key m) k = m k"
  by (auto simp: remaining_def Let_def split: option.splits)

lemma try_cf_proxy_domain_other:
  "k \<noteq> norm_key d \<Longrightarrow> snd (try_cf_proxy_domain base mx t1 t2 outer con doh d dc m pm) k = pm k"
  by (auto simp: try_cf_proxy_domain_def case_prod_unfold cf_proxy_cooldown_remaining_def
      clear_cf_proxy_429_cooldown_def cd_clear_def mark_cf_proxy_429_cooldown_def cd_mark_def
      mark_for_def Let_def remaining_other split: sum.splits)

lemma finish_proxies:
  "ns_proxies (snd (finish_cf_proxy_connect c w dc m d s)) =
    snd (try_cf_proxy_domain (bc_proxy_base c) (bc_proxy_max c) (fst (wo_proxy_clk w d))
      (snd (wo_proxy_clk w d)) (wo_proxy_outer w d) (wo_con w) (wo_doh w) d dc m (ns_proxies s))"
  by (auto simp: finish_cf_proxy_connect_def case_prod_unfold Let_def split: option.splits sum.splits)

lemma left_cong: "m (norm_key k) = m' (norm_key k) \<Longrightarrow> left m t k = left m' t k"
  by (simp add: left_def)

interpretation px: rung "finish_cf_proxy_connect c w dc m" "proxy_able w dc m" id norm_key for c w dc m
proof unfold_locales
  fix d d' and s
  show "fst (finish_cf_proxy_connect c w dc m d s) = (if proxy_able w dc m s d then Some (id d) else None)"
    by (simp add: finish_able)
  assume "norm_key d' \<noteq> norm_key d"
  then have "left (ns_proxies (snd (finish_cf_proxy_connect c w dc m d s))) t d' = left (ns_proxies s) t d'"
    for t by (intro left_cong) (simp add: finish_proxies try_cf_proxy_domain_other)
  then show "proxy_able w dc m (snd (finish_cf_proxy_connect c w dc m d s)) d' = proxy_able w dc m s d'"
    by (simp add: proxy_able_def)
qed

lemma race_run: "race c w dc m ds s = px.run c w dc m ds s"
  by (induction ds arbitrary: s) (simp_all split: prod.split option.split)

text \<open>
  The domains a session tries, in the order in which it learns their outcome: the first of the
  window alone, then the rest as the race completes.
\<close>

definition proxy_trial :: "bridge_cfg \<Rightarrow> world \<Rightarrow> int \<Rightarrow> balancer \<Rightarrow> string list" where
  "proxy_trial c w dc b =
     (case take (bc_max_attempts c) (fst (proxy_domains_for_dc dc b)) of
        [] \<Rightarrow> []
      | primary # others \<Rightarrow> primary # race_order w others)"

lemma set_race_order: "set (race_order w ds) = set ds"
  by (auto simp: race_order_def)

lemma distinct_race_order: "distinct ds \<Longrightarrow> distinct (race_order w ds)"
  by (auto simp: race_order_def)

lemma proxy_domains_distinct:
  assumes "distinct (ba_proxies b)"
  shows "distinct (fst (proxy_domains_for_dc dc b))"
    and "set (fst (proxy_domains_for_dc dc b)) = set (ba_proxies b)"
  using assms by (auto simp: proxy_order fold_push_new_head split: option.splits)

lemma proxy_trial_keys:
  assumes "distinct (map norm_key (ba_proxies b))"
  shows "distinct (map norm_key (proxy_trial c w dc b))"
proof -
  let ?ds = "fst (proxy_domains_for_dc dc b)"
  let ?win = "take (bc_max_attempts c) ?ds"
  have d: "distinct ?ds" and inj: "inj_on norm_key (set ?ds)"
    using assms proxy_domains_distinct [of b dc] by (simp_all add: distinct_map)
  have "distinct ?win" "set ?win \<subseteq> set ?ds" using d set_take_subset [of "bc_max_attempts c" ?ds] by auto
  then have w: "distinct ?win" "inj_on norm_key (set ?win)" using inj inj_on_subset by blast+
  show ?thesis
  proof (cases ?win)
    case Nil
    show ?thesis unfolding proxy_trial_def Nil by simp
  next
    case (Cons p ps)
    have "distinct (p # race_order w ps)" "set (p # race_order w ps) = set ?win"
      using w(1) unfolding Cons by (simp_all add: set_race_order distinct_race_order)
    with w(2) show ?thesis unfolding proxy_trial_def Cons by (simp only: list.case distinct_map)
  qed
qed

lemma proxy_able_cong: "ns_proxies s' = ns_proxies s \<Longrightarrow> proxy_able w dc m s' = proxy_able w dc m s"
  by (intro ext) (simp add: proxy_able_def)

lemma try_proxies_run:
  "fst (try_proxies c w dc m s) =
    map_option ViaProxy (fst (px.run c w dc m (proxy_trial c w dc (ns_bal s))
      (s\<lparr>ns_bal := snd (proxy_domains_for_dc dc (ns_bal s))\<rparr>)))"
  by (simp add: try_proxies_def proxy_trial_def case_prod_unfold race_run proxy_up_def proxy_down_def
      Let_def split: list.split option.split prod.split)

lemma try_proxies_first:
  assumes "distinct (map norm_key (ba_proxies (ns_bal s)))"
  shows "fst (try_proxies c w dc m s) =
    map_option ViaProxy (find (proxy_able w dc m s) (proxy_trial c w dc (ns_bal s)))"
  unfolding try_proxies_run
  by (simp add: px.run_first [OF proxy_trial_keys [OF assms]]
      proxy_able_cong [of "s\<lparr>ns_bal := _\<rparr>" s] option.map_id)

section \<open>The Worker rung\<close>

definition worker_able :: "world \<Rightarrow> string \<Rightarrow> string \<Rightarrow> bool" where
  "worker_able w dst worker \<longleftrightarrow> wo_worker w worker dst = DialOk \<and> wo_worker_sent w worker"

lemma try_workers_first:
  "fst (try_workers c w clk dst dc m orig_ip ws s) = map_option ViaWorker (find (worker_able w dst) ws)"
  by (induction ws arbitrary: clk s)
    (auto simp: worker_able_def worker_up_def case_prod_unfold split: dial.split)

text \<open>What the proxy rung reads is out of reach of the Worker rung.\<close>

definition proxy_view :: "net_state \<Rightarrow> _" where
  "proxy_view s = (ba_proxies (ns_bal s), ba_proxy_idx (ns_bal s), ba_proxy_rr (ns_bal s),
     ba_sticky (ns_bal s), ns_proxies s)"

lemma worker_domains_view:
  "ba_proxies (snd (worker_domains_for_dc dc b)) = ba_proxies b"
  "ba_proxy_idx (snd (worker_domains_for_dc dc b)) = ba_proxy_idx b"
  "ba_proxy_rr (snd (worker_domains_for_dc dc b)) = ba_proxy_rr b"
  "ba_sticky (snd (worker_domains_for_dc dc b)) = ba_sticky b"
  by (simp_all add: worker_domains_for_dc_def case_prod_unfold)

lemma try_workers_view: "proxy_view (snd (try_workers c w clk dst dc m orig_ip ws s)) = proxy_view s"
  by (induction ws arbitrary: clk s)
    (auto simp: proxy_view_def worker_up_def case_prod_unfold worker_domains_view split: dial.split)

lemma proxy_trial_view:
  assumes "proxy_view s' = proxy_view s"
  shows "proxy_trial c w dc (ns_bal s') = proxy_trial c w dc (ns_bal s)"
    and "proxy_able w dc m s' = proxy_able w dc m s"
proof -
  have "fst (proxy_domains_for_dc dc (ns_bal s')) = fst (proxy_domains_for_dc dc (ns_bal s))"
    using assms
    by (simp add: proxy_view_def proxy_domains_for_dc_def case_prod_unfold split: option.split)
  then show "proxy_trial c w dc (ns_bal s') = proxy_trial c w dc (ns_bal s)"
    by (simp add: proxy_trial_def)
  show "proxy_able w dc m s' = proxy_able w dc m s"
    using assms by (intro proxy_able_cong) (simp add: proxy_view_def)
qed

lemma usable_workers_free:
  "fst (fst (usable_workers mx t ws s)) = filter (\<lambda>x. \<not> worker_limited s t x) ws"
  by (simp add: usable_workers_def case_prod_unfold free_workers_keep wl.keep_free_exact)

section \<open>The choice of the Cloudflare rung\<close>

definition cf_dial_choice ::
  "bridge_cfg \<Rightarrow> world \<Rightarrow> int \<Rightarrow> bool \<Rightarrow> string \<Rightarrow> net_state \<Rightarrow> route option" where
  "cf_dial_choice c w dc m orig_ip s =
     (case find (worker_able w (dst_fallback (ns_front s) dc orig_ip))
             (filter (\<lambda>x. \<not> worker_limited (ns_workers s) (wo_cf_clk w 1) x)
               (fst (worker_domains_for_dc dc (ns_bal s)))) of
        Some worker \<Rightarrow> Some (ViaWorker worker)
      | None \<Rightarrow> map_option ViaProxy (find (proxy_able w dc m s) (proxy_trial c w dc (ns_bal s))))"

definition cf_choice ::
  "bridge_cfg \<Rightarrow> world \<Rightarrow> int \<Rightarrow> bool \<Rightarrow> string \<Rightarrow> net_state \<Rightarrow> route option" where
  "cf_choice c w dc m orig_ip s =
     (if bc_no_cfproxy c then None
      else case fst (pool_acquire (bc_cf_pool c) (wo_cf_clk w 0) dc m (ns_cf_pool s)) of
             Some p \<Rightarrow> if wo_cf_pool_sent w then Some (ViaCfPool (po_label p))
                       else cf_dial_choice c w dc m orig_ip s
           | None \<Rightarrow> cf_dial_choice c w dc m orig_ip s)"

lemma try_cf_dials_choice:
  assumes "distinct (map norm_key (ba_proxies (ns_bal s)))"
  shows "fst (try_cf_dials c w dc m orig_ip s) = cf_dial_choice c w dc m orig_ip s"
proof -
  define s1 where "s1 = s\<lparr>ns_bal := snd (worker_domains_for_dc dc (ns_bal s)),
    ns_workers := snd (usable_workers (bc_worker_max c) (wo_cf_clk w 1)
      (fst (worker_domains_for_dc dc (ns_bal s))) (ns_workers s))\<rparr>"
  define t where "t = try_workers c w (\<lambda>i. wo_cf_clk w (i + 2)) (dst_fallback (ns_front s) dc orig_ip)
    dc m orig_ip (filter (\<lambda>x. \<not> worker_limited (ns_workers s) (wo_cf_clk w 1) x)
      (fst (worker_domains_for_dc dc (ns_bal s)))) s1"
  have view: "proxy_view (snd t) = proxy_view s"
    unfolding t_def by (simp add: try_workers_view) (simp add: proxy_view_def s1_def worker_domains_view)
  then have bal: "ba_proxies (ns_bal (snd t)) = ba_proxies (ns_bal s)" by (simp add: proxy_view_def)
  have "try_cf_dials c w dc m orig_ip s =
    (case t of (Some r, s) \<Rightarrow> (Some r, s) | (None, s) \<Rightarrow> try_proxies c w dc m s)"
    by (simp add: try_cf_dials_def t_def s1_def case_prod_unfold usable_workers_free split: option.split)
  moreover have "fst t = map_option ViaWorker (find (worker_able w (dst_fallback (ns_front s) dc orig_ip))
      (filter (\<lambda>x. \<not> worker_limited (ns_workers s) (wo_cf_clk w 1) x)
        (fst (worker_domains_for_dc dc (ns_bal s)))))"
    by (simp add: t_def try_workers_first)
  moreover have "fst (try_proxies c w dc m (snd t)) =
      map_option ViaProxy (find (proxy_able w dc m s) (proxy_trial c w dc (ns_bal s)))"
    using try_proxies_first [of "snd t" c w dc m] assms
    by (simp add: bal proxy_trial_view [OF view])
  ultimately show ?thesis
    by (simp add: cf_dial_choice_def case_prod_unfold split: option.split)
qed

text \<open>
  The Cloudflare rung takes the best path there is: it connects exactly when some candidate
  able to connect exists, and by the first of them in the order pooled Worker connection, usable
  Workers in the order of the datacenter, primary proxy domain, other domains of the window in the
  order of their answers. Which one is a function of the state at the start of the rung: no
  attempt spoils a later candidate.
\<close>

lemma cf_rung_choice:
  assumes "distinct (map norm_key (ba_proxies (ns_bal s)))"
  shows "fst (try_cf_fallback c w dc m orig_ip s) = cf_choice c w dc m orig_ip s"
proof -
  define s1 where "s1 = snd (take_cf_pool c w dc m s)"
  have "fst (try_cf_dials c w dc m orig_ip s1) = cf_dial_choice c w dc m orig_ip s1"
    using assms by (intro try_cf_dials_choice) (simp add: s1_def take_cf_pool_def case_prod_unfold)
  moreover have "cf_dial_choice c w dc m orig_ip s1 = cf_dial_choice c w dc m orig_ip s"
    by (simp add: cf_dial_choice_def s1_def take_cf_pool_def case_prod_unfold
        proxy_able_cong [of "s\<lparr>ns_cf_pool := _\<rparr>" s] split: option.split)
  moreover have "fst (take_cf_pool c w dc m s) =
      fst (pool_acquire (bc_cf_pool c) (wo_cf_clk w 0) dc m (ns_cf_pool s))"
    by (simp add: take_cf_pool_def case_prod_unfold)
  ultimately show ?thesis
    by (simp add: try_cf_fallback_def cf_choice_def case_prod_unfold worker_up_def s1_def [symmetric]
        split: option.split)
qed

definition sample_cfg :: bridge_cfg where
  "sample_cfg =
     \<lparr>bc_skip = default_skip_config, bc_ws_pool = sample_pool_cfg, bc_cf_pool = sample_pool_cfg,
      bc_worker_base = 30 * NANOS, bc_worker_max = 600 * NANOS, bc_proxy_base = 10 * NANOS,
      bc_proxy_max = 300 * NANOS, bc_max_attempts = 3, bc_no_cfproxy = False,
      bc_no_worker_passthrough = False\<rparr>"

definition sample_net :: net_state where
  "sample_net =
     \<lparr>ns_front = init_front, ns_skip = init_skip,
      ns_bal = sample_balancer\<lparr>ba_workers := [''w'']\<rparr>,
      ns_workers = no_cooldowns, ns_proxies = Map.empty, ns_ws_pool = Map.empty,
      ns_cf_pool = Map.empty, ns_learned = \<lparr>dl_learned = [], dl_file = []\<rparr>, ns_stats = init_stats,
      ns_refills = [], ns_no_data = ttl_new, ns_warned = ttl_new\<rparr>"

text \<open>A network in which every direct dial is redirected, the Worker is dead and one proxy is up.\<close>

definition sample_world :: world where
  "sample_world =
     \<lparr>wo_pool_sent = False, wo_direct = (\<lambda>t d. ConnectErr (http_error 302)),
      wo_fronting = (\<lambda>t d. OuterTimeout), wo_cf_pool_sent = False,
      wo_worker = (\<lambda>worker dst. DialTimeout), wo_worker_sent = (\<lambda>worker. False),
      wo_con = (\<lambda>dial sni. if sni = ''kws2.b'' then Inr () else Inl WsTimeout), wo_doh = (\<lambda>host. ''''),
      wo_proxy_outer = (\<lambda>d. d = ''c''), wo_proxy_sent = (\<lambda>d. True), wo_race = [''a'', ''b''], wo_late = [],
      wo_tcp = (\<lambda>t dst. TcpNoConnect), wo_ws_clk = (\<lambda>i. 0), wo_cf_clk = (\<lambda>i. 0),
      wo_proxy_clk = (\<lambda>d. (0, 0)), wo_tcp_clk = (\<lambda>i. 0)\<rparr>"

lemma norm_key_letter: "is_graphic x \<Longrightarrow> norm_key [x] = [char_lower x]"
  by (simp add: norm_key_def trim_graphic to_ascii_lowercase_def)

lemma sample_keys: "map norm_key [''a'', ''b'', ''c'', ''d''] = [''a'', ''b'', ''c'', ''d'']"
  by (simp add: norm_key_letter is_graphic_def char_lower_def is_ascii_uppercase_def)

lemma cf_rung_choice_sample:
  "fst (try_cf_fallback sample_cfg sample_world 2 False '''' sample_net) = Some (ViaProxy ''b'')"
proof -
  have "distinct (map norm_key (ba_proxies (ns_bal sample_net)))"
    by (simp only: sample_net_def net_state.select_convs)
      (simp add: sample_balancer_def sample_keys [simplified])
  then have "fst (try_cf_fallback sample_cfg sample_world 2 False '''' sample_net) =
      cf_choice sample_cfg sample_world 2 False '''' sample_net"
    by (rule cf_rung_choice)
  also have "cf_choice sample_cfg sample_world 2 False '''' sample_net = Some (ViaProxy ''b'')"
    by (simp add: cf_choice_def sample_cfg_def sample_world_def sample_net_def pool_acquire_def
        cf_dial_choice_def worker_able_def proxy_trial_def worker_domains_for_dc_def
        proxy_domains_for_dc_def sample_balancer_def init_balancer_def ordered_domains_def push_new_def
        upt_rec_numeral race_order_def proxy_able_def left_def connect_cf_proxy_ws_def
        cf_proxy_hosts_def cf_proxy_ws_domain_def cf_connect_domain_def transport_failure_def
        is_ws_http_status_def show_int_def fold_dc_def digit_char_def show_nat.simps char_of_def bit_simps)
  finally show ?thesis .
qed

end
