(* ===== verification/Blind.thy ===== *)
theory Blind
  imports Bridge
begin

text \<open>
  \<open>bridge.rs\<close>, the last resort: \<open>blind_relay\<close> hands a connection that no bridge took, byte for
  byte, to a CF Worker tunnel or to the first address that answers. What the network does to it is
  the record \<open>blind_net\<close>. The result \<open>None\<close> is a panic of the parsers that look for a host. The
  address of the listener is an IPv4 one, as the destinations it is compared with.
\<close>

section \<open>Own address\<close>

definition parse_ipv4 :: "string \<Rightarrow> nat list option" where
  "parse_ipv4 s =
     (if is_ipv4 s then Some (map digits_value (split_on (\<lambda>c. c = CHR ''.'') s)) else None)"

definition is_self_target :: "(nat list \<times> nat) option \<Rightarrow> string \<Rightarrow> nat \<Rightarrow> bool" where
  "is_self_target self ip port \<longleftrightarrow>
     (case self of None \<Rightarrow> False
      | Some (local_ip, local_port) \<Rightarrow> port = local_port \<and> parse_ipv4 ip = Some local_ip)"

definition passthrough_ports :: "nat \<Rightarrow> nat list" where
  "passthrough_ports orig_port =
     (if orig_port = 0 then [443] else if orig_port = 5222 then [5222, 443] else [orig_port])"

section \<open>Worker passthrough\<close>

text \<open>
  How a tunnel through a Worker ends: the bytes that came back, and whether it was reaped idle.
\<close>

record tunnel =
  tu_down_bytes :: nat
  tu_idle :: bool

record blind_net =
  bn_self :: "(nat list \<times> nat) option"
  bn_worker :: "string \<Rightarrow> string \<Rightarrow> nat \<Rightarrow> dial"
  bn_worker_sent :: "string \<Rightarrow> bool"
  bn_tunnel :: "string \<Rightarrow> tunnel"
  bn_connect :: "string \<Rightarrow> nat \<Rightarrow> bool"
  bn_front_sent :: bool
  bn_reply :: "bytes option"
  bn_clk :: "nat \<Rightarrow> nat"
  bn_warn_at :: nat

definition NO_DATA_LOG_EVERY :: nat where "NO_DATA_LOG_EVERY = 300 * NANOS"
definition PASSTHROUGH_WARN_EVERY :: nat where "PASSTHROUGH_WARN_EVERY = 300 * NANOS"

text \<open>Whether a WARN is written, and the state after it.\<close>

definition warn_no_data :: "nat \<Rightarrow> string \<Rightarrow> nat \<Rightarrow> net_state \<Rightarrow> bool \<times> net_state" where
  "warn_no_data now orig_ip port s =
     (case ttl_mark_if_absent (ns_no_data s) now (orig_ip @ '':'' @ show_nat port) NO_DATA_LOG_EVERY of
        (b, m) \<Rightarrow> (b, s\<lparr>ns_no_data := m\<rparr>))"

text \<open>\<open>relay_via_worker\<close>: \<open>False\<close> gives the client back. It is never called for port 80, where it would
  compute a host for its log.\<close>

definition relay_via_worker ::
  "blind_net \<Rightarrow> nat \<Rightarrow> bytes \<Rightarrow> string \<Rightarrow> string \<Rightarrow> nat \<Rightarrow> net_state \<Rightarrow> bool \<times> net_state" where
  "relay_via_worker w now initial worker orig_ip port s =
     (if initial \<noteq> [] \<and> \<not> bn_worker_sent w worker then (False, s)
      else
        let s = s\<lparr>ns_stats := inc WorkerPassthrough (ns_stats s)\<rparr>;
            s = (if tu_idle (bn_tunnel w worker) then s\<lparr>ns_stats := inc IdleReaped (ns_stats s)\<rparr> else s)
        in (True,
            if tu_down_bytes (bn_tunnel w worker) = 0
            then snd (warn_no_data now orig_ip port
                       (s\<lparr>ns_stats := inc PassthroughNoData (ns_stats s)\<rparr>))
            else s))"

fun passthrough_workers ::
  "bridge_cfg \<Rightarrow> blind_net \<Rightarrow> (nat \<Rightarrow> nat) \<Rightarrow> string list \<Rightarrow> bytes \<Rightarrow> string \<Rightarrow> nat \<Rightarrow> string list
   \<Rightarrow> net_state \<Rightarrow> string option \<times> net_state" where
  "passthrough_workers c w clk configured initial ip port [] s = (None, s)"
| "passthrough_workers c w clk configured initial ip port (worker # ws) s =
     (case bn_worker w worker ip port of
        DialOk \<Rightarrow>
          (case relay_via_worker w (clk 0) initial worker ip port
                  (s\<lparr>ns_workers := clear_worker_429 worker (ns_workers s)\<rparr>) of
             (True, s) \<Rightarrow> (Some worker, s)
           | (False, s) \<Rightarrow>
               passthrough_workers c w (\<lambda>i. clk (i + 1)) configured initial ip port ws s)
      | DialErr e \<Rightarrow>
          passthrough_workers c w (\<lambda>i. clk (i + 1)) configured initial ip port ws
            (s\<lparr>ns_workers :=
                 mark_worker_429_with_peers (bc_worker_base c) (bc_worker_max c) (clk 0) worker e configured
                   (ns_workers s)\<rparr>)
      | DialTimeout \<Rightarrow> passthrough_workers c w (\<lambda>i. clk (i + 1)) configured initial ip port ws s)"

definition try_worker_passthrough ::
  "bridge_cfg \<Rightarrow> blind_net \<Rightarrow> string \<Rightarrow> nat \<Rightarrow> bytes \<Rightarrow> net_state \<Rightarrow> string option \<times> net_state" where
  "try_worker_passthrough c w orig_ip orig_port initial s =
     (if orig_ip = '''' \<or> bc_no_cfproxy c \<or> bc_no_worker_passthrough c then (None, s)
      else let configured = ba_workers (ns_bal s)
           in if configured = [] then (None, s)
              else (case usable_workers (bc_worker_max c) (bn_clk w 0) configured (ns_workers s) of
                      ((workers, cooling), wc) \<Rightarrow>
                        let s = s\<lparr>ns_workers := wc\<rparr>;
                            port = (if orig_port = 0 then 443 else orig_port)
                        in if workers = [] then (None, s)
                           else passthrough_workers c w (\<lambda>i. bn_clk w (i + 1)) configured initial orig_ip
                                  port workers s))"

section \<open>The relay\<close>

text \<open>
  The dial loop over targets and ports: the addresses dialled, in order, and the one connected.
\<close>

fun dial_targets ::
  "blind_net \<Rightarrow> (string \<times> nat) list \<Rightarrow> (string \<times> nat) list \<Rightarrow> (string \<times> nat) list \<times> (string \<times> nat) option"
  where
  "dial_targets w tried [] = (tried, None)"
| "dial_targets w tried ((ip, port) # rest) =
     (if is_self_target (bn_self w) ip port then dial_targets w tried rest
      else if bn_connect w ip port then (tried @ [(ip, port)], Some (ip, port))
      else dial_targets w (tried @ [(ip, port)]) rest)"

datatype blind_end =
    Tunnelled string string nat bytes
  | Fronted string nat bytes
  | FrontLost string nat
  | NoTarget

definition warn_passthrough :: "nat \<Rightarrow> string \<Rightarrow> net_state \<Rightarrow> bool \<times> net_state" where
  "warn_passthrough now host s =
     (if host = '''' then (False, s)
      else case ttl_mark_if_absent (ns_warned s) now host PASSTHROUGH_WARN_EVERY of
             (b, m) \<Rightarrow> (b, s\<lparr>ns_warned := m\<rparr>))"

text \<open>The first answer from the front: a refused MTProto-over-HTTP request is counted.\<close>

definition note_reply :: "blind_net \<Rightarrow> string \<Rightarrow> nat \<Rightarrow> net_state \<Rightarrow> net_state" where
  "note_reply w orig_ip orig_port s =
     (case bn_reply w of
        None \<Rightarrow> s
      | Some peek \<Rightarrow>
          if peek \<noteq> [] \<and> orig_port = 80
            \<and> needs_http_host_rewrite (dl_learned (ns_learned s)) orig_ip
            \<and> media_http_rejected (http_status_code (take 512 peek))
          then s\<lparr>ns_stats := inc MediaHttpRejected (ns_stats s)\<rparr> else s)"

text \<open>The dial loop and the first exchange with the address it reaches.\<close>

definition front_exchange ::
  "blind_net \<Rightarrow> string \<Rightarrow> nat \<Rightarrow> string \<Rightarrow> bytes \<Rightarrow> string list \<Rightarrow> net_state
   \<Rightarrow> (string \<times> nat) list \<times> blind_end \<times> net_state" where
  "front_exchange w orig_ip orig_port host front_payload targets s =
     (case dial_targets w []
             (concat (map (\<lambda>ip. map (\<lambda>port. (ip, port)) (passthrough_ports orig_port)) targets)) of
        (tried, None) \<Rightarrow> (tried, NoTarget, snd (warn_passthrough (bn_warn_at w) host s))
      | (tried, Some (ip, port)) \<Rightarrow>
          if front_payload \<noteq> [] \<and> \<not> bn_front_sent w then (tried, FrontLost ip port, s)
          else (tried, Fronted ip port front_payload, note_reply w orig_ip orig_port s))"

text \<open>From the host on: what is sent is \<open>front_payload\<close>.\<close>

definition front_relay ::
  "(string \<Rightarrow> string) \<Rightarrow> blind_net \<Rightarrow> string \<Rightarrow> nat \<Rightarrow> bytes \<Rightarrow> bytes \<Rightarrow> net_state
   \<Rightarrow> ((string \<times> nat) list \<times> blind_end \<times> net_state) option" where
  "front_relay lc w orig_ip orig_port initial http_payload s = do {
     host \<leftarrow> passthrough_host lc initial;
     let host = (if host = '''' \<and> orig_port = 80
                 then http_front_host (dl_learned (ns_learned s)) orig_ip orig_port else host);
     let front_payload = (if orig_port = 80 then http_payload else initial);
     raw_host \<leftarrow> http_host_raw lc front_payload;
     Some (front_exchange w orig_ip orig_port host front_payload
             (passthrough_targets lc (ns_front s) (dl_learned (ns_learned s)) orig_ip host orig_port) s)
   }"

definition blind_relay ::
  "(string \<Rightarrow> string) \<Rightarrow> bridge_cfg \<Rightarrow> blind_net \<Rightarrow> string \<Rightarrow> nat \<Rightarrow> bytes \<Rightarrow> net_state
   \<Rightarrow> ((string \<times> nat) list \<times> blind_end \<times> net_state) option" where
  "blind_relay lc c w orig_ip orig_port initial s =
     (let s = s\<lparr>ns_stats := inc BlindRelay (ns_stats s)\<rparr>;
          http_payload = (if orig_port = 80
            then http_front_passthrough_payload (dl_learned (ns_learned s)) initial orig_ip orig_port
            else initial)
      in if should_try_worker_passthrough orig_port
         then (case try_worker_passthrough c w orig_ip orig_port http_payload s of
                 (Some worker, s) \<Rightarrow>
                   Some ([], Tunnelled worker orig_ip (if orig_port = 0 then 443 else orig_port)
                               http_payload, s)
               | (None, s) \<Rightarrow> front_relay lc w orig_ip orig_port initial http_payload s)
         else front_relay lc w orig_ip orig_port initial http_payload s)"

end
