(* ===== verification/Session.thy ===== *)
theory Session
  imports Blind Handshake Ladder
begin

text \<open>
  \<open>main.rs\<close>: what the daemon does with one accepted connection. \<open>handle_conn\<close> drops a connection
  to the listener itself, reads the start of the stream, and goes on with a handshake or relays
  blindly; \<open>handle_handshake\<close> goes down the ladder of \<open>Bridge\<close>. Every call that changes the
  shared state is made in the order of the source. \<open>None\<close> is a panic of the task.
\<close>

section \<open>One handshake\<close>

text \<open>
  How a session ends: a bridged session has the init packet it sent, the re-encryption context and
  the stream of the client past its handshake; a relayed one the socket, the bytes replayed, the
  addresses dialled and where the bytes went; \<open>Drawing\<close> is the loop of
  \<open>generate_relay_init\<close> still running when the given random draws are used up.
\<close>

datatype session_end =
    Bridged route bytes crypto_ctx prefixed_stream
  | Relayed sock bytes "(string \<times> nat) list" blind_end
  | SelfDropped
  | Drawing

text \<open>Blind relay of the handshake and of the bytes already read past it.\<close>

definition relay_raw ::
  "(string \<Rightarrow> string) \<Rightarrow> bridge_cfg \<Rightarrow> blind_net \<Rightarrow> string \<Rightarrow> nat \<Rightarrow> sock \<Rightarrow> bytes \<Rightarrow> net_state
   \<Rightarrow> (session_end \<times> net_state) option" where
  "relay_raw lc c bw orig_ip orig_port stream raw s =
     (case blind_relay lc c bw orig_ip orig_port raw s of
        None \<Rightarrow> None
      | Some (tried, e, s) \<Rightarrow> Some (Relayed stream raw tried e, s))"

definition blind_relay_prefixed ::
  "(string \<Rightarrow> string) \<Rightarrow> bridge_cfg \<Rightarrow> blind_net \<Rightarrow> string \<Rightarrow> nat \<Rightarrow> handshake_info \<Rightarrow> prefixed_stream
   \<Rightarrow> net_state \<Rightarrow> (session_end \<times> net_state) option" where
  "blind_relay_prefixed lc c bw orig_ip orig_port hs client s =
     (case into_parts client of
        (stream, extra) \<Rightarrow> relay_raw lc c bw orig_ip orig_port stream (hi_handshake hs @ extra) s)"

text \<open>The datacenter: from the packet, which teaches the address; else from the address.\<close>

definition resolve_dc ::
  "string \<Rightarrow> handshake_info \<Rightarrow> net_state \<Rightarrow> handshake_info \<times> net_state" where
  "resolve_dc orig_ip hs s =
     (if hi_dc_in_pkt hs \<and> orig_ip \<noteq> ''''
      then (hs, s\<lparr>ns_learned := learn orig_ip (hi_dc hs) (hi_is_media hs) (ns_learned s)\<rparr>)
      else if orig_ip \<noteq> ''''
      then (case dc_from_orig_dst (dl_learned (ns_learned s)) orig_ip of
              Some (dc, media) \<Rightarrow> (hs\<lparr>hi_dc := dc, hi_is_media := media\<rparr>, s)
            | None \<Rightarrow> (hs, s))
      else (hs, s))"

text \<open>The rungs: the direct one unless it is skipped, then Cloudflare, then TCP.\<close>

definition direct_rung ::
  "bridge_cfg \<Rightarrow> world \<Rightarrow> (nat \<Rightarrow> nat) \<Rightarrow> int \<Rightarrow> bool \<Rightarrow> string \<Rightarrow> net_state \<Rightarrow> route option \<times> net_state" where
  "direct_rung c w clk dc m orig_ip s =
     (case should_skip_ws (ns_front s) (clk 0) (clk 1) dc m orig_ip (ns_skip s) of
        (True, sk) \<Rightarrow> (None, s\<lparr>ns_skip := sk\<rparr>)
      | (False, sk) \<Rightarrow>
          (case try_ws_bridge c w dc m orig_ip (s\<lparr>ns_skip := sk\<rparr>) of
             (WsConnected r, s) \<Rightarrow> (Some r, s)
           | (WsFailed all_blocked timed_out, s) \<Rightarrow>
               (None,
                if all_blocked
                   \<and> ws_redirect_blacklist_warranted (ns_front s) dc (ws_target_ip (ns_front s) dc orig_ip)
                then s\<lparr>ns_skip := mark_ws_blacklisted (bc_skip c) (clk 2) dc m (ns_skip s)\<rparr>
                else s)))"

definition ladder ::
  "bridge_cfg \<Rightarrow> world \<Rightarrow> (nat \<Rightarrow> nat) \<Rightarrow> int \<Rightarrow> bool \<Rightarrow> string \<Rightarrow> net_state \<Rightarrow> route option \<times> net_state" where
  "ladder c w clk dc m orig_ip s =
     (case direct_rung c w clk dc m orig_ip s of
        (Some r, s) \<Rightarrow> (Some r, s)
      | (None, s) \<Rightarrow>
          (case try_cf_fallback c w dc m orig_ip s of
             (Some r, s) \<Rightarrow> (Some r, s)
           | (None, s) \<Rightarrow> try_tcp_fallback c w dc m orig_ip s))"

definition handle_handshake ::
  "keystream \<Rightarrow> (string \<Rightarrow> string) \<Rightarrow> bridge_cfg \<Rightarrow> world \<Rightarrow> blind_net \<Rightarrow> (nat \<Rightarrow> nat) \<Rightarrow> bytes list
   \<Rightarrow> handshake_info \<Rightarrow> prefixed_stream \<Rightarrow> string \<Rightarrow> nat \<Rightarrow> net_state
   \<Rightarrow> (session_end \<times> net_state) option" where
  "handle_handshake ks lc c w bw clk draws hs0 client orig_ip orig_port s0 =
     (case resolve_dc orig_ip hs0 s0 of
        (hs, s) \<Rightarrow>
          if hi_dc hs = 0
          then (case into_parts client of
                  (stream, extra) \<Rightarrow>
                    relay_raw lc c bw orig_ip orig_port stream (hi_handshake hs @ extra) s)
          else
            let dc_idx = sint (word_of_int (if hi_is_media hs then - hi_dc hs else hi_dc hs) :: 16 word)
            in case generate_relay_init ks (proto_tag_for (hi_proto_int hs)) dc_idx draws of
                 None \<Rightarrow> Some (Drawing, s)
               | Some (Inl e) \<Rightarrow> blind_relay_prefixed lc c bw orig_ip orig_port hs client s
               | Some (Inr relay_init) \<Rightarrow>
                   (case build_direct ks (hi_handshake hs) relay_init of
                      None \<Rightarrow> None
                    | Some (Inl e) \<Rightarrow> blind_relay_prefixed lc c bw orig_ip orig_port hs client s
                    | Some (Inr ctx) \<Rightarrow>
                        (case ladder c w clk (hi_dc hs) (hi_is_media hs) orig_ip s of
                           (Some r, s) \<Rightarrow> Some (Bridged r relay_init ctx client, s)
                         | (None, s) \<Rightarrow>
                             (case into_parts client of
                                (stream, extra) \<Rightarrow>
                                  relay_raw lc c bw orig_ip orig_port stream (hi_handshake hs @ extra)
                                    (s\<lparr>ns_stats := inc AllPathsFailed (ns_stats s)\<rparr>)))))"

section \<open>One connection\<close>

text \<open>
  The original destination is what \<open>SO_ORIGINAL_DST\<close> says; without it the address is empty and the
  port 0. \<open>iclk\<close> and \<open>iclk2\<close> are the clocks of the init loop.
\<close>

definition handle_conn ::
  "nat \<Rightarrow> keystream \<Rightarrow> (string \<Rightarrow> string) \<Rightarrow> bridge_cfg \<Rightarrow> world \<Rightarrow> blind_net \<Rightarrow> (nat \<Rightarrow> nat) \<Rightarrow> (nat \<Rightarrow> nat)
   \<Rightarrow> (nat \<Rightarrow> nat) \<Rightarrow> bytes list \<Rightarrow> (string \<times> nat) option \<Rightarrow> sock \<Rightarrow> net_state
   \<Rightarrow> (session_end \<times> net_state) option" where
  "handle_conn us ks lc c w bw iclk iclk2 clk draws dst stream s =
     (case (case dst of Some d \<Rightarrow> d | None \<Rightarrow> ('''', 0)) of
        (orig_ip, orig_port) \<Rightarrow>
          if is_self_target (bn_self bw) orig_ip orig_port
          then Some (SelfDropped, s\<lparr>ns_stats := inc SelfConnectDropped (ns_stats s)\<rparr>)
          else (case read_client_init us ks iclk iclk2 stream of
                  None \<Rightarrow> None
                | Some (InitMtproto info client) \<Rightarrow>
                    handle_handshake ks lc c w bw clk draws info client orig_ip orig_port s
                | Some (InitErr stream raw e) \<Rightarrow>
                    relay_raw lc c bw orig_ip orig_port stream raw s))"

section \<open>When a datacenter is blacklisted\<close>

lemma ws_end_frame:
  "sk_blacklist (ns_skip (snd (ws_up c x r target dc m s))) = sk_blacklist (ns_skip s)"
  "sk_blacklist (ns_skip (snd (ws_down c w target dc m b t s))) = sk_blacklist (ns_skip s)"
  "ns_front (snd (ws_up c x r target dc m s)) = ns_front s"
  "ns_front (snd (ws_down c w target dc m b t s)) = ns_front s"
  by (simp_all add: ws_up_def ws_down_def skip_ops Let_def case_prod_unfold)

lemma try_dials_frame:
  "sk_blacklist (ns_skip (snd (try_dials c w ft ct target dc m s))) = sk_blacklist (ns_skip s)"
  "ns_front (snd (try_dials c w ft ct target dc m s)) = ns_front s"
  by (simp_all add: try_dials_def Let_def case_prod_unfold ws_end_frame skip_ops split: sum.split)

lemma try_ws_bridge_frame:
  "sk_blacklist (ns_skip (snd (try_ws_bridge c w dc m ip s))) = sk_blacklist (ns_skip s)"
  "ns_front (snd (try_ws_bridge c w dc m ip s)) = ns_front s"
  by (simp_all add: try_ws_bridge_def try_direct_def take_ws_pool_def Let_def case_prod_unfold
      ws_end_frame try_dials_frame ws_connect_timeout_def split: option.split)

text \<open>A round that reports "all blocked" saw nothing but redirects.\<close>

definition all_redirected :: "(string \<Rightarrow> attempt) \<Rightarrow> int \<Rightarrow> bool \<Rightarrow> bool" where
  "all_redirected att dc m \<longleftrightarrow> list_all (\<lambda>d. blocked_attempt (att d)) (ws_domains dc m)"

definition fronting_on :: "bridge_cfg \<Rightarrow> world \<Rightarrow> string \<Rightarrow> int \<Rightarrow> skip_state \<Rightarrow> bool" where
  "fronting_on c w target dc sk \<longleftrightarrow>
     fronting_enabled (bc_skip c) \<and> \<not> ttl_active (sk_fronting_fail sk) (wo_ws_clk w 3) (target, dc)"

lemma dial_domains_blocked:
  "dial_domains att True False (ws_domains dc m) = Inl (True, t) \<Longrightarrow> all_redirected att dc m"
  using dial_domains_failed [of att True False "ws_domains dc m" True t]
  by (auto simp: all_redirected_def list_all_iff)

lemma try_dials_blocked:
  assumes "fst (try_dials c w ft ct target dc m s) = WsFailed True t" and "target \<noteq> ''''"
  shows "all_redirected (wo_direct w ct) dc m \<and>
    (fronting_on c w target dc (ns_skip s) \<longrightarrow> all_redirected (wo_fronting w ft) dc m)"
proof -
  let ?r = "try_ws_with_domains (wo_direct w ct) (ws_domains dc m)"
  let ?f = "try_ws_fronting (bc_skip c) (wo_fronting w ft) dc m"
  obtain b t1 where r: "?r = Inl (b, t1)"
    using assms by (cases ?r) (auto simp: try_dials_def ws_up_def)
  show ?thesis
  proof (cases "fst (should_skip_fronting (bc_skip c) (wo_ws_clk w 3) target dc (ns_skip s))")
    case True
    then have "\<not> fronting_on c w target dc (ns_skip s)" and "b"
      using assms r
      by (auto simp: fronting_on_def should_skip_fronting_def try_dials_def ws_down_def
          case_prod_unfold Let_def split: if_splits)
    with r show ?thesis by (auto simp: try_ws_with_domains_def intro: dial_domains_blocked)
  next
    case False
    then have sni: "sc_fronting_sni (bc_skip c) \<noteq> None"
      using assms(2) by (auto simp: should_skip_fronting_def fronting_enabled_def split: if_splits)
    obtain fb ft' where f: "?f = Inl (fb, ft')"
      using assms r False by (cases ?f) (auto simp: try_dials_def ws_up_def case_prod_unfold Let_def)
    then have "b" "fb"
      using assms r False by (auto simp: try_dials_def ws_down_def case_prod_unfold Let_def)
    with r f sni show ?thesis
      by (auto simp: try_ws_with_domains_def try_ws_fronting_def intro: dial_domains_blocked)
  qed
qed

lemma try_ws_bridge_blocked:
  assumes "fst (try_ws_bridge c w dc m ip s) = WsFailed True t"
  defines "target \<equiv> ws_target_ip (ns_front s) dc ip"
  shows "\<exists>ft ct. all_redirected (wo_direct w ct) dc m \<and>
    (fronting_on c w target dc (ns_skip s) \<longrightarrow> all_redirected (wo_fronting w ft) dc m)"
proof -
  have t: "target \<noteq> ''''" using assms by (auto simp: try_ws_bridge_def)
  have keeps: "sk_fronting_fail (snd (ws_connect_timeout cfg now dc m sk)) = sk_fronting_fail sk" for cfg now sk
    by (simp add: ws_connect_timeout_def case_prod_unfold)
  have direct: "\<exists>ft ct. all_redirected (wo_direct w ct) dc m \<and>
      (fronting_on c w target dc (ns_skip s') \<longrightarrow> all_redirected (wo_fronting w ft) dc m)"
    if d: "fst (try_direct c w target dc m s') = WsFailed True t" for s'
    using try_dials_blocked [OF _ t, of c w] d
    by (fastforce simp: try_direct_def case_prod_unfold fronting_on_def keeps)
  have "\<exists>s'. fst (try_direct c w target dc m s') = WsFailed True t \<and> ns_skip s' = ns_skip s"
    using assms t
    by (auto simp: try_ws_bridge_def take_ws_pool_def Let_def case_prod_unfold ws_up_def
        split: option.splits if_splits)
  then show ?thesis using direct by fastforce
qed

text \<open>
  C15: The direct path of a datacenter is blacklisted only on evidence: if after a session some key
  is blacklisted that was not before, it is the session's own, for no longer than the TTL; every
  direct dial of the session was answered with an HTTP redirect, every fronted one too unless
  fronting was off or cooling down; and the address dialled was one whose redirects count.
\<close>

theorem blacklist_needs_redirects:
  assumes "ttl_active (sk_blacklist (ns_skip (snd (direct_rung c w clk dc m ip s)))) u key"
    and "\<not> ttl_active (sk_blacklist (ns_skip s)) u key"
  shows "key = (dc, m) \<and> u < clk 2 + sc_blacklist_ttl (bc_skip c)
    \<and> ws_domains dc m \<noteq> []
    \<and> ws_redirect_blacklist_warranted (ns_front s) dc (ws_target_ip (ns_front s) dc ip)
    \<and> (\<exists>ft ct. all_redirected (wo_direct w ct) dc m \<and>
         (fronting_on c w (ws_target_ip (ns_front s) dc ip) dc (ns_skip s) \<longrightarrow>
            all_redirected (wo_fronting w ft) dc m))"
proof -
  define q where "q = should_skip_ws (ns_front s) (clk 0) (clk 1) dc m ip (ns_skip s)"
  define s1 where "s1 = s\<lparr>ns_skip := snd q\<rparr>"
  define r where "r = try_ws_bridge c w dc m ip s1"
  have bl: "sk_blacklist (snd q) = snd (ttl_is_active (sk_blacklist (ns_skip s)) (clk 0) (dc, m))"
    and fr: "sk_fronting_fail (snd q) = sk_fronting_fail (ns_skip s)"
    by (auto simp: q_def should_skip_ws_def ws_blacklisted_def should_skip_direct_ws_def case_prod_unfold
        split: bool.split)
  have quiet: "\<not> ttl_active (snd (ttl_is_active (sk_blacklist (ns_skip s)) (clk 0) (dc, m))) u key"
    using assms(2) by (auto simp: ttl_is_active_prunes ttl_active_iff)
  have skip: "\<not> fst q"
    using assms(1) quiet bl
    by (cases q) (auto simp: direct_rung_def q_def [symmetric] simp del: One_nat_def)
  then have run: "direct_rung c w clk dc m ip s =
    (case r of (WsConnected x, s) \<Rightarrow> (Some x, s)
       | (WsFailed b t, s) \<Rightarrow> (None, if b \<and> ws_redirect_blacklist_warranted (ns_front s) dc
            (ws_target_ip (ns_front s) dc ip)
          then s\<lparr>ns_skip := mark_ws_blacklisted (bc_skip c) (clk 2) dc m (ns_skip s)\<rparr> else s))"
    by (cases q) (simp add: direct_rung_def q_def [symmetric] r_def s1_def del: One_nat_def)
  have frame: "sk_blacklist (ns_skip (snd r)) = sk_blacklist (snd q)" "ns_front (snd r) = ns_front s"
    by (simp_all add: r_def try_ws_bridge_frame) (simp_all add: s1_def)
  obtain t where t: "fst r = WsFailed True t"
      "ws_redirect_blacklist_warranted (ns_front s) dc (ws_target_ip (ns_front s) dc ip)"
      "ttl_active (snd (ttl_mark_if_absent (sk_blacklist (snd q)) (clk 2) (dc, m)
        (sc_blacklist_ttl (bc_skip c)))) u key"
    using assms(1) quiet frame bl
    by (cases r; cases "fst r") (auto simp: run mark_ws_blacklisted_def split: if_splits)
  have "key = (dc, m) \<and> u < clk 2 + sc_blacklist_ttl (bc_skip c)"
    using t(3) quiet bl by (auto simp: ttl_active_iff ttl_mark_if_absent_def split: option.splits if_splits)
  moreover have "fronting_on c w target dc (ns_skip s1) = fronting_on c w target dc (ns_skip s)" for target
    by (simp add: fronting_on_def s1_def fr)
  ultimately show ?thesis
    using try_ws_bridge_blocked [of c w dc m ip s1 t] t(1,2)
    by (simp add: r_def s1_def ws_domains_def Let_def)
qed

section \<open>No byte of a connection is lost\<close>

text \<open>What blind relay sends is what it was given, but for the Host header of MTProto over HTTP.\<close>

definition payload_ok :: "bytes \<Rightarrow> string \<Rightarrow> nat \<Rightarrow> bytes \<Rightarrow> bool" where
  "payload_ok raw ip port out \<longleftrightarrow>
     (if port = 80 then \<exists>lm. out = http_front_passthrough_payload lm raw ip port else out = raw)"

definition blind_ok ::
  "blind_net \<Rightarrow> string \<Rightarrow> nat \<Rightarrow> bytes \<Rightarrow> (string \<times> nat) list \<Rightarrow> blind_end \<Rightarrow> bool" where
  "blind_ok bw ip port raw tried e \<longleftrightarrow>
     list_all (\<lambda>(ip, port). \<not> is_self_target (bn_self bw) ip port) tried \<and>
     (case e of
        Tunnelled worker ip' port' out \<Rightarrow>
          tried = [] \<and> port \<noteq> 80 \<and> ip' = ip \<and> port' = (if port = 0 then 443 else port) \<and> out = raw
      | Fronted ip' port' out \<Rightarrow>
          tried \<noteq> [] \<and> last tried = (ip', port') \<and> port' \<in> set (passthrough_ports port)
          \<and> payload_ok raw ip port out
      | FrontLost ip' port' \<Rightarrow> tried \<noteq> [] \<and> last tried = (ip', port') \<and> \<not> bn_front_sent bw
      | NoTarget \<Rightarrow> list_all (\<lambda>(ip, port). \<not> bn_connect bw ip port) tried)"

lemma dial_targets_Some:
  "dial_targets w tried ts = (out, Some t) \<Longrightarrow> out \<noteq> [] \<and> last out = t \<and> t \<in> set ts \<and>
     \<not> is_self_target (bn_self w) (fst t) (snd t)"
  by (induction w tried ts rule: dial_targets.induct) (auto split: if_splits)

lemma dial_targets_tried:
  "dial_targets w tried ts = (out, r) \<Longrightarrow>
     list_all (\<lambda>(ip, port). \<not> is_self_target (bn_self w) ip port) tried \<Longrightarrow>
     list_all (\<lambda>(ip, port). \<not> is_self_target (bn_self w) ip port) out"
  by (induction w tried ts rule: dial_targets.induct) (auto split: if_splits)

lemma dial_targets_None:
  "dial_targets w tried ts = (out, None) \<Longrightarrow>
     list_all (\<lambda>(ip, port). \<not> bn_connect w ip port) tried \<Longrightarrow>
     list_all (\<lambda>(ip, port). \<not> bn_connect w ip port) out"
  by (induction w tried ts rule: dial_targets.induct) (auto split: if_splits)

lemma front_exchange_ok:
  assumes "front_exchange w ip port host out ts s = (tried, e, s')" and "payload_ok raw ip port out"
  shows "blind_ok w ip port raw tried e"
proof -
  define all where "all = concat (map (\<lambda>ip. map (\<lambda>port. (ip, port)) (passthrough_ports port)) ts)"
  obtain r where r: "dial_targets w [] all = (tried, r)"
    and e: "e = (case r of None \<Rightarrow> NoTarget
      | Some (ip', port') \<Rightarrow>
          if out \<noteq> [] \<and> \<not> bn_front_sent w then FrontLost ip' port' else Fronted ip' port' out)"
    using assms(1) by (auto simp: front_exchange_def all_def split: prod.splits option.splits if_splits)
  have free: "list_all (\<lambda>(ip, port). \<not> is_self_target (bn_self w) ip port) tried"
    using dial_targets_tried [OF r] by simp
  show ?thesis
  proof (cases r)
    case None
    then show ?thesis
      using dial_targets_None [of w "[]" all tried] r e free by (simp add: blind_ok_def)
  next
    case (Some t)
    then have t: "tried \<noteq> []" "last tried = t" "t \<in> set all"
      using dial_targets_Some [of w "[]" all tried t] r by auto
    then have "snd t \<in> set (passthrough_ports port)" by (auto simp: all_def)
    with t Some e free assms(2) show ?thesis by (cases t) (simp add: blind_ok_def)
  qed
qed

lemma front_relay_ok:
  assumes "front_relay lc w ip port raw payload s = Some (tried, e, s')"
    and "port = 80 \<Longrightarrow> \<exists>lm. payload = http_front_passthrough_payload lm raw ip port"
  shows "blind_ok w ip port raw tried e"
proof -
  have "payload_ok raw ip port (if port = 80 then payload else raw)"
    using assms(2) by (simp add: payload_ok_def)
  then show ?thesis
    using assms(1) by (auto simp: front_relay_def Let_def bind_eq_Some_conv simp del: if_split
        intro: front_exchange_ok)
qed

lemma blind_relay_ok:
  assumes "blind_relay lc c w ip port raw s = Some (tried, e, s')"
  shows "blind_ok w ip port raw tried e"
proof (cases "port = 80")
  case True
  then show ?thesis
    using assms by (auto simp: blind_relay_def should_try_worker_passthrough_def Let_def
        intro: front_relay_ok)
next
  case False
  then show ?thesis
    using assms
    by (auto simp: blind_relay_def should_try_worker_passthrough_def Let_def blind_ok_def [of _ _ _ _ "[]"]
        split: prod.splits option.splits intro: front_relay_ok)
qed

text \<open>What the end of a session means for the stream \<open>str\<close> of the connection.\<close>

definition end_ok ::
  "keystream \<Rightarrow> blind_net \<Rightarrow> string \<Rightarrow> nat \<Rightarrow> bytes \<Rightarrow> session_end \<Rightarrow> bool" where
  "end_ok ks bw ip port str e \<longleftrightarrow>
     (case e of
        Bridged r relay_init ctx client \<Rightarrow>
          (\<exists>junk h. str = junk @ h @ snd (into_parts client) @ sock_bytes (fst (into_parts client)) \<and>
             length h = HANDSHAKE_LEN \<and> build_direct ks h relay_init = Some (Inr ctx))
      | Relayed stream raw tried b \<Rightarrow>
          (\<exists>junk. str = junk @ raw @ sock_bytes stream) \<and> blind_ok bw ip port raw tried b
      | SelfDropped \<Rightarrow> is_self_target (bn_self bw) ip port
      | Drawing \<Rightarrow> True)"

lemma relay_raw_ok:
  assumes "relay_raw lc c bw ip port stream raw s = Some (e, s')" and "str = junk @ raw @ sock_bytes stream"
  shows "end_ok ks bw ip port str e"
  using assms by (auto simp: relay_raw_def end_ok_def blind_relay_ok split: option.splits)

lemma parse_direct_len: "parse_direct_handshake ks h = Inr info \<Longrightarrow> length h = HANDSHAKE_LEN"
  by (auto simp: parse_direct_handshake_def split: if_splits)

lemma resolve_dc_handshake: "hi_handshake (fst (resolve_dc ip hs s)) = hi_handshake hs"
  by (auto simp: resolve_dc_def split: option.splits)

lemma handle_handshake_ok:
  assumes run: "handle_handshake ks lc c w bw clk draws hs client ip port s = Some (e, s')"
    and str: "str = junk @ hi_handshake hs @ snd (into_parts client) @ sock_bytes (fst (into_parts client))"
    and len: "length (hi_handshake hs) = HANDSHAKE_LEN"
  shows "end_ok ks bw ip port str e"
proof -
  obtain hs' s1 where r: "resolve_dc ip hs s = (hs', s1)" by fastforce
  then have h: "hi_handshake hs' = hi_handshake hs" using resolve_dc_handshake [of ip hs s] by simp
  have raw: "end_ok ks bw ip port str e"
    if "relay_raw lc c bw ip port (fst (into_parts client)) (hi_handshake hs' @ snd (into_parts client)) s2
      = Some (e, s')" for s2
    using that by (rule relay_raw_ok) (simp add: str h)
  have bridged: "end_ok ks bw ip port str (Bridged x relay_init ctx client)"
    if "build_direct ks (hi_handshake hs') relay_init = Some (Inr ctx)" for x relay_init ctx
    using that str len h by (auto simp: end_ok_def)
  show ?thesis
    using run raw bridged
    by (auto simp: handle_handshake_def r blind_relay_prefixed_def case_prod_unfold Let_def end_ok_def [of _ _ _ _ _ Drawing]
        split: if_splits option.splits sum.splits)
qed


section \<open>Every connection ends\<close>

lemma relay_init_made:
  assumes "list_all (\<lambda>d. length d = 64) draws" and "list_ex (\<lambda>d. \<not> draw_rejected d) draws"
  obtains relay where "generate_relay_init ks (proto_tag_for p) d draws = Some (Inr relay)"
    and "length relay = 64"
proof -
  have "\<exists>rnd \<in> set draws. \<not> draw_rejected rnd" using assms(2) by (auto simp: list_ex_iff)
  then obtain rnd where rnd: "rnd \<in> set draws"
      "generate_relay_init ks (proto_tag_for p) d draws = Some (seal_relay_init ks (proto_tag_for p) d rnd)"
    using generate_relay_init_found [of draws ks "proto_tag_for p" d] by blast
  then have "length rnd = 64" using assms(1) by (simp add: list_all_iff)
  from sealed_relay_init [OF this known_tag_length [OF proto_tag_for_known]] rnd that
  show ?thesis by metis
qed

text \<open>The panics that are left: the host parsers, on the bytes that are relayed.\<close>

definition parsers_panic :: "(string \<Rightarrow> string) \<Rightarrow> string \<Rightarrow> nat \<Rightarrow> bytes \<Rightarrow> bool" where
  "parsers_panic lc ip port raw \<longleftrightarrow>
     passthrough_host lc raw = None \<or> (\<exists>out. payload_ok raw ip port out \<and> http_host_raw lc out = None)"

lemma relay_raw_panic:
  assumes "relay_raw lc c bw ip port stream raw s = None"
  shows "parsers_panic lc ip port raw"
proof -
  define payload where "payload s = (if port = 80
    then http_front_passthrough_payload (dl_learned (ns_learned s)) raw ip port else raw)" for s :: net_state
  have ok: "payload_ok raw ip port (if port = 80 then payload s else raw)" for s
    by (auto simp: payload_ok_def payload_def)
  obtain s1 s2 where "front_relay lc bw ip port raw (payload s1) s2 = None"
    using assms
    by (auto simp: relay_raw_def blind_relay_def payload_def Let_def split: if_splits option.splits prod.splits)
  then show ?thesis
    using ok [of s1] by (auto simp: front_relay_def parsers_panic_def Let_def bind_eq_None_conv)
qed

lemma handle_handshake_ends:
  assumes "list_all (\<lambda>d. length d = 64) draws" and "list_ex (\<lambda>d. \<not> draw_rejected d) draws"
    and "length (hi_handshake hs) = HANDSHAKE_LEN"
  shows "case handle_handshake ks lc c w bw clk draws hs client ip port s of
      Some (e, s') \<Rightarrow> e \<noteq> Drawing
    | None \<Rightarrow> parsers_panic lc ip port (hi_handshake hs @ snd (into_parts client))"
proof -
  obtain hs' s1 where r: "resolve_dc ip hs s = (hs', s1)" by fastforce
  then have h: "hi_handshake hs' = hi_handshake hs" using resolve_dc_handshake [of ip hs s] by simp
  obtain relay where relay: "generate_relay_init ks (proto_tag_for (hi_proto_int hs'))
      (sint (word_of_int (if hi_is_media hs' then - hi_dc hs' else hi_dc hs') :: 16 word)) draws = Some (Inr relay)"
      "length relay = 64"
    using relay_init_made [OF assms(1,2)] by metis
  obtain ctx where ctx: "build_direct ks (hi_handshake hs') relay = Some (Inr ctx)"
    using build_direct_64 [of "hi_handshake hs'" relay ks] relay(2) assms(3) h
    by (simp add: HANDSHAKE_LEN_def)
  have raw: "case relay_raw lc c bw ip port stream (hi_handshake hs @ snd (into_parts client)) s2 of
      Some (e, s') \<Rightarrow> e \<noteq> Drawing
    | None \<Rightarrow> parsers_panic lc ip port (hi_handshake hs @ snd (into_parts client))" for stream s2
    using relay_raw_panic [of lc c bw ip port stream _ s2]
    by (auto simp: relay_raw_def split: option.splits)
  obtain q s3 where q: "ladder c w clk (hi_dc hs') (hi_is_media hs') ip s1 = (q, s3)" by fastforce
  obtain a b where i: "into_parts client = (a, b)" by fastforce
  show ?thesis
    using raw by (cases q; cases "hi_dc hs' = 0")
      (simp_all add: handle_handshake_def r [simplified] h Let_def relay(1) ctx [simplified h] q i)
qed

text \<open>
  C13: No connection hangs between its steps and none is lost without a reason: once one of the
  64-byte random draws is acceptable, every connection is bridged, relayed or dropped, unless the
  parsers that look for a host panic on bytes of its own stream.
\<close>

theorem connection_ends:
  assumes "list_all (\<lambda>d. length d = 64) draws" and "list_ex (\<lambda>d. \<not> draw_rejected d) draws"
  shows "case handle_conn us ks lc c w bw iclk iclk2 clk draws (Some (ip, port)) stream s of
      Some (e, s') \<Rightarrow> e \<noteq> Drawing
    | None \<Rightarrow> (\<exists>junk raw rest. sock_bytes stream = junk @ raw @ rest \<and> parsers_panic lc ip port raw)"
proof (cases "is_self_target (bn_self bw) ip port")
  case True
  then show ?thesis by (simp add: handle_conn_def)
next
  case False
  obtain r where r: "read_client_init us ks iclk iclk2 stream = Some r" "init_keeps ks (sock_bytes stream) r"
    using read_init_loop_keeps [of "[]" us ks iclk iclk2 0 stream] by (auto simp: read_client_init_def)
  show ?thesis
  proof (cases r)
    case (InitMtproto info client)
    then obtain junk where str: "sock_bytes stream =
        junk @ (hi_handshake info @ snd (into_parts client)) @ sock_bytes (fst (into_parts client))"
      and len: "length (hi_handshake info) = HANDSHAKE_LEN"
      using r(2) parse_direct_len by (auto simp: init_keeps_def into_parts_def)
    have conn: "handle_conn us ks lc c w bw iclk iclk2 clk draws (Some (ip, port)) stream s =
        handle_handshake ks lc c w bw clk draws info client ip port s"
      using r(1) False by (simp add: handle_conn_def InitMtproto)
    note ends = handle_handshake_ends [OF assms len, where client = client and s = s
        and lc = lc and ip = ip and port = port and ks = ks and c = c and w = w and bw = bw and clk = clk]
    show ?thesis
    proof (cases "handle_handshake ks lc c w bw clk draws info client ip port s")
      case None
      then have "parsers_panic lc ip port (hi_handshake info @ snd (into_parts client))"
        using ends by simp
      then show ?thesis using str unfolding conn None option.case by blast
    next
      case (Some p)
      then show ?thesis using ends by (simp add: conn)
    qed
  next
    case (InitErr stream' raw e)
    then have "sock_bytes stream = [] @ raw @ sock_bytes stream'"
      using r(2) by (simp add: init_keeps_def)
    then have "parsers_panic lc ip port raw \<Longrightarrow>
        \<exists>junk raw rest. sock_bytes stream = junk @ raw @ rest \<and> parsers_panic lc ip port raw" by blast
    then show ?thesis
      using r(1) False relay_raw_panic [of lc c bw ip port stream' raw s]
      by (simp add: handle_conn_def InitErr relay_raw_def split: option.split)
  qed
qed

definition sample_blind :: blind_net where
  "sample_blind =
     \<lparr>bn_self = Some ([192, 168, 1, 1], 8443), bn_worker = (\<lambda>worker ip port. DialTimeout),
      bn_worker_sent = (\<lambda>worker. False), bn_tunnel = (\<lambda>worker. \<lparr>tu_down_bytes = 0, tu_idle = False\<rparr>),
      bn_connect = (\<lambda>ip port. False), bn_front_sent = False, bn_reply = None, bn_clk = (\<lambda>i. 0),
      bn_warn_at = 0\<rparr>"

theorem connection_ends_witness:
  "case handle_conn (2 ^ 64) (\<lambda>k i n. 0) id sample_cfg sample_world sample_blind (\<lambda>k. 0) (\<lambda>k. 0) (\<lambda>k. 0)
      [sample_draw] (Some (''149.154.167.51'', 443)) [RdBytes [1, 2, 3]] sample_net of
     Some (e, s') \<Rightarrow> e \<noteq> Drawing
   | None \<Rightarrow> \<exists>junk raw rest. sock_bytes [RdBytes [1, 2, 3]] = junk @ raw @ rest
       \<and> parsers_panic id ''149.154.167.51'' 443 raw"
  by (rule connection_ends) (simp_all add: sample_draw_facts)

text \<open>A redirect for every name of a datacenter behind the default front blacklists it.\<close>

lemma sample_skip:
  "should_skip_ws (ns_front sample_net) 0 0 2 False ''149.154.167.51'' (ns_skip sample_net) =
    (False, ns_skip sample_net)"
  by (simp add: sample_net_def init_skip_def should_skip_ws_def ws_blacklisted_def
      should_skip_direct_ws_def ttl_new_def ttl_is_active_def)

lemma sample_target: "ws_target_ip init_front 2 ''149.154.167.51'' = ''149.154.167.220''"
  by (simp add: init_front_def ws_target_ip_def dc_front_ip_def front_applies_to_dc_def fold_dc_def
      DEFAULT_FRONT_DCS_def)

lemma sample_all_blocked:
  "fst (try_ws_bridge sample_cfg sample_world 2 False ''149.154.167.51'' sample_net) = WsFailed True False"
proof -
  have red: "is_ws_redirect_err (http_error 302)" "ie_kind (into_io (http_error 302)) \<noteq> TimedOut"
    by (simp_all add: is_ws_redirect_err_def http_error_def into_io_def)
  have "take_ws_pool sample_cfg sample_world 2 False sample_net = (None, sample_net)"
    by (simp add: take_ws_pool_def sample_net_def sample_world_def sample_cfg_def pool_acquire_def)
  moreover have "try_ws_with_domains (wo_direct sample_world t) (ws_domains 2 False) = Inl (True, False)" for t
    by (simp add: sample_world_def try_ws_with_domains_def ws_domains_def red Let_def)
  moreover have "should_skip_fronting (bc_skip sample_cfg) t ip dc sk = (True, sk)" for t ip dc sk
    by (simp add: should_skip_fronting_def fronting_enabled_def sample_cfg_def default_skip_config_def
        skip_config_of_def fronting_sni_def)
  moreover have "ns_front sample_net = init_front" by (simp add: sample_net_def)
  ultimately show ?thesis
    by (simp add: try_ws_bridge_def sample_target try_direct_def try_dials_def case_prod_unfold ws_down_def
        Let_def)
qed

theorem blacklist_needs_redirects_witness:
  "ttl_active (sk_blacklist (ns_skip (snd (direct_rung sample_cfg sample_world (\<lambda>i. 0) 2 False
      ''149.154.167.51'' sample_net)))) 0 (2, False)
   \<and> all_redirected (wo_direct sample_world 0) 2 False"
proof
  have front: "ns_front sample_net = init_front" by (simp add: sample_net_def)
  have ttl: "0 < sc_blacklist_ttl (bc_skip sample_cfg)" by (simp add: sample_cfg_def NANOS_def)
  have warranted: "ws_redirect_blacklist_warranted init_front 2 ''149.154.167.220''"
    by (simp add: ws_redirect_blacklist_warranted_def init_front_def fold_dc_def Let_def)
  obtain s where s: "try_ws_bridge sample_cfg sample_world 2 False ''149.154.167.51'' sample_net =
      (WsFailed True False, s)"
    using sample_all_blocked by (metis prod.collapse)
  have frame: "sk_blacklist (ns_skip s) = ttl_new" "ns_front s = init_front"
    using try_ws_bridge_frame [of sample_cfg sample_world 2 False "''149.154.167.51''" sample_net] s front
    by (simp_all add: sample_net_def init_skip_def)
  show act: "ttl_active (sk_blacklist (ns_skip (snd (direct_rung sample_cfg sample_world (\<lambda>i. 0) 2 False
      ''149.154.167.51'' sample_net)))) 0 (2, False)"
    by (simp add: direct_rung_def sample_skip [unfolded front] s frame front sample_target warranted
        mark_ws_blacklisted_def ttl_active_iff ttl_mark_if_absent_def ttl_new_def ttl)
  show "all_redirected (wo_direct sample_world 0) 2 False"
    using blacklist_needs_redirects [OF act]
    by (simp add: sample_net_def init_skip_def ttl_new_def ttl_is_active_def sample_world_def)
qed

end
