(* ===== verification/Relay.thy ===== *)
theory Relay
  imports Splitter Ws_Frame Stats Cooldown
begin

text \<open>
  \<open>bridge.rs\<close>, the relays: the tasks that carry a connected session between the client and the
  WebSocket (\<open>bridge_ws\<close>), a TCP connection (\<open>bridge_tcp\<close>) or a Worker tunnel
  (\<open>relay_via_worker\<close>), the guard that reaps idle sessions, and the teardown. A task is a function
  from the results of its reads to what it writes; \<open>ok n\<close> says whether its \<open>n\<close>-th write or channel
  send is accepted. A read is \<open>Some bytes\<close> (empty at the end of the stream) or an error, \<open>None\<close>.
  Instants are milliseconds since the start of the session.
\<close>

section \<open>Tasks\<close>

definition WS_SEND_BATCH_MAX :: nat where "WS_SEND_BATCH_MAX = 32"

text \<open>\<open>MsgSplitter::new(relay_init, proto).ok()\<close>\<close>

definition session_splitter :: "keystream \<Rightarrow> bytes \<Rightarrow> 32 word \<Rightarrow> msg_splitter option" where
  "session_splitter ks relay_init proto =
     (case splitter_new ks relay_init proto of Some (Inr sp) \<Rightarrow> Some sp | _ \<Rightarrow> None)"

text \<open>Sending parts until one is refused: the parts accepted, the next index, all accepted.\<close>

fun send_all :: "(nat \<Rightarrow> bool) \<Rightarrow> nat \<Rightarrow> bytes list \<Rightarrow> bytes list \<times> nat \<times> bool" where
  "send_all ok n [] = ([], n, True)"
| "send_all ok n (p # ps) =
     (if ok n then (case send_all ok (n + 1) ps of (out, n', b) \<Rightarrow> (p # out, n', b)) else ([], n, False))"

text \<open>The tail of the splitter: each part is offered, whether or not an earlier one was refused.\<close>

fun offer_all :: "(nat \<Rightarrow> bool) \<Rightarrow> nat \<Rightarrow> bytes list \<Rightarrow> bytes list" where
  "offer_all ok n [] = []"
| "offer_all ok n (p # ps) = (if ok n then [p] else []) @ offer_all ok (n + 1) ps"

definition up_finish :: "(nat \<Rightarrow> bool) \<Rightarrow> nat \<Rightarrow> msg_splitter option \<Rightarrow> bytes list" where
  "up_finish ok n sp =
     (case sp of Some s \<Rightarrow> offer_all ok n (fst (splitter_flush s)) | None \<Rightarrow> [])"

text \<open>The upload task of \<open>bridge_ws\<close>: the messages put into the channel of the sender.\<close>

fun ws_up_task ::
  "keystream \<Rightarrow> (nat \<Rightarrow> bool) \<Rightarrow> nat \<Rightarrow> crypto_up \<Rightarrow> msg_splitter option \<Rightarrow> bytes option list \<Rightarrow> bytes list"
  where
  "ws_up_task ks ok n u sp [] = []"
| "ws_up_task ks ok n u sp (None # evs) = up_finish ok n sp"
| "ws_up_task ks ok n u sp (Some bs # evs) =
     (if bs = [] then up_finish ok n sp
      else case client_to_telegram ks u bs of
        (chunk, u') \<Rightarrow>
          (case sp of
             Some s \<Rightarrow>
               (case splitter_split ks s chunk of
                  (parts, s') \<Rightarrow>
                    (case send_all ok n parts of
                       (out, n', True) \<Rightarrow> out @ ws_up_task ks ok n' u' (Some s') evs
                     | (out, n', False) \<Rightarrow> out))
           | None \<Rightarrow>
               if ok n then chunk # ws_up_task ks ok (n + 1) u' None evs
               else up_finish ok n None))"

text \<open>The download task of \<open>bridge_ws\<close>: what is written to the client.\<close>

fun ws_down_task :: "keystream \<Rightarrow> (nat \<Rightarrow> bool) \<Rightarrow> nat \<Rightarrow> crypto_down \<Rightarrow> bytes list \<Rightarrow> bytes list" where
  "ws_down_task ks ok n d [] = []"
| "ws_down_task ks ok n d (payload # ps) =
     (case telegram_to_client ks d payload of
        (out, d') \<Rightarrow> if ok n then out # ws_down_task ks ok (n + 1) d' ps else [])"

text \<open>Both tasks of \<open>bridge_tcp\<close>, and those of the tunnel, where \<open>f\<close> copies.\<close>

fun pump :: "('s \<Rightarrow> bytes \<Rightarrow> bytes \<times> 's) \<Rightarrow> (nat \<Rightarrow> bool) \<Rightarrow> nat \<Rightarrow> 's \<Rightarrow> bytes option list \<Rightarrow> bytes list" where
  "pump f ok n st [] = []"
| "pump f ok n st (None # evs) = []"
| "pump f ok n st (Some bs # evs) =
     (if bs = [] then []
      else case f st bs of (out, st') \<Rightarrow> if ok n then out # pump f ok (n + 1) st' evs else [])"

definition tcp_up_task :: "keystream \<Rightarrow> (nat \<Rightarrow> bool) \<Rightarrow> crypto_up \<Rightarrow> bytes option list \<Rightarrow> bytes list" where
  "tcp_up_task ks ok u evs = pump (client_to_telegram ks) ok 0 u evs"

definition tcp_down_task :: "keystream \<Rightarrow> (nat \<Rightarrow> bool) \<Rightarrow> crypto_down \<Rightarrow> bytes option list \<Rightarrow> bytes list" where
  "tcp_down_task ks ok d evs = pump (telegram_to_client ks) ok 0 d evs"

definition tunnel_up_task :: "(nat \<Rightarrow> bool) \<Rightarrow> bytes option list \<Rightarrow> bytes list" where
  "tunnel_up_task ok evs = pump (\<lambda>st bs. (bs, st)) ok 0 () evs"

text \<open>The download task of the tunnel, and the bytes it counts.\<close>

fun tunnel_down_task :: "(nat \<Rightarrow> bool) \<Rightarrow> nat \<Rightarrow> bytes list \<Rightarrow> bytes list \<times> nat" where
  "tunnel_down_task ok n [] = ([], 0)"
| "tunnel_down_task ok n (payload # ps) =
     (if ok n then (case tunnel_down_task ok (n + 1) ps of (out, c) \<Rightarrow> (payload # out, length payload + c))
      else ([], length payload))"

section \<open>The sender\<close>

text \<open>
  The driver that owns the write half: at each turn it takes a message and up to 31 more that are
  waiting (\<open>waiting\<close> of them), or one control frame. \<open>wr\<close> is the error of a write, \<open>keys\<close> the masks.
  The frames written, and the messages left.
\<close>

datatype turn = TurnData nat | TurnControl bytes

fun send_driver ::
  "(nat \<Rightarrow> io_error option) \<Rightarrow> (nat \<Rightarrow> bytes) \<Rightarrow> nat \<Rightarrow> bytes list \<Rightarrow> turn list \<Rightarrow> bytes list \<times> bytes list" where
  "send_driver wr keys n queue [] = ([], queue)"
| "send_driver wr keys n queue (TurnControl frame # ts) =
     (case wr n of
        Some e \<Rightarrow> ([], queue)
      | None \<Rightarrow> (case send_driver wr keys (n + 1) queue ts of (fs, q) \<Rightarrow> (frame # fs, q)))"
| "send_driver wr keys n queue (TurnData waiting # ts) =
     (if queue = [] then send_driver wr keys n queue ts
      else
        let batch = take (min (waiting + 1) WS_SEND_BATCH_MAX) queue;
            rest = drop (min (waiting + 1) WS_SEND_BATCH_MAX) queue
        in case send_parts wr keys n batch of
             (fs, Some e) \<Rightarrow> (fs, rest)
           | (fs, None) \<Rightarrow>
               (case send_driver wr keys (n + length batch) rest ts of (fs', q) \<Rightarrow> (fs @ fs', q)))"

section \<open>The receiver\<close>

text \<open>
  The driver that owns the read half puts each message into the channel of the download task until
  the WebSocket ends or the channel has no reader; \<open>ok k\<close> says whether the \<open>k\<close>-th message is taken,
  \<open>chan_open\<close> and \<open>keys\<close> belong to the pongs, of which \<open>n\<close> were sent before. The messages, the pongs.
\<close>

function ws_recv_driver ::
  "io_error \<Rightarrow> (nat \<Rightarrow> bytes) \<Rightarrow> (nat \<Rightarrow> bool) \<Rightarrow> (nat \<Rightarrow> bool) \<Rightarrow> nat \<Rightarrow> nat \<Rightarrow> bytes \<Rightarrow> bytes list \<times> bytes list" where
  "ws_recv_driver e keys chan_open ok n k bs =
     (case recv_binary e (\<lambda>i. keys (n + i)) (\<lambda>i. chan_open (n + i)) bs of
        (Inr (Some p), pongs, rest) \<Rightarrow>
          if ok k
          then (case ws_recv_driver e keys chan_open ok (n + length pongs) (k + 1) rest of
                  (ps, pongs') \<Rightarrow> (p # ps, pongs @ pongs'))
          else ([], pongs)
      | (_, pongs, _) \<Rightarrow> ([], pongs))"
  by pat_completeness auto
termination
  by (relation "measure (\<lambda>(e, keys, c, ok, n, k, bs). length bs)") (auto dest: recv_binary_shorter [OF sym])

declare ws_recv_driver.simps [simp del]

section \<open>The idle guard\<close>

text \<open>\<open>u64\<close> of a variable, or the default; 0 switches the guard off.\<close>

definition session_idle_timeout :: "(string \<Rightarrow> string option) \<Rightarrow> nat option" where
  "session_idle_timeout env =
     (let secs = (case env ''WRTG_SESSION_IDLE_SEC'' of
                    Some v \<Rightarrow> (case parse_u64 (trim v) of Some n \<Rightarrow> n | None \<Rightarrow> 600)
                  | None \<Rightarrow> 600)
      in if secs > 0 then Some (secs * NANOS) else None)"

definition ws_ping_interval :: "(string \<Rightarrow> string option) \<Rightarrow> nat" where
  "ws_ping_interval env = env_secs_pos (env ''WRTG_WS_PING_SEC'') 30"

text \<open>
  \<open>touched t\<close> is the time of the last touch up to \<open>t\<close>. It is stored in a \<open>usize\<close>, of \<open>us\<close> values.
  The guard sleeps for what is left of the idle time, at least 50 ms, and \<open>late k\<close> longer.
\<close>

definition idle_millis :: "nat \<Rightarrow> nat" where
  "idle_millis idle = max (idle div 1000000) 1"

fun idle_reached :: "nat \<Rightarrow> nat \<Rightarrow> nat \<Rightarrow> (nat \<Rightarrow> nat) \<Rightarrow> (nat \<Rightarrow> nat) \<Rightarrow> nat \<Rightarrow> nat option" where
  "idle_reached 0 us idle_ms touched late t = None"
| "idle_reached (Suc k) us idle_ms touched late t =
     (let since = t - touched t mod us
      in if since \<ge> idle_ms then Some t
         else idle_reached k us idle_ms touched late (t + max (idle_ms - since) 50 + late k))"

section \<open>Teardown\<close>

definition DRAIN_ON_CLOSE :: nat where "DRAIN_ON_CLOSE = 2000"

datatype branch = UpDone | DownDone | IdleFired

text \<open>\<open>select!\<close>: the branch that completes first; those that complete together in polling order.\<close>

fun select_first :: "(branch \<Rightarrow> nat option) \<Rightarrow> branch list \<Rightarrow> (branch \<times> nat) option" where
  "select_first at [] = None"
| "select_first at (b # bs) =
     (case at b of
        None \<Rightarrow> select_first at bs
      | Some t \<Rightarrow>
          (case select_first at bs of
             Some (b', t') \<Rightarrow> if t' < t then Some (b', t') else Some (b, t)
           | None \<Rightarrow> Some (b, t)))"

text \<open>When the session is over, and whether it was reaped.\<close>

definition bridge_over :: "(branch \<Rightarrow> nat option) \<Rightarrow> branch list \<Rightarrow> (nat \<times> bool) option" where
  "bridge_over at order =
     (case select_first at order of
        None \<Rightarrow> None
      | Some (b, t) \<Rightarrow>
          if b = IdleFired then Some (t, True)
          else (case at (if b = UpDone then DownDone else UpDone) of
                  Some t' \<Rightarrow> Some (if t' \<le> t + DRAIN_ON_CLOSE then max t t' else t + DRAIN_ON_CLOSE, False)
                | None \<Rightarrow> Some (t + DRAIN_ON_CLOSE, False)))"

definition note_reaped :: "(nat \<times> bool) option \<Rightarrow> stats \<Rightarrow> stats" where
  "note_reaped r s = (case r of Some (t, True) \<Rightarrow> inc IdleReaped s | _ \<Rightarrow> s)"

section \<open>Uploads arrive whole\<close>

lemma send_all_ok [simp]: "send_all (\<lambda>_. True) n ps = (ps, n + length ps, True)"
  by (induction ps arbitrary: n) simp_all

lemma offer_all_ok [simp]: "offer_all (\<lambda>_. True) n ps = ps"
  by (induction ps arbitrary: n) simp_all

lemma splitter_flush_bytes: "concat (fst (splitter_flush s)) = sp_cipher_buf s"
  by (simp add: splitter_flush_def)

lemma ws_up_split:
  assumes "[] \<notin> set chunks"
  shows "ws_up_task ks (\<lambda>_. True) n u (Some s) (map Some chunks @ [Some []]) =
    concat (fst (run_all (splitter_split ks) s (fst (run_all (client_to_telegram ks) u chunks))))
      @ fst (splitter_flush (snd (run_all (splitter_split ks) s (fst (run_all (client_to_telegram ks) u chunks)))))"
  using assms
proof (induction chunks arbitrary: n u s)
  case (Cons c cs)
  obtain out u' where c: "client_to_telegram ks u c = (out, u')" by fastforce
  obtain parts s' where s: "splitter_split ks s out = (parts, s')" by fastforce
  have "c \<noteq> []" using Cons.prems by auto
  with Cons show ?case by (simp add: c s)
qed (simp add: up_finish_def)

lemma ws_up_plain:
  assumes "[] \<notin> set chunks"
  shows "ws_up_task ks (\<lambda>_. True) n u None (map Some chunks @ [Some []]) =
    fst (run_all (client_to_telegram ks) u chunks)"
  using assms
proof (induction chunks arbitrary: n u)
  case (Cons c cs)
  obtain out u' where c: "client_to_telegram ks u c = (out, u')" by fastforce
  have "c \<noteq> []" using Cons.prems by auto
  with Cons show ?case by (simp add: c)
qed (simp add: up_finish_def)

lemma ws_up_concat:
  assumes "[] \<notin> set chunks"
  shows "concat (ws_up_task ks (\<lambda>_. True) n u (session_splitter ks r proto) (map Some chunks @ [Some []])) =
    concat (fst (run_all (client_to_telegram ks) u chunks))"
proof (cases "session_splitter ks r proto")
  case None
  then show ?thesis using assms by (simp add: ws_up_plain)
next
  case (Some s)
  then have new: "splitter_new ks r proto = Some (Inr s)"
    by (auto simp: session_splitter_def split: option.splits sum.splits)
  have "sp_cipher_buf s = []" using splitter_new_fresh [OF new] by auto
  then show ?thesis
    using splitter_run_step [OF splitter_new_ok [OF new], of ks "fst (run_all (client_to_telegram ks) u chunks)"]
    by (simp add: Some ws_up_split [OF assms] splitter_flush_bytes)
qed

text \<open>The peer at the other end of the WebSocket: the opcodes and payloads of \<open>n\<close> frames.\<close>

fun peer_read :: "nat \<Rightarrow> bytes \<Rightarrow> (byte \<times> bytes) list option" where
  "peer_read 0 bs = (if bs = [] then Some [] else None)"
| "peer_read (Suc n) bs =
     (case peer_decode bs of
        None \<Rightarrow> None
      | Some ((fin, rsv, opcode, key, payload), rest) \<Rightarrow>
          map_option (\<lambda>xs. (opcode, payload) # xs) (peer_read n rest))"

definition peer_data :: "(byte \<times> bytes) list \<Rightarrow> bytes" where
  "peer_data xs = concat (map snd (filter (\<lambda>x. fst x = 2) xs))"

definition control_frame :: "bytes \<Rightarrow> bool" where
  "control_frame f \<longleftrightarrow>
     (\<exists>key opcode payload. f = build_ws_frame key opcode payload True \<and> length key = 4
        \<and> (opcode = 0x9 \<or> opcode = 0xA) \<and> length payload < 2 ^ 64)"

fun control_turn :: "turn \<Rightarrow> bool" where
  "control_turn (TurnControl f) = control_frame f"
| "control_turn (TurnData k) = True"

lemma peer_read_step:
  assumes "length key = 4" and "opcode < 16" and "length data < 2 ^ 64"
  shows "peer_read (Suc n) (build_ws_frame key opcode data True @ rest) =
    map_option (\<lambda>xs. (opcode, data) # xs) (peer_read n rest)"
  using peer_reads_frame [OF assms] by simp

lemma peer_read_parts:
  assumes "\<forall>i. length (keys i) = 4" and "\<forall>p \<in> set ps. length p < 2 ^ 64"
    and "peer_read n rest = Some xs"
  shows "peer_read (length ps + n) (concat (fst (send_parts (\<lambda>_. None) keys i ps)) @ rest) =
    Some (map (\<lambda>p. (2, p)) ps @ xs)"
  using assms(2)
proof (induction ps arbitrary: i)
  case (Cons p ps)
  obtain fs r where fs: "send_parts (\<lambda>_. None) keys (Suc i) ps = (fs, r)" by fastforce
  have "peer_read (Suc (length ps + n)) (build_ws_frame (keys i) 2 p True @ concat fs @ rest) =
      map_option (\<lambda>xs. (2, p) # xs) (peer_read (length ps + n) (concat fs @ rest))"
    using Cons.prems assms(1) by (intro peer_read_step) simp_all
  with Cons.IH [of "Suc i"] Cons.prems fs show ?case by simp
qed (simp add: assms(3))

lemma send_parts_all: "send_parts (\<lambda>_. None) keys n ps = (fs, r) \<Longrightarrow> r = None \<and> length fs = length ps"
  by (induction ps arbitrary: n fs) (auto split: prod.splits)

lemma peer_data_batch: "peer_data (map (\<lambda>p. (2, p)) ps @ xs) = concat ps @ peer_data xs"
  by (simp add: peer_data_def filter_map comp_def)

lemma send_driver_read:
  assumes "\<forall>i. length (keys i) = 4" and "\<forall>p \<in> set queue. length p < 2 ^ 64"
    and "list_all control_turn ts"
  shows "\<exists>xs. peer_read (length (fst (send_driver (\<lambda>_. None) keys n queue ts)))
      (concat (fst (send_driver (\<lambda>_. None) keys n queue ts))) = Some xs \<and>
    peer_data xs @ concat (snd (send_driver (\<lambda>_. None) keys n queue ts)) = concat queue"
  using assms
proof (induction "\<lambda>_ :: nat. None :: io_error option" keys n queue ts rule: send_driver.induct)
  case (1 keys n queue)
  then show ?case by (simp add: peer_data_def)
next
  case (2 keys n queue frame ts)
  obtain fs q where d: "send_driver (\<lambda>_. None) keys (n + 1) queue ts = (fs, q)" by fastforce
  obtain key opcode payload where f: "frame = build_ws_frame key opcode payload True" "length key = 4"
      "opcode = 0x9 \<or> opcode = 0xA" "length payload < 2 ^ 64"
    using "2.prems"(3) by (auto simp: control_frame_def)
  obtain xs where "peer_read (length fs) (concat fs) = Some xs" "peer_data xs @ concat q = concat queue"
    using "2.hyps" "2.prems" d by auto
  then have "peer_read (Suc (length fs)) (concat (frame # fs)) = Some ((opcode, payload) # xs)"
    using peer_read_step [OF f(2), of opcode payload "length fs" "concat fs"] f by auto
  moreover have "peer_data ((opcode, payload) # xs) = peer_data xs" using f(3) by (auto simp: peer_data_def)
  ultimately show ?case using d \<open>peer_data xs @ concat q = concat queue\<close> by auto
next
  case (3 keys n queue k ts)
  show ?case
  proof (cases "queue = []")
    case True
    then show ?thesis using 3 by simp
  next
    case False
    define m where "m = min (k + 1) WS_SEND_BATCH_MAX"
    obtain fs r where p: "send_parts (\<lambda>_. None) keys n (take m queue) = (fs, r)" by fastforce
    have r: "r = None" "length fs = length (take m queue)" using send_parts_all [OF p] by auto
    obtain fs' q where d: "send_driver (\<lambda>_. None) keys (n + length (take m queue)) (drop m queue) ts = (fs', q)"
      by fastforce
    have short: "\<forall>p \<in> set (drop m queue). length p < 2 ^ 64" "\<forall>p \<in> set (take m queue). length p < 2 ^ 64"
      using "3.prems"(2) in_set_dropD in_set_takeD by fast+
    obtain xs where xs: "peer_read (length fs') (concat fs') = Some xs"
        "peer_data xs @ concat q = concat (drop m queue)"
      using "3.hyps"(2) [OF False refl refl p [symmetric, unfolded m_def] r(1)] "3.prems"(1,3) short d
      by (auto simp: m_def)
    have "peer_read (length fs + length fs') (concat fs @ concat fs') = Some (map (\<lambda>p. (2, p)) (take m queue) @ xs)"
      using peer_read_parts [OF "3.prems"(1) short(2) xs(1), where i = n]
      by (simp only: p fst_conv r(2))
    moreover have "peer_data (map (\<lambda>p. (2, p)) (take m queue) @ xs) @ concat q = concat queue"
      using xs(2) by (simp add: peer_data_batch flip: concat_append)
    moreover have "send_driver (\<lambda>_. None) keys n queue (TurnData k # ts) = (fs @ fs', q)"
      using False p r d by (simp add: m_def Let_def)
    ultimately show ?thesis by simp
  qed
qed

text \<open>
  C4: An uploaded stream reaches Telegram whole: re-encrypted in whatever pieces it was read, cut
  into messages or not, sent in whatever batches and with control frames in between, the frames on
  the wire decode to data that Telegram, with the keys of the relay-init packet, decrypts to what
  the client encrypted, as far as the sender has got; all of it once the queue is empty.
\<close>

theorem upload_arrives_whole:
  assumes "length h = 64" and "length r = 64" and "build_direct ks h r = Some (Inr ctx)"
    and "concat chunks = fst (apply_keystream ks (obf_forward h) p)" and "[] \<notin> set chunks"
    and "length p < 2 ^ 64"
    and "msgs = ws_up_task ks (\<lambda>_. True) 0 (fst (split_ctx ctx)) (session_splitter ks r proto)
           (map Some chunks @ [Some []])"
    and "send_driver (\<lambda>_. None) keys 0 msgs turns = (frames, queue)"
    and "\<forall>i. length (keys i) = 4" and "list_all control_turn turns"
  shows "\<exists>xs. peer_read (length frames) (concat frames) = Some xs \<and>
    fst (apply_keystream ks (obf_forward r) (peer_data xs @ concat queue)) = p"
proof -
  let ?up = "concat (fst (run_all (client_to_telegram ks) (fst (split_ctx ctx)) chunks))"
  have up: "?up = fst (recrypt ks (obf_forward h, obf_forward r) (concat chunks))"
    using assms(1-3) by (auto simp: build_direct_64 up.run_all_concat split_ctx_def client_to_telegram_recrypt)
  have msgs: "concat msgs = ?up" using ws_up_concat [OF assms(5)] assms(7) by simp
  have "length ?up = length p" unfolding up recrypt_fst using assms(4) by simp
  then have total: "sum_list (map length msgs) < 2 ^ 64" using assms(6) msgs by (simp flip: length_concat)
  have "\<forall>x \<in> set msgs. length x < 2 ^ 64"
  proof
    fix x assume "x \<in> set msgs"
    then have "length x \<le> sum_list (map length msgs)" by (intro member_le_sum_list) auto
    with total show "length x < 2 ^ 64" by linarith
  qed
  from send_driver_read [where n = 0, OF assms(9) this assms(10)]
  obtain xs where "peer_read (length frames) (concat frames) = Some xs" "peer_data xs @ concat queue = ?up"
    using assms(8) msgs by auto
  moreover have "fst (apply_keystream ks (obf_forward r) ?up) = p"
    unfolding up recrypt_fst assms(4) by (simp add: ctr.push_involution)
  ultimately show ?thesis by auto
qed

section \<open>Downloads arrive whole\<close>

lemma ws_down_all [simp]: "ws_down_task ks (\<lambda>_. True) n d ps = fst (run_all (telegram_to_client ks) d ps)"
  by (induction ps arbitrary: n d) (simp_all split: prod.split)

lemma pump_all:
  assumes "[] \<notin> set chunks"
  shows "pump f (\<lambda>_. True) n st (map Some chunks @ [Some []]) = fst (run_all f st chunks)"
  using assms by (induction chunks arbitrary: n st) (auto split: prod.split)

lemma pongs_from_append: "pongs_from keys n (ps @ qs) = pongs_from keys n ps @ pongs_from keys (n + length ps) qs"
  by (simp add: pongs_from_def enumerate_append_eq)

lemma pongs_from_shift: "pongs_from (\<lambda>i. keys (n + i)) m ps = pongs_from keys (n + m) ps"
  by (induction ps arbitrary: m) (simp_all add: pongs_from_def)

lemma length_pongs_from [simp]: "length (pongs_from keys n ps) = length ps"
  by (simp add: pongs_from_def)

lemma pings_append: "pings (fs @ gs) = pings fs @ pings gs"
  by (simp add: pings_def)

lemma recv_driver_all:
  assumes "list_all2 (carries None) fss ms" and "length reason \<le> 125"
  shows "ws_recv_driver e keys (\<lambda>_. True) (\<lambda>_. True) n k
      (concat (map server_frame (concat fss)) @ server_frame (True, 0x8, reason) @ rest) =
    (ms, pongs_from keys n (pings (concat fss)))"
  using assms(1)
proof (induction arbitrary: n k rule: list_all2_induct)
  case Nil
  have "length reason \<le> MAX_WS_PAYLOAD" using assms(2) by (simp add: MAX_WS_PAYLOAD_def)
  then show ?case
    using recv_loop_frame [of 8 reason True e "\<lambda>i. keys (n + i)" "\<lambda>_. True" 0 None rest] assms(2)
    by (simp add: ws_recv_driver.simps [of _ _ _ _ n] recv_binary_def pings_def pongs_from_def)
next
  case (Cons fs fss m ms)
  then show ?case
    by (simp add: ws_recv_driver.simps [of _ _ _ _ n] recv_binary_def recv_loop_carries pings_append
        pongs_from_append pongs_from_shift)
qed

text \<open>
  C5: What Telegram sends reaches the client whole: however its encrypted stream is cut into
  WebSocket messages and these into frames, with pings and pongs in between, up to the close frame
  the reader passes on exactly the messages and answers exactly the pings, in order, and what the
  download task writes decrypts, with the keys of the client's handshake, to what Telegram sent.
\<close>

theorem download_arrives_whole:
  assumes "length h = 64" and "length r = 64" and "build_direct ks h r = Some (Inr ctx)"
    and "concat msgs = fst (apply_keystream ks (obf_backward r) q)"
    and "list_all2 (carries None) fss msgs" and "length reason \<le> 125"
    and "wire = concat (map server_frame (concat fss)) @ server_frame (True, 0x8, reason) @ rest"
  shows "ws_recv_driver e keys (\<lambda>_. True) (\<lambda>_. True) 0 0 wire = (msgs, pongs_from keys 0 (pings (concat fss)))
    \<and> fst (apply_keystream ks (obf_backward h)
      (concat (ws_down_task ks (\<lambda>_. True) 0 (snd (split_ctx ctx)) msgs))) = q"
  using assms(1-4) recv_driver_all [OF assms(5,6)] assms(7)
  by (auto simp: build_direct_64 down.run_all_concat split_ctx_def telegram_to_client_recrypt recrypt_fst
      ctr.push_involution)

text \<open>The same for the two tasks of a TCP fallback.\<close>

lemma tcp_bridge_transparent:
  assumes "length h = 64" and "length r = 64" and "build_direct ks h r = Some (Inr ctx)"
    and "concat ups = fst (apply_keystream ks (obf_forward h) p)" and "[] \<notin> set ups"
    and "concat downs = fst (apply_keystream ks (obf_backward r) q)" and "[] \<notin> set downs"
  shows "fst (apply_keystream ks (obf_forward r)
      (concat (tcp_up_task ks (\<lambda>_. True) (fst (split_ctx ctx)) (map Some ups @ [Some []])))) = p"
    and "fst (apply_keystream ks (obf_backward h)
      (concat (tcp_down_task ks (\<lambda>_. True) (snd (split_ctx ctx)) (map Some downs @ [Some []])))) = q"
  using assms
  by (auto simp: tcp_up_task_def tcp_down_task_def pump_all build_direct_64 up.run_all_concat
      down.run_all_concat split_ctx_def client_to_telegram_recrypt telegram_to_client_recrypt recrypt_fst
      ctr.push_involution)

section \<open>Idle sessions end, active ones do not\<close>

lemma idle_reached_Some:
  "idle_reached k us idle_ms touched late t = Some u \<Longrightarrow> t \<le> u \<and> idle_ms \<le> u - touched u mod us"
  by (induction k us idle_ms touched late t rule: idle_reached.induct)
    (auto simp: Let_def split: if_splits)

text \<open>One round goes at least 50 ms further, and never past the bound.\<close>

lemma idle_reached_ends:
  assumes touched: "\<forall>t. touched t \<le> t \<and> touched t \<le> T" and "T < us" and "\<forall>k. late k \<le> D"
    and "t \<le> T + idle_ms + 50 + D" and "T + idle_ms < t + 50 * k"
  shows "\<exists>u. idle_reached (Suc k) us idle_ms touched late t = Some u \<and> u \<le> T + idle_ms + 50 + D"
  using assms(4,5)
proof (induction k arbitrary: t)
  case 0
  have "touched t mod us = touched t" "touched t \<le> T"
    using assms(2) touched le_less_trans [of "touched t" T us] by auto
  with 0 show ?case by (simp add: Let_def)
next
  case (Suc k)
  have m: "touched t mod us = touched t" "touched t \<le> T" "touched t \<le> t"
    using assms(2) touched le_less_trans [of "touched t" T us] by auto
  define t' where "t' = t + max (idle_ms - (t - touched t)) 50 + late (Suc k)"
  show ?case
  proof (cases "idle_ms \<le> t - touched t")
    case True
    then show ?thesis using Suc.prems(1) m by simp
  next
    case False
    have "late (Suc k) \<le> D" using assms(3) by blast
    then have "t' \<le> T + idle_ms + 50 + D" "T + idle_ms < t' + 50 * k"
      using False m Suc.prems(2) by (auto simp: t'_def max_def)
    then have "\<exists>u. idle_reached (Suc k) us idle_ms touched late t' = Some u \<and> u \<le> T + idle_ms + 50 + D"
      by (rule Suc.IH)
    moreover have "idle_reached (Suc (Suc k)) us idle_ms touched late t =
        idle_reached (Suc k) us idle_ms touched late t'"
      using False m by (subst idle_reached.simps(2)) (simp add: Let_def t'_def)
    ultimately show ?thesis by simp
  qed
qed



text \<open>Past the range of the word the guard reaps a session that is moving data at that instant.\<close>

lemma idle_guard_wraps:
  "idle_reached 1 (2 ^ 32) (idle_millis (600 * NANOS)) (\<lambda>t. t) late (2 ^ 32 + 5) = Some (2 ^ 32 + 5)"
  by (simp add: idle_millis_def NANOS_def)

lemma select_first_le:
  "b \<in> set order \<Longrightarrow> at b = Some t \<Longrightarrow> \<exists>b' t'. select_first at order = Some (b', t') \<and> t' \<le> t"
  by (induction order) (fastforce split: option.splits)+

text \<open>A session is over two seconds after its first task, or its idle guard, has ended.\<close>

lemma bridge_over_bounded:
  assumes "b \<in> set order" and "at b = Some t"
  shows "\<exists>t' reaped. bridge_over at order = Some (t', reaped) \<and> t' \<le> t + DRAIN_ON_CLOSE"
proof -
  obtain b' t' where "select_first at order = Some (b', t')" "t' \<le> t"
    using select_first_le [of b order at t] assms by blast
  then show ?thesis by (auto simp: bridge_over_def split: option.split)
qed

section \<open>A sample upload\<close>

lemma sample_control: "control_frame (ws_ping_frame [1, 2, 3, 4])"
  unfolding control_frame_def ws_ping_frame_def
  by (intro exI [of _ "[1, 2, 3, 4]"] exI [of _ 9] exI [of _ "[]"]) simp

theorem upload_arrives_whole_witness:
  "\<exists>ctx frames queue xs. build_direct (\<lambda>k i n. 0) sample_draw sample_draw = Some (Inr ctx)
    \<and> send_driver (\<lambda>_. None) (\<lambda>i. [1, 2, 3, 4]) 0
        (ws_up_task (\<lambda>k i n. 0) (\<lambda>_. True) 0 (fst (split_ctx ctx))
          (session_splitter (\<lambda>k i n. 0) sample_draw PROTO_ABRIDGED_INT)
          (map Some [[1, 2], [3, 4, 5, 1]] @ [Some []]))
        [TurnControl (ws_ping_frame [1, 2, 3, 4]), TurnData 9] = (frames, queue)
    \<and> peer_read (length frames) (concat frames) = Some xs
    \<and> fst (apply_keystream (\<lambda>k i n. 0) (obf_forward sample_draw) (peer_data xs @ concat queue))
        = [1, 2, 3, 4, 5, 1]"
proof -
  let ?ks = "\<lambda>k i n. 0 :: byte"
  obtain ctx where ctx: "build_direct ?ks sample_draw sample_draw = Some (Inr ctx)"
    using build_direct_64 [of sample_draw sample_draw ?ks] by (simp add: sample_draw_facts(1))
  define msgs where "msgs = ws_up_task ?ks (\<lambda>_. True) 0 (fst (split_ctx ctx))
    (session_splitter ?ks sample_draw PROTO_ABRIDGED_INT) (map Some [[1, 2], [3, 4, 5, 1]] @ [Some []])"
  obtain frames queue where run: "send_driver (\<lambda>_. None) (\<lambda>i. [1, 2, 3, 4]) 0 msgs
      [TurnControl (ws_ping_frame [1, 2, 3, 4]), TurnData 9] = (frames, queue)" by fastforce
  have "\<exists>xs. peer_read (length frames) (concat frames) = Some xs \<and>
      fst (apply_keystream ?ks (obf_forward sample_draw) (peer_data xs @ concat queue)) = [1, 2, 3, 4, 5, 1]"
    by (rule upload_arrives_whole [OF sample_draw_facts(1) sample_draw_facts(1) ctx _ _ _ msgs_def run])
      (simp_all add: sample_control apply_keystream_def upt_rec_numeral)
  with ctx run show ?thesis unfolding msgs_def by blast
qed

text \<open>Two messages, the first in two fragments with a ping in between.\<close>

theorem download_arrives_whole_witness:
  "\<exists>ctx. build_direct (\<lambda>k i n. 0) sample_draw sample_draw = Some (Inr ctx)
    \<and> ws_recv_driver (io_err UnexpectedEof ''early eof'') (\<lambda>i. [1, 2, 3, 4]) (\<lambda>_. True) (\<lambda>_. True) 0 0
        (concat (map server_frame [(False, 2, [1, 2]), (True, 9, [7]), (True, 0, [3]), (True, 2, [4])])
          @ server_frame (True, 8, []) @ []) = ([[1, 2, 3], [4]], [build_ws_frame [1, 2, 3, 4] 0xA [7] True])
    \<and> fst (apply_keystream (\<lambda>k i n. 0) (obf_backward sample_draw)
        (concat (ws_down_task (\<lambda>k i n. 0) (\<lambda>_. True) 0 (snd (split_ctx ctx)) [[1, 2, 3], [4]]))) = [1, 2, 3, 4]"
proof -
  let ?fss = "[[(False, 2, [1, 2]), (True, 9, [7]), (True, 0, [3])], [(True, 2, [4])]]
    :: (bool \<times> byte \<times> bytes) list list"
  let ?ks = "\<lambda>k i n. 0 :: byte"
  obtain ctx where ctx: "build_direct ?ks sample_draw sample_draw = Some (Inr ctx)"
    using build_direct_64 [of sample_draw sample_draw ?ks] by (simp add: sample_draw_facts(1))
  have a: "concat [[1, 2, 3], [4]] = fst (apply_keystream ?ks (obf_backward sample_draw) [1, 2, 3, 4])"
    by (simp add: apply_keystream_def upt_rec_numeral)
  have b: "list_all2 (carries None) ?fss [[1, 2, 3], [4]]" by (simp add: MAX_WS_PAYLOAD_def)
  have c: "length ([] :: bytes) \<le> 125" by simp
  note all = download_arrives_whole [OF sample_draw_facts(1) sample_draw_facts(1) ctx a b c refl,
      where rest = "[]" and e = "io_err UnexpectedEof ''early eof''" and keys = "\<lambda>i. [1, 2, 3, 4]"]
  show ?thesis
    by (intro exI conjI, rule ctx) (use all in \<open>simp_all add: pings_def pongs_from_def\<close>)
qed

end
