(* ===== verification/Domains.thy ===== *)
theory Domains
  imports Balancer Cooldown
begin

text \<open>
  \<open>cf_proxy_domains.rs\<close>: the shared pool of Cloudflare proxy domains, its decoding, the check of
  what may enter the pool, and its refresh. A string is the list of its UTF-8 bytes. The bytes of
  the fetched list are the argument of the refresh, \<open>None\<close> when the fetch failed.
\<close>

section \<open>Settings\<close>

definition MIN_REFRESH_INTERVAL :: nat where "MIN_REFRESH_INTERVAL = 300 * NANOS"
definition DEFAULT_REFRESH_INTERVAL :: nat where "DEFAULT_REFRESH_INTERVAL = 3600 * NANOS"
definition MIN_VALID_DOMAINS :: nat where "MIN_VALID_DOMAINS = 3"

definition parse_refresh_interval :: "string option \<Rightarrow> nat" where
  "parse_refresh_interval raw =
     (case raw of
        Some v \<Rightarrow> (case parse_u64 (trim v) of
                     Some n \<Rightarrow> max (n * NANOS) MIN_REFRESH_INTERVAL
                   | None \<Rightarrow> DEFAULT_REFRESH_INTERVAL)
      | None \<Rightarrow> DEFAULT_REFRESH_INTERVAL)"

definition CFPROXY_DOMAINS_URL :: string where
  "CFPROXY_DOMAINS_URL =
     ''https://raw.githubusercontent.com/Flowseal/tg-ws-proxy/main/.github/cfproxy-domains.txt''"

definition parse_domains_url :: "string option \<Rightarrow> string" where
  "parse_domains_url raw =
     (case raw of
        Some v \<Rightarrow> if trim v = '''' then CFPROXY_DOMAINS_URL else trim v
      | None \<Rightarrow> CFPROXY_DOMAINS_URL)"

definition default_host_path :: "string \<times> string" where
  "default_host_path =
     (''raw.githubusercontent.com'', ''/Flowseal/tg-ws-proxy/main/.github/cfproxy-domains.txt'')"

definition split_https_url :: "string \<Rightarrow> string \<times> string" where
  "split_https_url url =
     (case strip_prefix ''https://'' url of
        None \<Rightarrow> default_host_path
      | Some rest \<Rightarrow>
          (case split_once ''/'' rest of
             Some (host, path) \<Rightarrow>
               if host \<noteq> '''' \<and> path \<noteq> '''' then (host, ''/'' @ path) else default_host_path
           | None \<Rightarrow> default_host_path))"

section \<open>Decoding\<close>

definition DEFAULT_ENCODED :: "string list" where
  "DEFAULT_ENCODED =
     [''virkgj.com'', ''vmmzovy.com'', ''mkuosckvso.com'', ''zaewayzmplad.com'', ''twdmbzcm.com'',
      ''awzwsldi.com'', ''clngqrflngqin.com'', ''tjacxbqtj.com'', ''bxaxtxmrw.com'',
      ''dmohrsgmohcrwb.com'', ''vwbmtmoi.com'', ''khgrre.com'', ''ulihssf.com'', ''tmhqsdqmfpmk.com'',
      ''xwuwoqbm.com'', ''orgcnunpj.com'', ''zhkuldz.com'', ''zypoljnslxa.com'', ''efabnxaowuzs.com'',
      ''zaftuzsftqdq.com'']"

text \<open>One letter back by \<open>shift\<close> in its alphabet, which starts at \<open>base\<close>.\<close>

definition unshift :: "nat \<Rightarrow> nat \<Rightarrow> char \<Rightarrow> char" where
  "unshift base shift c = char_of (base + nat ((int (of_char c) - int base - int shift) mod 26))"

definition decode_char :: "nat \<Rightarrow> char \<Rightarrow> char" where
  "decode_char shift c =
     (if is_ascii_lowercase c then unshift 97 shift c
      else if is_ascii_uppercase c then unshift 65 shift c
      else c)"

definition decode_cfproxy_domain :: "string \<Rightarrow> string" where
  "decode_cfproxy_domain s =
     (if \<not> ends_with ''.com'' s then s
      else
        let prefix = take (length s - 4) s;
            shift = length (filter is_ascii_alphabetic prefix)
        in map (decode_char shift) prefix @ ''.co.uk'')"

definition default_cfproxy_domains :: "string list" where
  "default_cfproxy_domains = map decode_cfproxy_domain DEFAULT_ENCODED"

section \<open>Whether the shared pool is used\<close>

definition proxy_env_set :: "string option \<Rightarrow> bool" where
  "proxy_env_set v \<longleftrightarrow> (case v of Some v \<Rightarrow> trim_matches (CHR 0x22) (trim v) \<noteq> '''' | None \<Rightarrow> False)"

definition user_proxy_domains_configured :: "(string \<Rightarrow> string option) \<Rightarrow> bool" where
  "user_proxy_domains_configured env \<longleftrightarrow>
     proxy_env_set (env ''CF_PROXY_DOMAIN'') \<or> proxy_env_set (env ''WRTG_CF_PROXY_DOMAINS'')"

definition cfproxy_auto_decision :: "string option \<Rightarrow> bool" where
  "cfproxy_auto_decision setting \<longleftrightarrow>
     (case setting of
        Some v \<Rightarrow> (let v = trim v in v = ''1'' \<or> eq_ignore_ascii_case v ''true'')
      | None \<Rightarrow> True)"

definition cfproxy_auto_enabled :: "(string \<Rightarrow> string option) \<Rightarrow> bool" where
  "cfproxy_auto_enabled env \<longleftrightarrow>
     (if cf_fallback_disabled env then False
      else if user_proxy_domains_configured env then False
      else cfproxy_auto_decision (env ''WRTG_CFPROXY_AUTO''))"

section \<open>What may enter the pool\<close>

definition valid_label :: "string \<Rightarrow> bool" where
  "valid_label l \<longleftrightarrow>
     l \<noteq> '''' \<and> length l \<le> 63 \<and> \<not> starts_with ''-'' l \<and> \<not> ends_with ''-'' l
     \<and> list_all (\<lambda>c. is_ascii_alphanumeric c \<or> c = CHR ''-'') l"

definition is_valid_domain :: "string \<Rightarrow> bool" where
  "is_valid_domain domain \<longleftrightarrow>
     (if domain = '''' \<or> length domain > 253 then False
      else if starts_with ''.'' domain \<or> ends_with ''.'' domain then False
      else
        let labels = split_on (\<lambda>c. c = CHR ''.'') domain
        in if length labels < 2 then False
           else if \<not> list_all valid_label labels then False
           else 2 \<le> length (last labels) \<and> list_ex is_ascii_alphabetic (last labels))"

text \<open>\<open>seen\<close> holds what is in \<open>out\<close> already.\<close>

definition pool_item :: "string \<Rightarrow> string list \<Rightarrow> string list" where
  "pool_item domain out =
     (let item = to_ascii_lowercase (trim domain)
      in if \<not> is_valid_domain item \<or> item \<in> set out then out else out @ [item])"

definition normalize_domain_pool :: "string list \<Rightarrow> string list" where
  "normalize_domain_pool domains = fold pool_item domains []"

section \<open>Refresh\<close>

definition decode_list :: "bytes \<Rightarrow> string list" where
  "decode_list body =
     map decode_cfproxy_domain
       (filter (\<lambda>l. l \<noteq> '''' \<and> \<not> starts_with ''#'' l) (map trim (lines (from_utf8_lossy body))))"

definition fetch_path :: "string \<Rightarrow> string \<Rightarrow> string \<times> string" where
  "fetch_path url cache_bust =
     (case split_https_url url of (host, base_path) \<Rightarrow> (host, base_path @ ''?'' @ cache_bust))"

definition fetch_cfproxy_domains :: "bytes option \<Rightarrow> string list" where
  "fetch_cfproxy_domains body = (case body of Some b \<Rightarrow> decode_list b | None \<Rightarrow> [])"

definition refresh_cfproxy_domains ::
  "(string \<Rightarrow> string option) \<Rightarrow> bytes option \<Rightarrow> balancer \<Rightarrow> balancer" where
  "refresh_cfproxy_domains env body b =
     (if \<not> cfproxy_auto_enabled env then b
      else let pool = normalize_domain_pool (fetch_cfproxy_domains body)
           in if length pool \<ge> MIN_VALID_DOMAINS then set_proxy_domains pool b else b)"

definition seed_default_cfproxy_domains :: "balancer \<Rightarrow> balancer" where
  "seed_default_cfproxy_domains b = set_proxy_domains default_cfproxy_domains b"

text \<open>Fetching over pinned addresses: the targets in order, and the dial loop over them.\<close>

definition GITHUB_PINNED_IPS :: "string list" where
  "GITHUB_PINNED_IPS = [''185.199.108.133'', ''185.199.109.133'', ''185.199.110.133'', ''185.199.111.133'']"

definition is_github_host :: "string \<Rightarrow> bool" where
  "is_github_host host \<longleftrightarrow>
     host = ''raw.githubusercontent.com'' \<or> ends_with ''.githubusercontent.com'' host"

fun connect_targets ::
  "(string \<Rightarrow> io_error option option) \<Rightarrow> io_error option \<Rightarrow> string list \<Rightarrow> io_error + string" where
  "connect_targets con last_err [] =
     Inl (case last_err of Some e \<Rightarrow> e | None \<Rightarrow> io_err NotFound ''no connect target'')"
| "connect_targets con last_err (target # ts) =
     (case con target of
        Some None \<Rightarrow> Inr target
      | Some (Some e) \<Rightarrow> connect_targets con (Some e) ts
      | None \<Rightarrow> connect_targets con (Some (io_err TimedOut ''connect timeout'')) ts)"

definition connect_pinned :: "(string \<Rightarrow> io_error option option) \<Rightarrow> string \<Rightarrow> io_error + string" where
  "connect_pinned con host =
     connect_targets con None ((if is_github_host host then GITHUB_PINNED_IPS else []) @ [host])"

section \<open>Decoding undoes the cipher\<close>

lemma split_line:
  "no_newline l \<Longrightarrow> split_on (\<lambda>c. c = LF) (l @ LF # t) = l # split_on (\<lambda>c. c = LF) t"
  by (rule split_on_append) auto

text \<open>The cipher: letters forward by their number, in their own alphabet.\<close>

definition shift_up :: "nat \<Rightarrow> nat \<Rightarrow> char \<Rightarrow> char" where
  "shift_up base shift c = char_of (base + (of_char c - base + shift) mod 26)"

definition encode_char :: "nat \<Rightarrow> char \<Rightarrow> char" where
  "encode_char shift c =
     (if is_ascii_lowercase c then shift_up 97 shift c
      else if is_ascii_uppercase c then shift_up 65 shift c
      else c)"

definition encode_cfproxy_prefix :: "string \<Rightarrow> string" where
  "encode_cfproxy_prefix p = map (encode_char (length (filter is_ascii_alphabetic p))) p"

lemma ord_shift_up: "base \<le> 97 \<Longrightarrow> ord (shift_up base shift c) = base + (ord c - base + shift) mod 26"
proof -
  assume b: "base \<le> 97"
  have "(ord c - base + shift) mod 26 < 26" by simp
  with b have "base + (ord c - base + shift) mod 26 < 256" by linarith
  then show ?thesis by (simp add: shift_up_def of_char_of)
qed

lemma encode_char_class [simp]:
  "is_ascii_lowercase (encode_char n c) = is_ascii_lowercase c"
  "is_ascii_uppercase (encode_char n c) = is_ascii_uppercase c"
proof -
  have "(ord c - base + n) mod 26 \<le> 25" for base by (simp add: less_Suc_eq_le [symmetric])
  then show "is_ascii_lowercase (encode_char n c) = is_ascii_lowercase c"
    and "is_ascii_uppercase (encode_char n c) = is_ascii_uppercase c"
    by (auto simp: encode_char_def is_ascii_lowercase_def is_ascii_uppercase_def ord_shift_up)
qed

lemma unshift_up:
  assumes "base = 97 \<or> base = 65" and "base \<le> ord c" and "ord c \<le> base + 25"
  shows "unshift base n (shift_up base n c) = c"
proof -
  define k where "k = ord c - base"
  have k: "ord c = base + k" "k < 26" using assms(2,3) by (auto simp: k_def)
  have "(int ((k + n) mod 26) - int n) mod 26 = int k"
    using k(2) by (simp add: zmod_int mod_diff_left_eq)
  moreover have "ord (shift_up base n c) = base + (k + n) mod 26"
    using assms(1) k by (subst ord_shift_up) auto
  ultimately have "unshift base n (shift_up base n c) = char_of (base + k)" by (simp add: unshift_def)
  also have "\<dots> = c" unfolding k(1) [symmetric] by simp
  finally show ?thesis .
qed

lemma decode_encode_char: "decode_char n (encode_char n c) = c"
proof (cases "is_ascii_lowercase c")
  case True
  then have "encode_char n c = shift_up 97 n c" by (simp add: encode_char_def)
  then show ?thesis
    using True unshift_up [of 97 c n] encode_char_class(1) [of n c]
    by (simp add: decode_char_def is_ascii_lowercase_def)
next
  case False
  note l = False
  show ?thesis
  proof (cases "is_ascii_uppercase c")
    case True
    then have e: "encode_char n c = shift_up 65 n c" using l by (simp add: encode_char_def)
    show ?thesis
      using True l unshift_up [of 65 c n] encode_char_class [of n c]
      by (simp add: decode_char_def e is_ascii_uppercase_def)
  next
    case False
    with l show ?thesis by (simp add: decode_char_def encode_char_def)
  qed
qed

text \<open>
  Decoding is the inverse of the cipher in which the shared list is published: whatever name is
  enciphered (letters forward by their own number, case and other characters kept) and published
  under \<open>.com\<close>, the proxy dials the name itself under \<open>.co.uk\<close>.
\<close>

lemma decode_cfproxy_roundtrip:
  "decode_cfproxy_domain (encode_cfproxy_prefix p @ ''.com'') = p @ ''.co.uk''"
proof -
  have "length (filter is_ascii_alphabetic (encode_cfproxy_prefix p)) = length (filter is_ascii_alphabetic p)"
    by (simp add: encode_cfproxy_prefix_def filter_map comp_def is_ascii_alphabetic_def [abs_def])
  then show ?thesis
    by (simp add: decode_cfproxy_domain_def ends_with_def)
      (simp add: encode_cfproxy_prefix_def comp_def decode_encode_char)
qed

section \<open>The pool\<close>

lemma valid_domain_graphic:
  assumes "is_valid_domain d" and "c \<in> set d" shows "is_graphic c"
proof (cases "c = CHR ''.''")
  case True
  then show ?thesis by (simp add: is_graphic_def)
next
  case False
  then obtain l where l: "l \<in> set (split_on (\<lambda>c. c = CHR ''.'') d)" "c \<in> set l"
    using split_on_covers [OF assms(2), of "\<lambda>c. c = CHR ''.''"] by blast
  then have "is_ascii_alphanumeric c \<or> c = CHR ''-''"
    using assms(1) by (auto simp: is_valid_domain_def valid_label_def list_all_iff Let_def split: if_splits)
  then show ?thesis by (auto simp: is_graphic_def class_defs)
qed

text \<open>A member of the pool: valid, and its own cooldown key.\<close>

definition pool_member :: "string \<Rightarrow> bool" where
  "pool_member d \<longleftrightarrow> is_valid_domain d \<and> norm_key d = d"

definition pool_ok :: "string list \<Rightarrow> bool" where
  "pool_ok ds \<longleftrightarrow> list_all pool_member ds \<and> distinct ds"

lemma valid_lower_member: "is_valid_domain (to_ascii_lowercase d) \<Longrightarrow> pool_member (to_ascii_lowercase d)"
proof -
  assume v: "is_valid_domain (to_ascii_lowercase d)"
  then have "trim (to_ascii_lowercase d) = to_ascii_lowercase d"
    using valid_domain_graphic [OF v] by (intro trim_graphic) (metis hd_in_set last_in_set)
  with v show ?thesis by (simp add: pool_member_def norm_key_def)
qed

lemma pool_item_ok: "pool_ok out \<Longrightarrow> pool_ok (pool_item d out)"
  using valid_lower_member [of "trim d"] by (auto simp: pool_item_def pool_ok_def Let_def)

lemma normalize_pool_ok: "pool_ok (normalize_domain_pool ds)"
proof -
  have "pool_ok (fold pool_item ds out)" if "pool_ok out" for out
    using that by (induction ds arbitrary: out) (simp_all add: pool_item_ok)
  then show ?thesis by (simp add: normalize_domain_pool_def pool_ok_def)
qed

lemma pool_ok_keys: "pool_ok ds \<Longrightarrow> distinct (map norm_key ds)"
proof -
  assume ok: "pool_ok ds"
  then have "map norm_key ds = ds" by (intro map_idI) (simp add: pool_ok_def list_all_iff pool_member_def)
  with ok show ?thesis by (simp add: pool_ok_def)
qed

lemma default_domains:
  "default_cfproxy_domains = [''pclead.co.uk'', ''offshor.co.uk'', ''cakeisalie.co.uk'', ''noskomnadzor.co.uk'', ''lovetrue.co.uk'', ''sorokdva.co.uk'', ''pyatdesyatdva.co.uk'', ''kartoshka.co.uk'', ''sorokodin.co.uk'', ''pyatdesyatodin.co.uk'', ''notelega.co.uk'', ''ebally.co.uk'', ''nebally.co.uk'', ''havegreatday.co.uk'', ''pomogite.co.uk'', ''fixtelega.co.uk'', ''sadnews.co.uk'', ''onedaychamp.co.uk'', ''stopblocking.co.uk'', ''nothingthere.co.uk'']"
  by (simp add: default_cfproxy_domains_def DEFAULT_ENCODED_def decode_cfproxy_domain_def ends_with_def
      Let_def decode_char_def unshift_def class_defs char_of_def bit_simps)

lemma starts_with_char: "p \<noteq> [] \<Longrightarrow> starts_with [c] p \<longleftrightarrow> hd p = c"
  by (cases p) (auto simp: starts_with_def)

lemma ends_with_char: "p \<noteq> [] \<Longrightarrow> ends_with [c] p \<longleftrightarrow> last p = c"
  by (cases p rule: rev_cases) (auto simp: ends_with_def)

lemma valid_co_uk:
  assumes "d = p @ ''.co.uk''" and "p \<noteq> []" and "length p \<le> 63" and "list_all is_ascii_lowercase p"
  shows "is_valid_domain d \<and> to_ascii_lowercase d = d"
proof
  have low: "is_ascii_lowercase c" if "c \<in> set p" for c using assms(4) that by (simp add: list_all_iff)
  have ends: "is_ascii_lowercase (hd p)" "is_ascii_lowercase (last p)"
    using low assms(2) by simp_all
  have other: "c \<noteq> CHR ''-''" "c \<noteq> CHR ''.''" if "is_ascii_lowercase c" for c
    using that by (auto simp: is_ascii_lowercase_def)
  have p: "valid_label p"
    using assms(2,3) ends other low
    by (simp add: valid_label_def starts_with_char ends_with_char list_all_iff is_ascii_alphanumeric_def
        is_ascii_alphabetic_def)
  have "split_on (\<lambda>c. c = CHR ''.'') (p @ CHR ''.'' # ''co.uk'') = p # split_on (\<lambda>c. c = CHR ''.'') ''co.uk''"
    using low other by (intro split_on_append) auto
  then have labels: "split_on (\<lambda>c. c = CHR ''.'') d = [p, ''co'', ''uk'']" by (simp add: assms(1))
  have l: "valid_label ''co''" "valid_label ''uk''"
    by (simp_all add: valid_label_def starts_with_char ends_with_char class_defs)
  have "d \<noteq> []" "hd d = hd p" "last d = CHR ''k''" "length d \<le> 253"
    using assms(1-3) by simp_all
  moreover have "is_ascii_alphabetic CHR ''u''" by (simp add: class_defs)
  ultimately show "is_valid_domain d"
    using p l ends other by (simp add: is_valid_domain_def starts_with_char ends_with_char labels)
  show "to_ascii_lowercase d = d"
    using low by (fastforce simp: assms(1) to_ascii_lowercase_def char_lower_def class_defs intro!: map_idI)
qed

lemma default_pool_ok: "pool_ok default_cfproxy_domains"
proof -
  have shape: "\<forall>d \<in> set default_cfproxy_domains. d = take (length d - 6) d @ ''.co.uk''
      \<and> take (length d - 6) d \<noteq> [] \<and> length (take (length d - 6) d) \<le> 63
      \<and> list_all is_ascii_lowercase (take (length d - 6) d)"
    by (simp add: default_domains class_defs)
  then have "\<forall>d \<in> set default_cfproxy_domains. is_valid_domain d \<and> to_ascii_lowercase d = d"
    using valid_co_uk by blast
  then have "\<forall>d \<in> set default_cfproxy_domains. pool_member d"
    using valid_lower_member by metis
  moreover have "distinct default_cfproxy_domains" unfolding default_domains by simp
  ultimately show ?thesis by (simp add: pool_ok_def list_all_iff)
qed

end
