(* ===== verification/Config.thy ===== *)
theory Config
  imports Domains Bridge
begin

text \<open>
  \<open>config.rs\<close>: the configuration from the environment or from the file, applying it, and the
  reload on SIGHUP. \<open>get\<close> is the look-up of a variable, in the environment or in the parsed file.
  The file is its text, \<open>None\<close> when it cannot be read.
\<close>

section \<open>The parsers\<close>

record wrtg_config =
  wc_listen_addr :: string
  wc_front_ip :: string
  wc_dc_front_ips :: "int \<rightharpoonup> string"
  wc_front_dcs :: "int list"
  wc_worker_domains :: "string list"
  wc_proxy_domains :: "string list"

text \<open>\<open>trim().trim_matches('\r').trim()\<close>\<close>

definition trim_value :: "string \<Rightarrow> string" where
  "trim_value v = trim (trim_matches (CHR 0x0D) (trim v))"

definition parse_front_dcs :: "string \<Rightarrow> int list" where
  "parse_front_dcs raw =
     (let v = trim_value raw
      in if eq_ignore_ascii_case v ''all'' \<or> v = ''*'' then [1, 2, 3, 4, 5]
         else if v = '''' \<or> eq_ignore_ascii_case v ''none'' then []
         else remdups_adj (sort (filter valid_dc (List.map_filter (\<lambda>s. parse_i32 (trim s))
                (split_on (\<lambda>c. c = CHR '','' \<or> c = CHR '';'' \<or> c = CHR '' '') v)))))"

definition load_front_dcs_with :: "(string \<Rightarrow> string option) \<Rightarrow> int list" where
  "load_front_dcs_with get =
     (case get ''WRTG_FRONT_DCS'' of
        Some v \<Rightarrow> if trim_value v \<noteq> '''' then parse_front_dcs v else [2, 4]
      | None \<Rightarrow> [2, 4])"

definition domains_of :: "string option \<Rightarrow> string list" where
  "domains_of v = (case v of Some v \<Rightarrow> parse_domain_list v | None \<Rightarrow> [])"

definition load_worker_domains_with :: "(string \<Rightarrow> string option) \<Rightarrow> string list" where
  "load_worker_domains_with get =
     normalize_domain_pool (domains_of (get ''CF_WORKER_DOMAIN'') @ domains_of (get ''WRTG_CF_WORKER_DOMAINS''))"

definition load_proxy_domains_with :: "(string \<Rightarrow> string option) \<Rightarrow> string list" where
  "load_proxy_domains_with get =
     normalize_domain_pool (domains_of (get ''CF_PROXY_DOMAIN'') @ domains_of (get ''WRTG_CF_PROXY_DOMAINS''))"

text \<open>One entry of \<open>WRTG_DC_IPS\<close>, and one variable for a datacenter.\<close>

definition dc_ip_part :: "string \<Rightarrow> (int \<rightharpoonup> string) \<Rightarrow> (int \<rightharpoonup> string)" where
  "dc_ip_part part m =
     (case split_once '':'' (trim part) of
        None \<Rightarrow> m
      | Some (dc_s, ip) \<Rightarrow>
          (case parse_i32 (trim dc_s) of
             None \<Rightarrow> m
           | Some dc \<Rightarrow>
               let ip = trim_matches (CHR 0x0D) (trim ip) in if ip \<noteq> '''' then m(dc \<mapsto> ip) else m))"

definition dc_ip_var :: "(string \<Rightarrow> string option) \<Rightarrow> int \<Rightarrow> (int \<rightharpoonup> string) \<Rightarrow> (int \<rightharpoonup> string)" where
  "dc_ip_var get dc m =
     (case get (''DC'' @ show_int dc @ ''_FRONT_IP'') of
        None \<Rightarrow> m
      | Some ip \<Rightarrow> let ip = trim_matches (CHR 0x0D) (trim ip) in if ip \<noteq> '''' then m(dc \<mapsto> ip) else m)"

definition parse_dc_front_ips_with :: "(string \<Rightarrow> string option) \<Rightarrow> (int \<rightharpoonup> string)" where
  "parse_dc_front_ips_with get =
     (let m = (case get ''WRTG_DC_IPS'' of
                 Some raw \<Rightarrow> fold dc_ip_part (split_on (\<lambda>c. c = CHR '','' \<or> c = CHR '';'') raw) Map.empty
               | None \<Rightarrow> Map.empty)
      in dc_ip_var get 203 (fold (dc_ip_var get) [1, 2, 3, 4, 5] m))"

text \<open>\<open>get(a).or_else(get(b)).or_else(get(c))\<close>\<close>

definition first_of :: "(string \<Rightarrow> string option) \<Rightarrow> string list \<Rightarrow> string option" where
  "first_of get keys = foldr (\<lambda>k r. case get k of Some v \<Rightarrow> Some v | None \<Rightarrow> r) keys None"

definition load_from :: "(string \<Rightarrow> string option) \<Rightarrow> wrtg_config" where
  "load_from get =
     (let front_ip = (case first_of get [''WRTG_FRONT_IP'', ''FRONT_IP'', ''TG_TPROXY_FRONT_IP''] of
                        Some v \<Rightarrow> v | None \<Rightarrow> ''149.154.167.220'');
          listen = (case get ''WRTG_LISTEN'' of Some v \<Rightarrow> v | None \<Rightarrow> ''0.0.0.0:8443'')
      in \<lparr>wc_listen_addr = trim_matches (CHR 0x0D) listen,
          wc_front_ip = trim (trim_matches (CHR 0x0D) front_ip),
          wc_dc_front_ips = parse_dc_front_ips_with get,
          wc_front_dcs = load_front_dcs_with get,
          wc_worker_domains = load_worker_domains_with get,
          wc_proxy_domains = load_proxy_domains_with get\<rparr>)"

section \<open>The file\<close>

definition quoted_by :: "char \<Rightarrow> string \<Rightarrow> bool" where
  "quoted_by q raw \<longleftrightarrow> starts_with [q] raw \<and> ends_with [q] raw"

definition parse_kv_line :: "string \<Rightarrow> (string \<times> string) option" where
  "parse_kv_line line =
     (let line = trim line
      in if line = '''' \<or> starts_with ''#'' line then None
         else (case split_once ''='' line of
                 None \<Rightarrow> None
               | Some (key, raw) \<Rightarrow>
                   let key = trim key; raw = trim raw
                   in if key = '''' \<or> \<not> list_all (\<lambda>c. is_ascii_alphanumeric c \<or> c = CHR ''_'') key then None
                      else if length raw \<ge> 2 \<and> (quoted_by (CHR 0x22) raw \<or> quoted_by (CHR 0x27) raw)
                      then Some (key, take (length raw - 2) (drop 1 raw))
                      else Some (key, case split_whitespace raw of [] \<Rightarrow> '''' | w # ws \<Rightarrow> w)))"

definition import_line :: "string \<Rightarrow> (string \<rightharpoonup> string) \<Rightarrow> (string \<rightharpoonup> string)" where
  "import_line line m = (case parse_kv_line line of Some (k, v) \<Rightarrow> m(k \<mapsto> v) | None \<Rightarrow> m)"

definition import_config_file :: "string option \<Rightarrow> (string \<rightharpoonup> string)" where
  "import_config_file file =
     (case file of None \<Rightarrow> Map.empty | Some text \<Rightarrow> fold import_line (lines text) Map.empty)"

section \<open>Applying and reloading\<close>

definition apply_config :: "wrtg_config \<Rightarrow> net_state \<Rightarrow> net_state" where
  "apply_config cfg s =
     s\<lparr>ns_front := set_front_dcs (wc_front_dcs cfg) (set_dc_front_ips (wc_dc_front_ips cfg)
                    (set_front_ip (wc_front_ip cfg) (ns_front s))),
       ns_bal := set_proxy_domains (wc_proxy_domains cfg) (set_worker_domains (wc_worker_domains cfg) (ns_bal s))\<rparr>"

definition proxy_pool_after_reload :: "string list \<Rightarrow> string list \<Rightarrow> bool \<Rightarrow> string list" where
  "proxy_pool_after_reload file_domains live_pool auto =
     (if file_domains \<noteq> [] \<or> \<not> auto then file_domains
      else if live_pool = [] then default_cfproxy_domains else live_pool)"

text \<open>\<open>learned\<close> and \<open>manual\<close> are the lines of the learned addresses' files.\<close>

definition reload_from_file ::
  "(string \<Rightarrow> string option) \<Rightarrow> string option \<Rightarrow> string list option \<Rightarrow> string list option \<Rightarrow> net_state
   \<Rightarrow> net_state" where
  "reload_from_file env file learned manual s =
     (let m = import_config_file file;
          cfg = load_from m;
          live_pool = ba_proxies (ns_bal s);
          s = apply_config cfg s;
          auto = (\<not> cf_fallback_disabled env \<and> cfproxy_auto_decision (m ''WRTG_CFPROXY_AUTO''))
      in s\<lparr>ns_bal := set_proxy_domains (proxy_pool_after_reload (wc_proxy_domains cfg) live_pool auto) (ns_bal s),
          ns_learned := (ns_learned s)\<lparr>dl_learned := load_learned learned manual\<rparr>\<rparr>)"

text \<open>\<open>main\<close>: applying the configuration at startup, and the first pool.\<close>

definition startup :: "(string \<Rightarrow> string option) \<Rightarrow> wrtg_config \<Rightarrow> net_state \<Rightarrow> net_state" where
  "startup env cfg s =
     (let s = apply_config cfg s
      in if cfproxy_auto_enabled env then s\<lparr>ns_bal := seed_default_cfproxy_domains (ns_bal s)\<rparr> else s)"

section \<open>The command line\<close>

datatype cli = CliRun wrtg_config | CliStats | CliHelp | CliVersion | CliUnknown string | CliCheck wrtg_config

definition arg_key :: "string \<Rightarrow> string" where
  "arg_key a = trim_end_matches (CHR 0x0D) (trim_start_matches (CHR ''-'') a)"

text \<open>The loop over the arguments; \<open>check\<close> says whether one of them asks for the check.\<close>

fun cli_loop :: "bool \<Rightarrow> string list \<Rightarrow> wrtg_config \<Rightarrow> cli" where
  "cli_loop check [] cfg = (if check then CliCheck cfg else CliRun cfg)"
| "cli_loop check (arg # args) cfg =
     (let key = arg_key arg
      in if key = ''check'' then cli_loop check args cfg
         else if key = ''stats'' then CliStats
         else if key = ''listen'' then
           (case args of
              [] \<Rightarrow> cli_loop check [] cfg
            | v # rest \<Rightarrow> cli_loop check rest (cfg\<lparr>wc_listen_addr := trim_end_matches (CHR 0x0D) v\<rparr>))
         else if key = ''front-ip'' then
           (case args of
              [] \<Rightarrow> cli_loop check [] cfg
            | v # rest \<Rightarrow> cli_loop check rest (cfg\<lparr>wc_front_ip := trim_end_matches (CHR 0x0D) v\<rparr>))
         else if key = ''help'' \<or> key = ''h'' then CliHelp
         else if key = ''version'' then CliVersion
         else CliUnknown key)"

text \<open>
  \<open>main\<close> up to the arguments: a check or a listing of the counters reads the file first, for what
  the environment does not set.
\<close>

definition parse_cli :: "(string \<Rightarrow> string option) \<Rightarrow> string option \<Rightarrow> string list \<Rightarrow> cli" where
  "parse_cli env file args =
     (let check = ''check'' \<in> set (map arg_key args);
          seed = (check \<or> ''stats'' \<in> set (map arg_key args));
          get = (if seed then import_config_file file ++ env else env)
      in cli_loop check args (load_from get))"

section \<open>What the parsers return\<close>

lemma sorted_distinct_remdups_adj: "sorted xs \<Longrightarrow> distinct (remdups_adj xs)"
proof (induction xs rule: remdups_adj.induct)
  case (3 x y xs)
  then show ?case by (cases "x = y") auto
qed simp_all

lemma front_dcs_sorted:
  "sorted (load_front_dcs_with get) \<and> distinct (load_front_dcs_with get)
   \<and> list_all valid_dc (load_front_dcs_with get)"
proof -
  have "sorted (parse_front_dcs raw) \<and> distinct (parse_front_dcs raw) \<and> list_all valid_dc (parse_front_dcs raw)"
    for raw
    by (auto simp: parse_front_dcs_def Let_def list_all_iff valid_dc_def sorted_remdups_adj
        sorted_distinct_remdups_adj)
  then show ?thesis by (auto simp: load_front_dcs_with_def valid_dc_def split: option.split)
qed
section \<open>A written file is read back\<close>

definition config_line :: "string \<times> string \<Rightarrow> string" where
  "config_line kv = fst kv @ [CHR ''='', CHR 0x22] @ snd kv @ [CHR 0x22]"

definition config_text :: "(string \<times> string) list \<Rightarrow> string" where
  "config_text kvs = concat (map (\<lambda>kv. config_line kv @ [CHR 0x0A]) kvs)"

definition is_key :: "string \<Rightarrow> bool" where
  "is_key k \<longleftrightarrow> k \<noteq> '''' \<and> list_all (\<lambda>c. is_ascii_alphanumeric c \<or> c = CHR ''_'') k"

lemma key_char:
  assumes "is_ascii_alphanumeric c \<or> c = CHR ''_''"
  shows "is_graphic c" "c \<noteq> CHR ''=''" "c \<noteq> CHR ''#''" "c \<noteq> CHR 0x0A"
  using assms by (auto simp: class_defs is_graphic_def)

lemma key_mem: "is_key k \<Longrightarrow> c \<in> set k \<Longrightarrow> is_ascii_alphanumeric c \<or> c = CHR ''_''"
  by (simp add: is_key_def list_all_iff)

lemma key_graphic:
  assumes "is_key k" shows "trim k = k" "is_graphic (hd k)" "CHR ''='' \<notin> set k" "hd k \<noteq> CHR ''#''"
    "CHR 0x0A \<notin> set k"
proof -
  have k: "k \<noteq> ''''" using assms by (simp add: is_key_def)
  show "trim k = k" using key_char(1) [OF key_mem [OF assms]] by (intro trim_all_graphic) blast
  show "is_graphic (hd k)" "hd k \<noteq> CHR ''#''"
    using key_char [OF key_mem [OF assms hd_in_set [OF k]]] by simp_all
  show "CHR ''='' \<notin> set k" "CHR 0x0A \<notin> set k"
    using key_char(2,4) [OF key_mem [OF assms]] by blast+
qed

lemma split_once_fresh: "c \<notin> set k \<Longrightarrow> split_once [c] (k @ c # r) = Some (k, r)"
  by (induction k) (auto simp: split_once_def map_option_case split: option.splits)

lemma parse_config_line:
  assumes "is_key k" shows "parse_kv_line (config_line (k, v)) = Some (k, v)"
proof -
  let ?raw = "CHR 0x22 # v @ [CHR 0x22]"
  have k: "k \<noteq> ''''" "list_all (\<lambda>c. is_ascii_alphanumeric c \<or> c = CHR ''_'') k"
    using assms by (simp_all add: is_key_def)
  have line: "config_line (k, v) = k @ CHR ''='' # ?raw" by (simp add: config_line_def)
  have "trim (k @ CHR ''='' # ?raw) = k @ CHR ''='' # ?raw"
    using k key_graphic [OF assms] by (intro trim_graphic) (simp add: is_graphic_def)
  moreover have "trim ?raw = ?raw" by (rule trim_graphic) (simp add: is_graphic_def)
  moreover have "\<not> starts_with ''#'' (k @ t)" for t
    using k(1) key_graphic(4) [OF assms] by (cases k) (simp_all add: starts_with_def)
  moreover have "quoted_by (CHR 0x22) ?raw" by (simp add: quoted_by_def starts_with_def ends_with_def)
  ultimately show ?thesis
    using k key_graphic [OF assms]
    by (simp add: parse_kv_line_def line split_once_fresh Let_def)
qed

lemma config_line_plain:
  assumes "is_key (fst kv)" and "CHR 0x0A \<notin> set (snd kv)"
  shows "CHR 0x0A \<notin> set (config_line kv)" "strip_cr (config_line kv) = config_line kv"
  using assms key_graphic(5) by (auto simp: config_line_def strip_cr_def)

lemma lines_config_text:
  assumes "\<forall>kv \<in> set kvs. is_key (fst kv) \<and> CHR 0x0A \<notin> set (snd kv)"
  shows "lines (config_text kvs) = map config_line kvs"
proof -
  have "split_on (\<lambda>c. c = CHR 0x0A) (config_text kvs) = map config_line kvs @ [[]]"
    using assms
    by (induction kvs) (auto simp: config_text_def split_line config_line_plain(1))
  then show ?thesis
    using assms config_line_plain(2) by (simp add: lines_def map_idI)
qed

lemma import_lines:
  assumes "\<forall>kv \<in> set kvs. is_key (fst kv)"
  shows "fold import_line (map config_line kvs) m = m ++ map_of (rev kvs)"
  using assms
  by (induction kvs arbitrary: m) (auto simp: import_line_def parse_config_line map_add_def fun_eq_iff split: option.split)



section \<open>What a reload leaves\<close>

lemma unreadable_file_resets:
  "let s' = reload_from_file env None learned manual s
   in ns_front s' = set_front_dcs [2, 4] (set_dc_front_ips Map.empty (set_front_ip ''149.154.167.220'' (ns_front s)))
      \<and> ba_workers (ns_bal s') = []"
  by (simp add: reload_from_file_def import_config_file_def load_from_def first_of_def
      parse_dc_front_ips_with_def dc_ip_var_def load_front_dcs_with_def load_worker_domains_with_def
      load_proxy_domains_with_def domains_of_def normalize_domain_pool_def apply_config_def
      set_worker_domains_def set_proxy_domains_def trim_matches_def trim_start_matches_def
      trim_end_matches_def trim_graphic is_graphic_def Let_def)

lemma dropped_domain_stays:
  assumes "\<not> cf_fallback_disabled env" and "ba_proxies (ns_bal s) = [d]"
  shows "ba_proxies (ns_bal (reload_from_file env (Some '''') learned manual s)) = [d]"
  using assms
  by (simp add: reload_from_file_def import_config_file_def lines_def load_from_def
      load_worker_domains_with_def load_proxy_domains_with_def domains_of_def normalize_domain_pool_def
      apply_config_def proxy_pool_after_reload_def cfproxy_auto_decision_def
      set_worker_domains_def set_proxy_domains_def Let_def)

end
