(* ===== verification/Sections.thy ===== *)
theory Sections
  imports Session Config
begin

text \<open>
  What a session does to the shared state, cut at the locks: every access to a static of the source
  takes its lock, reads or writes one map or list and lets it go again. Each such access is a
  section, a relation between the component before and after it, for the reading of the clock it
  takes. A session is a run of sections (\<open>handle_conn_runs\<close>), between which those of other
  sessions and tasks may come; what every section preserves, every interleaving preserves.
\<close>

section \<open>Runs of sections\<close>

text \<open>Sections at whatever instants.\<close>

definition runs :: "(nat \<Rightarrow> 's \<Rightarrow> 's \<Rightarrow> bool) \<Rightarrow> 's \<Rightarrow> 's \<Rightarrow> bool" where
  "runs sect = rtranclp (\<lambda>a b. \<exists>t. sect t a b)"

text \<open>
  A component under its sections: what they keep is a property at an instant that later instants
  inherit. A section may have read its clock before the instant at which it is done.
\<close>

locale timed_cell =
  fixes sect :: "nat \<Rightarrow> 's \<Rightarrow> 's \<Rightarrow> bool" and good :: "nat \<Rightarrow> 's \<Rightarrow> bool"
  assumes sect_good: "sect u s s' \<Longrightarrow> u \<le> t \<Longrightarrow> good t s \<Longrightarrow> good t s'"
    and good_later: "good u s \<Longrightarrow> u \<le> t \<Longrightarrow> good t s"
begin

lemma runs_good:
  assumes "runs sect a b" and "good t a"
  shows "\<exists>t' \<ge> t. good t' b"
  using assms(1) unfolding runs_def
proof (induction rule: rtranclp_induct)
  case base
  with assms(2) show ?case by blast
next
  case (step x y)
  then obtain t' u where "t \<le> t'" "good t' x" "sect u x y" by blast
  then have "good (max t' u) y" by (meson good_later max.cobounded1 max.cobounded2 sect_good)
  with \<open>t \<le> t'\<close> show ?case by (meson le_trans max.cobounded1)
qed

end

lemma runs_refl [simp]: "runs sect a a"
  by (simp add: runs_def)

lemma runs_trans: "runs sect a b \<Longrightarrow> runs sect b c \<Longrightarrow> runs sect a c"
  by (simp add: runs_def)

lemma runs_step: "sect t b c \<Longrightarrow> runs sect a b \<Longrightarrow> runs sect a c"
  unfolding runs_def by (erule rtranclp.rtrancl_into_rtrancl) blast

lemma runs_lift:
  assumes "runs sect x y" and "\<And>t u v. sect t u v \<Longrightarrow> big t (f u) (f v)"
  shows "runs big (f x) (f y)"
  using assms(1) unfolding runs_def
proof (induction rule: rtranclp_induct)
  case (step y z)
  then obtain t where "sect t y z" by blast
  then have "\<exists>t. big t (f y) (f z)" using assms(2) by blast
  with step.IH show ?case by (rule rtranclp.rtrancl_into_rtrancl)
qed simp

named_theorems section_simps \<open>each operation of a session is a run of sections\<close>

section \<open>Maps of instants\<close>

inductive ttl_section :: "nat \<Rightarrow> nat \<Rightarrow> 'k ttl_map \<Rightarrow> 'k ttl_map \<Rightarrow> bool" for d t m where
  marked: "ttl_section d t m (ttl_mark m t k d)"
| marked_absent: "ttl_section d t m (snd (ttl_mark_if_absent m t k d))"
| asked: "ttl_section d t m (snd (ttl_is_active m t k))"
| cleared: "ttl_section d t m (snd (ttl_clear m k))"

text \<open>No entry is more than \<open>d\<close> ahead.\<close>

definition ttl_bounded :: "nat \<Rightarrow> nat \<Rightarrow> 'k ttl_map \<Rightarrow> bool" where
  "ttl_bounded d t m \<longleftrightarrow> (\<forall>k e. m k = Some e \<longrightarrow> e \<le> t + d)"

interpretation marks: timed_cell "ttl_section d" "ttl_bounded d" for d
proof
  fix u t s s'
  assume "ttl_section d u s s'" and "u \<le> t" and "ttl_bounded d t s"
  then show "ttl_bounded d t s'"
    by (induction rule: ttl_section.induct)
      (auto simp: ttl_bounded_def ttl_mark_def ttl_mark_if_absent_def ttl_is_active_def ttl_clear_def
        split: option.splits)
next
  fix u s t
  assume "ttl_bounded d u s" and "u \<le> t"
  then show "ttl_bounded d t s" by (fastforce simp: ttl_bounded_def)
qed

lemma ttl_lapsed: "ttl_bounded d t m \<Longrightarrow> t + d \<le> t' \<Longrightarrow> \<not> ttl_active m t' k"
  by (simp add: ttl_bounded_def ttl_is_active_def split: option.split) (meson le_trans not_le)

lemma ttl_runs [section_simps]:
  "runs (ttl_section d) a m \<Longrightarrow> runs (ttl_section d) a (ttl_mark m t k d)"
  "runs (ttl_section d) a m \<Longrightarrow> runs (ttl_section d) a (snd (ttl_mark_if_absent m t k d))"
  "runs (ttl_section d) a m \<Longrightarrow> runs (ttl_section d) a (snd (ttl_is_active m t k))"
  "runs (ttl_section d) a m \<Longrightarrow> runs (ttl_section d) a (snd (ttl_clear m k))"
  by (rule runs_step, rule ttl_section.intros, assumption)+

section \<open>The skip state\<close>

text \<open>One of its four maps at a time.\<close>

inductive skip_section :: "skip_config \<Rightarrow> nat \<Rightarrow> skip_state \<Rightarrow> skip_state \<Rightarrow> bool" for c t s where
  ip: "ttl_section (sc_ip_cooldown c) t (sk_ip_fail s) m \<Longrightarrow> skip_section c t s (s\<lparr>sk_ip_fail := m\<rparr>)"
| dc: "ttl_section (sc_dc_cooldown c) t (sk_dc_fail s) m' \<Longrightarrow> skip_section c t s (s\<lparr>sk_dc_fail := m'\<rparr>)"
| blacklist: "ttl_section (sc_blacklist_ttl c) t (sk_blacklist s) m' \<Longrightarrow>
    skip_section c t s (s\<lparr>sk_blacklist := m'\<rparr>)"
| fronting: "ttl_section (sc_fronting_cooldown c) t (sk_fronting_fail s) m \<Longrightarrow>
    skip_section c t s (s\<lparr>sk_fronting_fail := m\<rparr>)"

definition skip_bounded :: "skip_config \<Rightarrow> nat \<Rightarrow> skip_state \<Rightarrow> bool" where
  "skip_bounded c t s \<longleftrightarrow>
     ttl_bounded (sc_ip_cooldown c) t (sk_ip_fail s) \<and> ttl_bounded (sc_dc_cooldown c) t (sk_dc_fail s)
     \<and> ttl_bounded (sc_blacklist_ttl c) t (sk_blacklist s)
     \<and> ttl_bounded (sc_fronting_cooldown c) t (sk_fronting_fail s)"

interpretation skips: timed_cell "skip_section c" "skip_bounded c" for c
proof
  fix u t s s'
  assume "skip_section c u s s'" and "u \<le> t" and "skip_bounded c t s"
  then show "skip_bounded c t s'"
    by (induction rule: skip_section.induct) (simp_all add: skip_bounded_def marks.sect_good)
next
  fix u s t
  assume "skip_bounded c u s" and "u \<le> t"
  then show "skip_bounded c t s" by (auto simp: skip_bounded_def elim: marks.good_later)
qed

lemma skip_runs_fields:
  "runs (skip_section c) a s \<Longrightarrow> ttl_section (sc_ip_cooldown c) t (sk_ip_fail s) m1 \<Longrightarrow>
    runs (skip_section c) a (s\<lparr>sk_ip_fail := m1\<rparr>)"
  "runs (skip_section c) a s \<Longrightarrow> ttl_section (sc_dc_cooldown c) t (sk_dc_fail s) m2 \<Longrightarrow>
    runs (skip_section c) a (s\<lparr>sk_dc_fail := m2\<rparr>)"
  "runs (skip_section c) a s \<Longrightarrow> ttl_section (sc_blacklist_ttl c) t (sk_blacklist s) m3 \<Longrightarrow>
    runs (skip_section c) a (s\<lparr>sk_blacklist := m3\<rparr>)"
  "runs (skip_section c) a s \<Longrightarrow> ttl_section (sc_fronting_cooldown c) t (sk_fronting_fail s) m4 \<Longrightarrow>
    runs (skip_section c) a (s\<lparr>sk_fronting_fail := m4\<rparr>)"
  by (rule runs_step, erule skip_section.intros, assumption)+

lemma skip_runs [section_simps]:
  assumes "runs (skip_section c) a s"
  shows "runs (skip_section c) a (mark_ip_failed c t ip dc s)"
    "runs (skip_section c) a (clear_ip_fail ip dc s)"
    "runs (skip_section c) a (snd (should_skip_direct_ws t ip dc s))"
    "runs (skip_section c) a (snd (ws_connect_timeout c t dc m s))"
    "runs (skip_section c) a (mark_dc_failed c t dc m s)"
    "runs (skip_section c) a (clear_dc_fail dc m s)"
    "runs (skip_section c) a (snd (ws_blacklisted t dc m s))"
    "runs (skip_section c) a (mark_ws_blacklisted c t dc m s)"
    "runs (skip_section c) a (mark_fronting_failed c t ip dc s)"
    "runs (skip_section c) a (clear_fronting_fail ip dc s)"
    "runs (skip_section c) a (snd (should_skip_fronting c t ip dc s))"
  using assms
  by (auto simp: skip_ops should_skip_direct_ws_def ws_connect_timeout_def ws_blacklisted_def
      mark_ip_failed_def clear_ip_fail_def mark_dc_failed_def clear_dc_fail_def mark_ws_blacklisted_def
      mark_fronting_failed_def clear_fronting_fail_def should_skip_fronting_def case_prod_unfold
      intro!: skip_runs_fields ttl_section.intros)

lemma skip_run [section_simps]:
  "runs (skip_section c) a s \<Longrightarrow> runs (skip_section c) a (snd (should_skip_ws st t1 t2 dc m ip s))"
  "runs (skip_section c) a s \<Longrightarrow> runs (skip_section c) a (note_connect_success ip dc m s)"
  by (auto simp: should_skip_ws_def note_connect_success_def case_prod_unfold section_simps split: bool.split)

section \<open>Cooldowns\<close>

text \<open>The clock readings within a section come in order.\<close>

inductive cd_section :: "nat \<Rightarrow> nat \<Rightarrow> nat \<Rightarrow> cooldown_map \<Rightarrow> cooldown_map \<Rightarrow> bool" for base mx t m where
  asked: "t1 \<le> t2 \<Longrightarrow> t2 \<le> t \<Longrightarrow> cd_section base mx t m (snd (remaining mx t1 t2 k m))"
| marked: "t1 \<le> t2 \<Longrightarrow> t2 \<le> t3 \<Longrightarrow> t3 \<le> t \<Longrightarrow> cd_section base mx t m (cd_mark base mx t1 t2 t3 k err m)"
| cleared: "cd_section base mx t m (cd_clear k m)"

text \<open>No cooldown is longer than the maximum.\<close>

definition cd_bounded :: "nat \<Rightarrow> nat \<Rightarrow> cooldown_map \<Rightarrow> bool" where
  "cd_bounded mx t m \<longleftrightarrow> (\<forall>k st u. m k = Some st \<longrightarrow> cs_until st = Some u \<longrightarrow> u \<le> t + mx)"

lemma cd_bounded_later: "cd_bounded mx u m \<Longrightarrow> u \<le> t \<Longrightarrow> cd_bounded mx t m"
  by (fastforce simp: cd_bounded_def)

lemma cd_section_bounded:
  assumes "cd_section base mx u m m'" and "u \<le> t" and "cd_bounded mx t m"
  shows "cd_bounded mx t m'"
  using assms
proof (induction rule: cd_section.induct)
  case (asked t1 t2 k)
  then show ?case by (auto simp: cd_bounded_def remaining_def Let_def split: option.splits)
next
  case (marked t1 t2 t3 k err)
  then have "t3 + next_delay base mx t1 p r \<le> t + mx" for p r
    by (meson add_le_mono le_trans next_delay_le)
  with marked.prems show ?case by (auto simp: cd_bounded_def cd_mark_def mark_for_def Let_def)
next
  case (cleared k)
  then show ?case by (auto simp: cd_bounded_def cd_clear_def Let_def)
qed

interpretation cooldowns: timed_cell "cd_section base mx" "cd_bounded mx" for base mx
  by unfold_locales (fact cd_section_bounded cd_bounded_later)+

lemma cd_lapsed: "cd_bounded mx t m \<Longrightarrow> t + mx \<le> t' \<Longrightarrow> left m t' k = 0"
  by (fastforce simp: cd_bounded_def left_def split: option.split)

lemma cd_runs [section_simps]:
  "runs (cd_section base mx) a m \<Longrightarrow> runs (cd_section base mx) a (snd (remaining mx t t k m))"
  "runs (cd_section base mx) a m \<Longrightarrow> runs (cd_section base mx) a (cd_mark base mx t t t k err m)"
  "runs (cd_section base mx) a m \<Longrightarrow> runs (cd_section base mx) a (cd_clear k m)"
  by (rule runs_step, rule cd_section.intros [where t = t], simp_all)+

text \<open>The two maps of the Workers.\<close>

definition worker_runs :: "nat \<Rightarrow> nat \<Rightarrow> worker_cd \<Rightarrow> worker_cd \<Rightarrow> bool" where
  "worker_runs base mx a s \<longleftrightarrow>
     runs (cd_section base mx) (wc_429 a) (wc_429 s) \<and> runs (cd_section base mx) (wc_503 a) (wc_503 s)"

lemma worker_runs_refl [simp]: "worker_runs base mx a a"
  by (simp add: worker_runs_def)

lemma worker_limited_runs [section_simps]:
  "worker_runs base mx a s \<Longrightarrow> worker_runs base mx a (snd (worker_rate_limited mx t w s))"
  by (simp add: worker_runs_def worker_rate_limited_def cd_is_active_def case_prod_unfold section_simps
      split: bool.split)

lemma worker_mark_runs [section_simps]:
  "worker_runs base mx a s \<Longrightarrow> worker_runs base mx a (mark_worker_429 base mx t w err s)"
  "worker_runs base mx a s \<Longrightarrow> worker_runs base mx a (clear_worker_429 w s)"
  by (simp_all add: worker_runs_def mark_worker_429_def worker_cooldown_remaining_def clear_worker_429_def
      case_prod_unfold section_simps)

lemma cool_peers_runs [section_simps]:
  "worker_runs base mx a s \<Longrightarrow> worker_runs base mx a (cool_peers base mx t w acc err ps s)"
proof (induction ps arbitrary: s)
  case (Cons p ps)
  have "worker_runs base mx a (snd (worker_rate_limited mx t p s))" using Cons.prems by (simp add: section_simps)
  moreover from this have "worker_runs base mx a ((snd (worker_rate_limited mx t p s))
      \<lparr>wc_429 := cd_mark base mx t t t p err (wc_429 (snd (worker_rate_limited mx t p s)))\<rparr>)"
    by (simp add: worker_runs_def section_simps)
  ultimately show ?case using Cons by (simp add: case_prod_unfold split: bool.split)
qed simp

lemma worker_peers_runs [section_simps]:
  "worker_runs base mx a s \<Longrightarrow> worker_runs base mx a (mark_worker_429_with_peers base mx t w err ps s)"
  by (simp add: mark_worker_429_with_peers_def section_simps Let_def split: option.split)
    (simp add: worker_runs_def section_simps)

lemma free_workers_runs:
  "worker_runs base mx a s \<Longrightarrow> worker_runs base mx a (snd (free_workers mx t ws s))"
  by (induction ws arbitrary: s) (simp_all add: case_prod_unfold section_simps)

lemma usable_workers_runs [section_simps]:
  "worker_runs base mx a s \<Longrightarrow> worker_runs base mx a (snd (usable_workers mx t ws s))"
  by (simp add: usable_workers_def case_prod_unfold free_workers_runs)

lemma proxy_domain_runs [section_simps]:
  "runs (cd_section base mx) a m \<Longrightarrow>
   runs (cd_section base mx) a (snd (try_cf_proxy_domain base mx t1 t2 outer con doh d dc media m))"
  by (auto simp: try_cf_proxy_domain_def cf_proxy_cooldown_remaining_def clear_cf_proxy_429_cooldown_def
      mark_cf_proxy_429_cooldown_def case_prod_unfold section_simps split: sum.split)

section \<open>The balancer\<close>

text \<open>The last section of \<open>advance_proxy_domains_for_dc\<close>: it has read the list and the sticky domain before.\<close>

definition advance_cursor :: "int \<Rightarrow> nat \<Rightarrow> string option \<Rightarrow> string list \<Rightarrow> balancer \<Rightarrow> balancer" where
  "advance_cursor dc by sticky domains s =
     (let len = max (length domains) 1;
          (idx, rr) = (case ba_proxy_idx s dc of
             Some i \<Rightarrow> (i, ba_proxy_rr s)
           | None \<Rightarrow> (ba_proxy_rr s mod len, ba_proxy_rr s + 1));
          idx = (idx + by) mod len;
          idx = (if list_get domains idx = sticky then (idx + 1) mod len else idx)
      in s\<lparr>ba_proxy_rr := rr, ba_proxy_idx := (ba_proxy_idx s)(dc \<mapsto> idx)\<rparr>)"

text \<open>A cursor is read under its lock, for the list \<open>ds\<close> read before.\<close>

inductive bal_section :: "balancer \<Rightarrow> balancer \<Rightarrow> bool" for b where
  worker_asked: "ordered_domains ds dc (ba_worker_idx b) (ba_worker_rr b) = (out, m, rr) \<Longrightarrow>
    bal_section b (b\<lparr>ba_worker_idx := m, ba_worker_rr := rr\<rparr>)"
| proxy_asked: "ordered_domains ds dc (ba_proxy_idx b) (ba_proxy_rr b) = (out, m, rr) \<Longrightarrow>
    bal_section b (b\<lparr>ba_proxy_idx := m, ba_proxy_rr := rr\<rparr>)"
| sticky_set: "bal_section b (update_proxy_domain_for_dc dc d b)"
| sticky_removed: "bal_section b (b\<lparr>ba_sticky := (ba_sticky b)(dc := None)\<rparr>)"
| advanced: "bal_section b (advance_cursor dc by sticky ds b)"

lemma bal_section_pools:
  "bal_section b b' \<Longrightarrow> ba_workers b' = ba_workers b" "bal_section b b' \<Longrightarrow> ba_proxies b' = ba_proxies b"
  by (induction rule: bal_section.induct)
    (simp_all add: update_proxy_domain_for_dc_def advance_cursor_def Let_def case_prod_unfold)

abbreviation bal_runs :: "balancer \<Rightarrow> balancer \<Rightarrow> bool" where
  "bal_runs \<equiv> runs (\<lambda>t. bal_section)"

lemma bal_runs_step: "bal_section b c \<Longrightarrow> bal_runs a b \<Longrightarrow> bal_runs a c"
  by (rule runs_step)

lemma bal_asked: "bal_section b (snd (worker_domains_for_dc dc b))" "bal_section b (snd (proxy_domains_for_dc dc b))"
  by (auto simp: worker_domains_for_dc_def proxy_domains_for_dc_def split: prod.split intro: bal_section.intros)

text \<open>The two sections of a failed round.\<close>

lemma advance_sections:
  "advance_proxy_domains_for_dc dc by b =
     advance_cursor dc by (ba_sticky b dc) (ba_proxies b) (b\<lparr>ba_sticky := (ba_sticky b)(dc := None)\<rparr>)"
  by (simp add: advance_proxy_domains_for_dc_def advance_cursor_def Let_def split: option.split)

lemma bal_runs_ops [section_simps]:
  assumes "bal_runs a b"
  shows "bal_runs a (snd (worker_domains_for_dc dc b))" "bal_runs a (snd (proxy_domains_for_dc dc b))"
    "bal_runs a (update_proxy_domain_for_dc dc d b)" "bal_runs a (advance_proxy_domains_for_dc dc n b)"
proof -
  show "bal_runs a (snd (worker_domains_for_dc dc b))" "bal_runs a (snd (proxy_domains_for_dc dc b))"
    by (rule bal_runs_step [OF bal_asked(1) assms], rule bal_runs_step [OF bal_asked(2) assms])
  show "bal_runs a (update_proxy_domain_for_dc dc d b)"
    by (rule bal_runs_step [OF bal_section.sticky_set assms])
  show "bal_runs a (advance_proxy_domains_for_dc dc n b)"
    unfolding advance_sections
    by (rule bal_runs_step [OF bal_section.advanced bal_runs_step [OF bal_section.sticky_removed assms]])
qed

section \<open>The connection pools\<close>

text \<open>The sections of sessions and of the refill tasks.\<close>

inductive pool_section :: "pool_cfg \<Rightarrow> nat \<Rightarrow> slots \<Rightarrow> slots \<Rightarrow> bool" for c t sl where
  acquired: "pool_section c t sl (snd (snd (pool_acquire c t dc m sl)))"
| refilled: "pool_section c t sl (snd (refill_begin c t k sl))"
| filled: "pool_section c t sl (snd (snd (fill_push c t k ws label sl)))"
| swept: "pool_section c t sl (snd (snd (active_slots c t keys sl)))"

definition slots_ok :: "nat \<Rightarrow> slots \<Rightarrow> bool" where
  "slots_ok n sl \<longleftrightarrow> (\<forall>k. length (conns sl k) \<le> n)"

lemma slots_ok_upd: "slots_ok n sl \<Longrightarrow> length (sl_conns x) \<le> n \<Longrightarrow> slots_ok n (sl(k \<mapsto> x))"
  by (auto simp: slots_ok_def conns_def)

lemma take_expired_le: "length (fst (take_expired v ttl now)) \<le> length v"
  by (simp add: take_expired_def)

lemma pool_section_ok: "pool_section c u sl sl' \<Longrightarrow> slots_ok (pc_size c) sl \<Longrightarrow> slots_ok (pc_size c) sl'"
proof (induction rule: pool_section.induct)
  case (acquired dc m)
  have "length (fst (take_expired (conns sl (dc, m)) (pc_ttl c) u)) \<le> pc_size c"
    using acquired by (intro le_trans [OF take_expired_le]) (simp add: slots_ok_def del: split_paired_All)
  then show ?case
    using acquired by (auto simp: pool_acquire_def case_prod_unfold conns_def intro!: slots_ok_upd split: option.split)
next
  case (refilled k)
  then have "length (sl_conns (slot_of u k sl)) \<le> pc_size c"
    by (auto simp: slots_ok_def conns_def slot_of_def default_slot_def simp del: split_paired_All
      split: option.splits)
  then show ?case unfolding refill_begin_def Let_def snd_conv
    by (intro slots_ok_upd [OF refilled]) simp
next
  case (filled k ws label)
  have "length (fst (take_expired (conns sl k) (pc_ttl c) u)) \<le> pc_size c"
    using filled by (intro le_trans [OF take_expired_le]) (simp add: slots_ok_def del: split_paired_All)
  moreover obtain spare old sl' where f: "fill_push c u k ws label sl = (spare, old, sl')"
    by (metis prod.collapse)
  ultimately have "slots_ok (pc_size c) sl'"
    using filled by (auto simp: fill_push_def Let_def case_prod_unfold intro!: slots_ok_upd split: if_splits)
  then show ?case by (simp add: f)
next
  case (swept keys)
  have "length (conns (\<lambda>k. map_option (reap_slot c u) (sl k)) k) \<le> length (conns sl k)" for k
    using take_expired_le by (simp add: conns_def reap_slot_def split: option.split)
  then show ?case
    using swept by (simp add: active_slots_def slots_ok_def del: split_paired_All) (meson le_trans)
qed

interpretation pools: timed_cell "pool_section c" "\<lambda>t. slots_ok (pc_size c)" for c
  by unfold_locales (auto intro: pool_section_ok)

lemma acquire_runs [section_simps]:
  "runs (pool_section c) a sl \<Longrightarrow> runs (pool_section c) a (snd (snd (pool_acquire c t dc m sl)))"
  by (rule runs_step, rule pool_section.acquired)

section \<open>Learned addresses\<close>

text \<open>The write that \<open>learn\<close> makes under the lock, and the line it appends to the file later.\<close>

inductive learned_section :: "dc_learn \<Rightarrow> dc_learn \<Rightarrow> bool" for l where
  noted: "ip \<noteq> '''' \<Longrightarrow> valid_dc dc \<Longrightarrow> dc_from_hardcoded ip = None \<Longrightarrow> map_of (dl_learned l) ip = None \<Longrightarrow>
    learned_section l (l\<lparr>dl_learned := AList.update ip (dc, m) (dl_learned l)\<rparr>)"
| persisted: "learned_section l (l\<lparr>dl_file := dl_file l @ [persist_line ip dc m]\<rparr>)"

lemma learned_section_ok: "learned_section l l' \<Longrightarrow> learned_ok (dl_learned l) \<Longrightarrow> learned_ok (dl_learned l')"
proof (induction rule: learned_section.induct)
  case (noted ip dc m)
  then show ?case using learn_ok [of l ip dc m] by (simp add: learn_def)
qed simp

abbreviation learned_runs :: "dc_learn \<Rightarrow> dc_learn \<Rightarrow> bool" where
  "learned_runs \<equiv> runs (\<lambda>t. learned_section)"

lemma learn_runs [section_simps]:
  assumes "learned_runs a l"
  shows "learned_runs a (learn ip dc m l)"
proof -
  let ?l = "l\<lparr>dl_learned := AList.update ip (dc, m) (dl_learned l)\<rparr>"
  have "learned_runs l (?l\<lparr>dl_file := dl_file ?l @ [persist_line ip dc m]\<rparr>)"
    if "learned_section l ?l"
    by (rule runs_step [of "\<lambda>t. learned_section", OF learned_section.persisted])
      (rule runs_step [of "\<lambda>t. learned_section", OF that runs_refl])
  then have "learned_runs l (learn ip dc m l)"
    using learned_section.noted [of ip dc l m] by (simp add: learn_def del: not_None_eq split_paired_All)
  with assms show ?thesis by (rule runs_trans)
qed

section \<open>A session\<close>

text \<open>A counter, and the list of the refills asked for.\<close>

inductive count_section :: "stats \<Rightarrow> stats \<Rightarrow> bool" for x where
  counted: "count_section x (inc i x)"

inductive refill_section :: "(bool \<times> key \<times> string) list \<Rightarrow> (bool \<times> key \<times> string) list \<Rightarrow> bool" for x where
  asked: "refill_section x (x @ [r])"

text \<open>One access of a session, or of a dial of a pool, to the shared state.\<close>

inductive session_section :: "bridge_cfg \<Rightarrow> nat \<Rightarrow> net_state \<Rightarrow> net_state \<Rightarrow> bool" for c t s where
  skip: "skip_section (bc_skip c) t (ns_skip s) x \<Longrightarrow> session_section c t s (s\<lparr>ns_skip := x\<rparr>)"
| balancer: "bal_section (ns_bal s) b \<Longrightarrow> session_section c t s (s\<lparr>ns_bal := b\<rparr>)"
| worker_429: "cd_section (bc_worker_base c) (bc_worker_max c) t (wc_429 (ns_workers s)) m \<Longrightarrow>
    session_section c t s (s\<lparr>ns_workers := (ns_workers s)\<lparr>wc_429 := m\<rparr>\<rparr>)"
| worker_503: "cd_section (bc_worker_base c) (bc_worker_max c) t (wc_503 (ns_workers s)) m \<Longrightarrow>
    session_section c t s (s\<lparr>ns_workers := (ns_workers s)\<lparr>wc_503 := m\<rparr>\<rparr>)"
| proxy: "cd_section (bc_proxy_base c) (bc_proxy_max c) t (ns_proxies s) m \<Longrightarrow>
    session_section c t s (s\<lparr>ns_proxies := m\<rparr>)"
| ws_pool: "pool_section (bc_ws_pool c) t (ns_ws_pool s) sl \<Longrightarrow> session_section c t s (s\<lparr>ns_ws_pool := sl\<rparr>)"
| cf_pool: "pool_section (bc_cf_pool c) t (ns_cf_pool s) sl \<Longrightarrow> session_section c t s (s\<lparr>ns_cf_pool := sl\<rparr>)"
| learned: "learned_section (ns_learned s) l \<Longrightarrow> session_section c t s (s\<lparr>ns_learned := l\<rparr>)"
| counted: "count_section (ns_stats s) x \<Longrightarrow> session_section c t s (s\<lparr>ns_stats := x\<rparr>)"
| refill: "refill_section (ns_refills s) r \<Longrightarrow> session_section c t s (s\<lparr>ns_refills := r\<rparr>)"
| no_data: "ttl_section NO_DATA_LOG_EVERY t (ns_no_data s) n \<Longrightarrow> session_section c t s (s\<lparr>ns_no_data := n\<rparr>)"
| warned: "ttl_section PASSTHROUGH_WARN_EVERY t (ns_warned s) n \<Longrightarrow> session_section c t s (s\<lparr>ns_warned := n\<rparr>)"

abbreviation count_runs :: "stats \<Rightarrow> stats \<Rightarrow> bool" where
  "count_runs \<equiv> runs (\<lambda>t. count_section)"

abbreviation refill_runs :: "(bool \<times> key \<times> string) list \<Rightarrow> (bool \<times> key \<times> string) list \<Rightarrow> bool" where
  "refill_runs \<equiv> runs (\<lambda>t. refill_section)"

lemma count_runs_inc [section_simps]: "count_runs a x \<Longrightarrow> count_runs a (inc i x)"
  by (rule runs_step [of "\<lambda>t. count_section", OF count_section.counted])

lemma refill_runs_snoc [section_simps]: "refill_runs a x \<Longrightarrow> refill_runs a (x @ [r])"
  by (rule runs_step [of "\<lambda>t. refill_section", OF refill_section.asked])

text \<open>Component by component: sections of different components do not touch each other.\<close>

definition session_runs :: "bridge_cfg \<Rightarrow> net_state \<Rightarrow> net_state \<Rightarrow> bool" where
  "session_runs c a b \<longleftrightarrow>
     ns_front b = ns_front a
     \<and> runs (skip_section (bc_skip c)) (ns_skip a) (ns_skip b)
     \<and> bal_runs (ns_bal a) (ns_bal b)
     \<and> worker_runs (bc_worker_base c) (bc_worker_max c) (ns_workers a) (ns_workers b)
     \<and> runs (cd_section (bc_proxy_base c) (bc_proxy_max c)) (ns_proxies a) (ns_proxies b)
     \<and> runs (pool_section (bc_ws_pool c)) (ns_ws_pool a) (ns_ws_pool b)
     \<and> runs (pool_section (bc_cf_pool c)) (ns_cf_pool a) (ns_cf_pool b)
     \<and> learned_runs (ns_learned a) (ns_learned b)
     \<and> count_runs (ns_stats a) (ns_stats b)
     \<and> refill_runs (ns_refills a) (ns_refills b)
     \<and> runs (ttl_section NO_DATA_LOG_EVERY) (ns_no_data a) (ns_no_data b)
     \<and> runs (ttl_section PASSTHROUGH_WARN_EVERY) (ns_warned a) (ns_warned b)"

lemma session_runs_refl [simp]: "session_runs c a a"
  by (simp add: session_runs_def)

lemma field_runs:
  assumes "runs big a (put (get s))" and "runs sect (get s) x"
    and "\<And>t v y. sect t v y \<Longrightarrow> big t (put v) (put y)"
  shows "runs big a (put x)"
  using assms(1) runs_lift [OF assms(2), of big put] assms(3) by (blast intro: runs_trans)

lemmas put_sections =
  session_section.skip [where s = "s\<lparr>ns_skip := v\<rparr>" for s v, simplified]
  session_section.balancer [where s = "s\<lparr>ns_bal := v\<rparr>" for s v, simplified]
  session_section.proxy [where s = "s\<lparr>ns_proxies := v\<rparr>" for s v, simplified]
  session_section.ws_pool [where s = "s\<lparr>ns_ws_pool := v\<rparr>" for s v, simplified]
  session_section.cf_pool [where s = "s\<lparr>ns_cf_pool := v\<rparr>" for s v, simplified]
  session_section.learned [where s = "s\<lparr>ns_learned := v\<rparr>" for s v, simplified]
  session_section.no_data [where s = "s\<lparr>ns_no_data := v\<rparr>" for s v, simplified]
  session_section.warned [where s = "s\<lparr>ns_warned := v\<rparr>" for s v, simplified]
  session_section.counted [where s = "s\<lparr>ns_stats := v\<rparr>" for s v, simplified]
  session_section.refill [where s = "s\<lparr>ns_refills := v\<rparr>" for s v, simplified]
  session_section.worker_429 [where s = "s\<lparr>ns_workers := (ns_workers s)\<lparr>wc_429 := v\<rparr>\<rparr>" for s v, simplified]
  session_section.worker_503 [where s = "s\<lparr>ns_workers := (ns_workers s)\<lparr>wc_503 := v\<rparr>\<rparr>" for s v, simplified]

lemma session_fields:
  assumes "runs (session_section c) a s"
  shows "runs (skip_section (bc_skip c)) (ns_skip s) x0 \<Longrightarrow> runs (session_section c) a (s\<lparr>ns_skip := x0\<rparr>)"
    "bal_runs (ns_bal s) x1 \<Longrightarrow> runs (session_section c) a (s\<lparr>ns_bal := x1\<rparr>)"
    "runs (cd_section (bc_proxy_base c) (bc_proxy_max c)) (ns_proxies s) x2 \<Longrightarrow> runs (session_section c) a (s\<lparr>ns_proxies := x2\<rparr>)"
    "runs (pool_section (bc_ws_pool c)) (ns_ws_pool s) x3 \<Longrightarrow> runs (session_section c) a (s\<lparr>ns_ws_pool := x3\<rparr>)"
    "runs (pool_section (bc_cf_pool c)) (ns_cf_pool s) x4 \<Longrightarrow> runs (session_section c) a (s\<lparr>ns_cf_pool := x4\<rparr>)"
    "learned_runs (ns_learned s) x5 \<Longrightarrow> runs (session_section c) a (s\<lparr>ns_learned := x5\<rparr>)"
    "runs (ttl_section NO_DATA_LOG_EVERY) (ns_no_data s) x6 \<Longrightarrow> runs (session_section c) a (s\<lparr>ns_no_data := x6\<rparr>)"
    "runs (ttl_section PASSTHROUGH_WARN_EVERY) (ns_warned s) x7 \<Longrightarrow> runs (session_section c) a (s\<lparr>ns_warned := x7\<rparr>)"
    "count_runs (ns_stats s) x8 \<Longrightarrow> runs (session_section c) a (s\<lparr>ns_stats := x8\<rparr>)"
    "refill_runs (ns_refills s) x9 \<Longrightarrow> runs (session_section c) a (s\<lparr>ns_refills := x9\<rparr>)"
proof -
  note f = field_runs [where big = "session_section c" and a = a and s = s]
  show "runs (skip_section (bc_skip c)) (ns_skip s) x0 \<Longrightarrow> runs (session_section c) a (s\<lparr>ns_skip := x0\<rparr>)"
    by (rule f [where sect = "skip_section (bc_skip c)" and get = ns_skip
        and put = "\<lambda>x. s\<lparr>ns_skip := x\<rparr>"]) (auto simp: assms intro: put_sections)
  show "bal_runs (ns_bal s) x1 \<Longrightarrow> runs (session_section c) a (s\<lparr>ns_bal := x1\<rparr>)"
    by (rule f [where sect = "\<lambda>t. bal_section" and get = ns_bal
        and put = "\<lambda>x. s\<lparr>ns_bal := x\<rparr>"]) (auto simp: assms intro: put_sections)
  show "runs (cd_section (bc_proxy_base c) (bc_proxy_max c)) (ns_proxies s) x2 \<Longrightarrow> runs (session_section c) a (s\<lparr>ns_proxies := x2\<rparr>)"
    by (rule f [where sect = "cd_section (bc_proxy_base c) (bc_proxy_max c)" and get = ns_proxies
        and put = "\<lambda>x. s\<lparr>ns_proxies := x\<rparr>"]) (auto simp: assms intro: put_sections)
  show "runs (pool_section (bc_ws_pool c)) (ns_ws_pool s) x3 \<Longrightarrow> runs (session_section c) a (s\<lparr>ns_ws_pool := x3\<rparr>)"
    by (rule f [where sect = "pool_section (bc_ws_pool c)" and get = ns_ws_pool
        and put = "\<lambda>x. s\<lparr>ns_ws_pool := x\<rparr>"]) (auto simp: assms intro: put_sections)
  show "runs (pool_section (bc_cf_pool c)) (ns_cf_pool s) x4 \<Longrightarrow> runs (session_section c) a (s\<lparr>ns_cf_pool := x4\<rparr>)"
    by (rule f [where sect = "pool_section (bc_cf_pool c)" and get = ns_cf_pool
        and put = "\<lambda>x. s\<lparr>ns_cf_pool := x\<rparr>"]) (auto simp: assms intro: put_sections)
  show "learned_runs (ns_learned s) x5 \<Longrightarrow> runs (session_section c) a (s\<lparr>ns_learned := x5\<rparr>)"
    by (rule f [where sect = "\<lambda>t. learned_section" and get = ns_learned
        and put = "\<lambda>x. s\<lparr>ns_learned := x\<rparr>"]) (auto simp: assms intro: put_sections)
  show "runs (ttl_section NO_DATA_LOG_EVERY) (ns_no_data s) x6 \<Longrightarrow> runs (session_section c) a (s\<lparr>ns_no_data := x6\<rparr>)"
    by (rule f [where sect = "ttl_section NO_DATA_LOG_EVERY" and get = ns_no_data
        and put = "\<lambda>x. s\<lparr>ns_no_data := x\<rparr>"]) (auto simp: assms intro: put_sections)
  show "runs (ttl_section PASSTHROUGH_WARN_EVERY) (ns_warned s) x7 \<Longrightarrow> runs (session_section c) a (s\<lparr>ns_warned := x7\<rparr>)"
    by (rule f [where sect = "ttl_section PASSTHROUGH_WARN_EVERY" and get = ns_warned
        and put = "\<lambda>x. s\<lparr>ns_warned := x\<rparr>"]) (auto simp: assms intro: put_sections)
  show "count_runs (ns_stats s) x8 \<Longrightarrow> runs (session_section c) a (s\<lparr>ns_stats := x8\<rparr>)"
    by (rule f [where sect = "\<lambda>t. count_section" and get = ns_stats
        and put = "\<lambda>x. s\<lparr>ns_stats := x\<rparr>"]) (auto simp: assms intro: put_sections)
  show "refill_runs (ns_refills s) x9 \<Longrightarrow> runs (session_section c) a (s\<lparr>ns_refills := x9\<rparr>)"
    by (rule f [where sect = "\<lambda>t. refill_section" and get = ns_refills
        and put = "\<lambda>x. s\<lparr>ns_refills := x\<rparr>"]) (auto simp: assms intro: put_sections)
qed

lemma session_workers:
  assumes "runs (session_section c) a s"
    and "worker_runs (bc_worker_base c) (bc_worker_max c) (ns_workers s) x"
  shows "runs (session_section c) a (s\<lparr>ns_workers := x\<rparr>)"
proof -
  let ?s = "s\<lparr>ns_workers := (ns_workers s)\<lparr>wc_429 := wc_429 x\<rparr>\<rparr>"
  note f = field_runs [where big = "session_section c" and a = a]
  have 1: "runs (session_section c) a ?s"
    by (rule f [where get = "\<lambda>s. wc_429 (ns_workers s)" and s = s
          and sect = "cd_section (bc_worker_base c) (bc_worker_max c)"
          and put = "\<lambda>m. s\<lparr>ns_workers := (ns_workers s)\<lparr>wc_429 := m\<rparr>\<rparr>"])
      (use assms in \<open>auto simp: worker_runs_def intro: put_sections\<close>)
  have 2: "runs (cd_section (bc_worker_base c) (bc_worker_max c)) (wc_503 (ns_workers ?s)) (wc_503 x)"
    using assms(2) by (simp add: worker_runs_def)
  have "runs (session_section c) a (?s\<lparr>ns_workers := (ns_workers ?s)\<lparr>wc_503 := wc_503 x\<rparr>\<rparr>)"
    by (rule f [where get = "\<lambda>s. wc_503 (ns_workers s)" and s = ?s
          and put = "\<lambda>m. ?s\<lparr>ns_workers := (ns_workers ?s)\<lparr>wc_503 := m\<rparr>\<rparr>"])
      (use 1 in simp, rule 2, erule put_sections)
  moreover have "(ns_workers s)\<lparr>wc_429 := wc_429 x, wc_503 := wc_503 x\<rparr> = x" by simp
  ultimately show ?thesis by (simp del: worker_cd.update_convs)
qed

text \<open>A session whose effect on each component is a run of sections is one.\<close>

lemma session_runs_sections: "session_runs c a b \<Longrightarrow> runs (session_section c) a b"
proof -
  assume r: "session_runs c a b"
  then have "b = a\<lparr>ns_skip := ns_skip b, ns_bal := ns_bal b, ns_workers := ns_workers b,
      ns_proxies := ns_proxies b, ns_ws_pool := ns_ws_pool b, ns_cf_pool := ns_cf_pool b,
      ns_learned := ns_learned b, ns_stats := ns_stats b, ns_refills := ns_refills b,
      ns_no_data := ns_no_data b, ns_warned := ns_warned b\<rparr>" (is "_ = ?b")
    by (simp add: session_runs_def)
  moreover have "runs (session_section c) a ?b"
    using r by (intro session_fields session_workers) (simp_all add: session_runs_def)
  ultimately show ?thesis by simp
qed

section \<open>The operations of a session\<close>

text \<open>An update of one component by one of its runs.\<close>

lemma session_runs_upd [simp]:
  "session_runs c a s \<Longrightarrow> session_runs c a (s\<lparr>ns_skip := x1\<rparr>) = runs (skip_section (bc_skip c)) (ns_skip a) x1"
  "session_runs c a s \<Longrightarrow> session_runs c a (s\<lparr>ns_bal := x2\<rparr>) = bal_runs (ns_bal a) x2"
  "session_runs c a s \<Longrightarrow> session_runs c a (s\<lparr>ns_workers := x3\<rparr>) =
     worker_runs (bc_worker_base c) (bc_worker_max c) (ns_workers a) x3"
  "session_runs c a s \<Longrightarrow> session_runs c a (s\<lparr>ns_proxies := x4\<rparr>) =
     runs (cd_section (bc_proxy_base c) (bc_proxy_max c)) (ns_proxies a) x4"
  "session_runs c a s \<Longrightarrow> session_runs c a (s\<lparr>ns_ws_pool := x5\<rparr>) =
     runs (pool_section (bc_ws_pool c)) (ns_ws_pool a) x5"
  "session_runs c a s \<Longrightarrow> session_runs c a (s\<lparr>ns_cf_pool := x6\<rparr>) =
     runs (pool_section (bc_cf_pool c)) (ns_cf_pool a) x6"
  "session_runs c a s \<Longrightarrow> session_runs c a (s\<lparr>ns_learned := x7\<rparr>) = learned_runs (ns_learned a) x7"
  "session_runs c a s \<Longrightarrow> session_runs c a (s\<lparr>ns_stats := x8\<rparr>) = count_runs (ns_stats a) x8"
  "session_runs c a s \<Longrightarrow> session_runs c a (s\<lparr>ns_refills := x9\<rparr>) = refill_runs (ns_refills a) x9"
  "session_runs c a s \<Longrightarrow> session_runs c a (s\<lparr>ns_no_data := x10\<rparr>) =
     runs (ttl_section NO_DATA_LOG_EVERY) (ns_no_data a) x10"
  "session_runs c a s \<Longrightarrow> session_runs c a (s\<lparr>ns_warned := x11\<rparr>) =
     runs (ttl_section PASSTHROUGH_WARN_EVERY) (ns_warned a) x11"
  by (simp_all add: session_runs_def)

lemma session_parts [section_simps]:
  assumes "session_runs c a s"
  shows "runs (skip_section (bc_skip c)) (ns_skip a) (ns_skip s)" "bal_runs (ns_bal a) (ns_bal s)"
    "worker_runs (bc_worker_base c) (bc_worker_max c) (ns_workers a) (ns_workers s)"
    "runs (cd_section (bc_proxy_base c) (bc_proxy_max c)) (ns_proxies a) (ns_proxies s)"
    "runs (pool_section (bc_ws_pool c)) (ns_ws_pool a) (ns_ws_pool s)"
    "runs (pool_section (bc_cf_pool c)) (ns_cf_pool a) (ns_cf_pool s)"
    "learned_runs (ns_learned a) (ns_learned s)" "count_runs (ns_stats a) (ns_stats s)"
    "refill_runs (ns_refills a) (ns_refills s)"
    "runs (ttl_section NO_DATA_LOG_EVERY) (ns_no_data a) (ns_no_data s)"
    "runs (ttl_section PASSTHROUGH_WARN_EVERY) (ns_warned a) (ns_warned s)"
  using assms by (simp_all add: session_runs_def)

lemma ws_end_runs [section_simps]:
  "session_runs c a s \<Longrightarrow> session_runs c a (snd (ws_up c x r target dc m s))"
  "session_runs c a s \<Longrightarrow> session_runs c a (snd (ws_down c w target dc m b t s))"
  by (simp_all add: ws_up_def ws_down_def Let_def section_simps)

lemma take_pool_runs [section_simps]:
  "session_runs c a s \<Longrightarrow> session_runs c a (snd (take_ws_pool c w dc m s))"
  "session_runs c a s \<Longrightarrow> session_runs c a (snd (take_cf_pool c w dc m s))"
  by (auto simp: take_ws_pool_def take_cf_pool_def case_prod_unfold section_simps)

lemma try_direct_runs [section_simps]:
  "session_runs c a s \<Longrightarrow> session_runs c a (snd (try_direct c w target dc m s))"
  by (simp add: try_direct_def try_dials_def case_prod_unfold Let_def section_simps split: sum.split)

lemma try_ws_bridge_runs [section_simps]:
  "session_runs c a s \<Longrightarrow> session_runs c a (snd (try_ws_bridge c w dc m ip s))"
  by (simp add: try_ws_bridge_def case_prod_unfold Let_def section_simps split: option.split)

lemma direct_rung_runs [section_simps]:
  "session_runs c a s \<Longrightarrow> session_runs c a (snd (direct_rung c w clk dc m ip s))"
  by (simp add: direct_rung_def case_prod_unfold section_simps split: bool.split ws_result.split)

lemma worker_up_runs [section_simps]:
  "session_runs c a s \<Longrightarrow> session_runs c a (snd (worker_up c r dc m ip s))"
  by (simp add: worker_up_def section_simps)

lemma try_workers_runs [section_simps]:
  "session_runs c a s \<Longrightarrow> session_runs c a (snd (try_workers c w clk dst dc m ip ws s))"
  by (induction ws arbitrary: clk s)
    (auto simp: case_prod_unfold section_simps split: dial.split)

lemma finish_runs [section_simps]:
  "session_runs c a s \<Longrightarrow> session_runs c a (snd (finish_cf_proxy_connect c w dc m d s))"
  by (simp add: finish_cf_proxy_connect_def case_prod_unfold Let_def section_simps split: option.split sum.split)

lemma race_runs [section_simps]: "session_runs c a s \<Longrightarrow> session_runs c a (snd (race c w dc m ds s))"
  by (induction ds arbitrary: s) (auto simp: case_prod_unfold section_simps split: option.split)

lemma drain_runs [section_simps]: "session_runs c a s \<Longrightarrow> session_runs c a (drain c w dc m ds s)"
  by (induction ds arbitrary: s) (simp_all add: drain_def section_simps)

lemma proxy_end_runs [section_simps]:
  "session_runs c a s \<Longrightarrow> session_runs c a (snd (proxy_up dc d s))"
  "session_runs c a s \<Longrightarrow> session_runs c a (snd (proxy_down dc n s))"
  by (simp_all add: proxy_up_def proxy_down_def section_simps)

lemma try_proxies_runs [section_simps]: "session_runs c a s \<Longrightarrow> session_runs c a (snd (try_proxies c w dc m s))"
  by (simp add: try_proxies_def case_prod_unfold Let_def section_simps split: list.split option.split)

lemma try_cf_dials_runs [section_simps]:
  "session_runs c a s \<Longrightarrow> session_runs c a (snd (try_cf_dials c w dc m ip s))"
  by (simp add: try_cf_dials_def case_prod_unfold section_simps split: option.split)

lemma try_cf_fallback_runs [section_simps]:
  "session_runs c a s \<Longrightarrow> session_runs c a (snd (try_cf_fallback c w dc m ip s))"
  by (simp add: try_cf_fallback_def case_prod_unfold section_simps split: option.split)

lemma try_tcp_runs: "session_runs c a s \<Longrightarrow> session_runs c a (snd (try_tcp c w clk dc ts s))"
  by (induction ts arbitrary: clk s) (auto simp: Let_def section_simps split: tcp_attempt.split)

lemma try_tcp_fallback_runs [section_simps]:
  "session_runs c a s \<Longrightarrow> session_runs c a (snd (try_tcp_fallback c w dc m ip s))"
  by (simp add: try_tcp_fallback_def case_prod_unfold try_tcp_runs section_simps)

lemma ladder_runs [section_simps]: "session_runs c a s \<Longrightarrow> session_runs c a (snd (ladder c w clk dc m ip s))"
  by (simp add: ladder_def case_prod_unfold section_simps split: option.split)

lemma resolve_dc_runs [section_simps]: "session_runs c a s \<Longrightarrow> session_runs c a (snd (resolve_dc ip hs s))"
  by (auto simp: resolve_dc_def section_simps split: option.split)

lemma passthrough_workers_runs [section_simps]:
  "session_runs c a s \<Longrightarrow> session_runs c a (snd (passthrough_workers c w clk cfg initial ip port ws s))"
proof (induction ws arbitrary: clk s)
  case (Cons x xs)
  have relay: "session_runs c a (snd (relay_via_worker w t initial x ip port s'))" if "session_runs c a s'" for t s'
    using that by (simp add: relay_via_worker_def warn_no_data_def case_prod_unfold Let_def section_simps)
  with Cons show ?case by (auto simp: case_prod_unfold section_simps split: dial.split bool.split)
qed simp

lemma try_worker_passthrough_runs [section_simps]:
  "session_runs c a s \<Longrightarrow> session_runs c a (snd (try_worker_passthrough c w ip port initial s))"
  by (simp add: try_worker_passthrough_def case_prod_unfold Let_def section_simps)

lemma front_exchange_runs:
  "front_exchange w ip port host p ts s = (t, e, s') \<Longrightarrow> session_runs c a s \<Longrightarrow> session_runs c a s'"
  by (auto simp: front_exchange_def case_prod_unfold warn_passthrough_def note_reply_def section_simps
      split: option.splits if_splits)

lemma front_relay_runs:
  "front_relay lc w ip port initial p s = Some (t, e, s') \<Longrightarrow> session_runs c a s \<Longrightarrow> session_runs c a s'"
  by (auto simp: front_relay_def Let_def elim!: front_exchange_runs split: bind_splits)

lemma blind_relay_runs:
  "blind_relay lc c w ip port raw s = Some (t, e, s') \<Longrightarrow> session_runs c a s \<Longrightarrow> session_runs c a s'"
  using try_worker_passthrough_runs [of c a "s\<lparr>ns_stats := inc BlindRelay (ns_stats s)\<rparr>" w ip port]
  by (auto simp: blind_relay_def Let_def case_prod_unfold section_simps dest!: front_relay_runs
      split: if_splits option.splits)

lemma relay_raw_runs:
  "relay_raw lc c w ip port st raw s = Some (e, s') \<Longrightarrow> session_runs c a s \<Longrightarrow> session_runs c a s'"
  by (auto simp: relay_raw_def dest: blind_relay_runs split: option.splits)

lemma handle_handshake_runs:
  assumes "handle_handshake ks lc c w bw clk draws hs p ip port s = Some (e, s')" and "session_runs c a s"
  shows "session_runs c a s'"
proof -
  define q where "q = resolve_dc ip hs s"
  define l where "l = ladder c w clk (hi_dc (fst q)) (hi_is_media (fst q)) ip (snd q)"
  have q: "session_runs c a (snd q)" and l: "session_runs c a (snd l)"
    using assms(2) by (simp_all add: q_def l_def section_simps)
  have lost: "session_runs c a s'" if "relay_raw lc c bw ip port st raw
      (snd l\<lparr>ns_stats := inc AllPathsFailed (ns_stats (snd l))\<rparr>) = Some (e, s')" for st raw
    using that by (rule relay_raw_runs) (use l in \<open>simp add: section_simps\<close>)
  show ?thesis
    using assms(1) q l
    by (auto simp: handle_handshake_def q_def [symmetric] l_def [symmetric] blind_relay_prefixed_def
        into_parts_def Let_def case_prod_unfold dest: lost relay_raw_runs
        split: option.splits sum.splits if_splits)
qed

lemma handle_conn_runs:
  assumes "handle_conn us ks lc c w bw i i2 clk draws dst st s = Some (e, s')" and "session_runs c a s"
  shows "session_runs c a s'"
  using assms
  by (auto simp: handle_conn_def case_prod_unfold section_simps dest: handle_handshake_runs relay_raw_runs
      split: option.splits if_splits parsed_init.splits)

section \<open>The dials of the pools\<close>

lemma ws_dial_runs [section_simps]:
  "runs (skip_section c) a s \<Longrightarrow> runs (skip_section c) a (snd (ws_pool_connect st dial dc m hint s))"
  by (auto simp: ws_pool_connect_def Let_def section_simps split: option.split)

lemma cf_dial_loop_runs:
  "cf_dial_loop base mx clk up dc ws (b, w) = (r, b', w') \<Longrightarrow> bal_runs a b \<Longrightarrow> worker_runs base mx a' w \<Longrightarrow>
   bal_runs a b' \<and> worker_runs base mx a' w'"
  by (induction ws arbitrary: clk b w) (auto simp: case_prod_unfold section_simps split: dial.splits)

text \<open>The connector of the Worker pool, and its question whether there is a Worker.\<close>

lemma cf_dial_runs:
  assumes "cf_pool_connect base mx now clk up dc rr (b, w) = ((r, b', w'), rr')"
    and "bal_runs a b" and "worker_runs base mx a' w"
  shows "bal_runs a b' \<and> worker_runs base mx a' w'"
  using assms cf_dial_loop_runs [of base mx clk up dc _ _ _ r b' w' a a']
  by (auto simp: cf_pool_connect_def case_prod_unfold section_simps split: if_splits)

lemma cf_enabled_runs: "bal_runs a b \<Longrightarrow> bal_runs a (snd (cf_pool_enabled b))"
  by (simp add: cf_pool_enabled_def case_prod_unfold section_simps)

end
