(* ===== verification/Daemon.thy ===== *)
theory Daemon
  imports Sections
begin

text \<open>
  The daemon as a whole: its shared state from the start on, under every interleaving of the
  sections of its sessions and pool tasks with the reload on SIGHUP, itself a sequence of stores,
  and with the refresh of the proxy domains. Time passes between sections; a task that panics has
  run some of its sections. What a session computes from what it has read is in \<open>Session\<close> and
  \<open>Bridge\<close>; here it may do any section at any time, so that what holds of every state of this
  relation holds whatever the tasks do.
\<close>

section \<open>Start\<close>

definition init_net :: net_state where
  "init_net =
     \<lparr>ns_front = init_front, ns_skip = init_skip, ns_bal = init_balancer,
      ns_workers = no_cooldowns, ns_proxies = Map.empty, ns_ws_pool = Map.empty,
      ns_cf_pool = Map.empty, ns_learned = \<lparr>dl_learned = [], dl_file = []\<rparr>, ns_stats = init_stats,
      ns_refills = [], ns_no_data = ttl_new, ns_warned = ttl_new\<rparr>"

text \<open>\<open>main\<close> up to the accept loop: the configuration, the first proxy pool, the learned addresses.\<close>

definition boot ::
  "(string \<Rightarrow> string option) \<Rightarrow> wrtg_config \<Rightarrow> string list option \<Rightarrow> string list option \<Rightarrow> net_state" where
  "boot env cfg learned manual =
     (let s = startup env cfg init_net
      in s\<lparr>ns_learned := (ns_learned s)\<lparr>dl_learned := load_learned learned manual\<rparr>\<rparr>)"

section \<open>Reload\<close>

text \<open>The stores of a reload, in its order; \<open>set_worker_domains\<close> makes three.\<close>

datatype reload_action =
    SetFrontIp string
  | SetDcFrontIps "int \<rightharpoonup> string"
  | SetFrontDcs "int list"
  | StoreWorkers "string list"
  | ResetWorkerRr
  | ClearWorkerIdx
  | StoreProxies "string list"
  | LoadLearned "string list option" "string list option"

fun act :: "reload_action \<Rightarrow> net_state \<Rightarrow> net_state" where
  "act (SetFrontIp ip) s = s\<lparr>ns_front := set_front_ip ip (ns_front s)\<rparr>"
| "act (SetDcFrontIps m) s = s\<lparr>ns_front := set_dc_front_ips m (ns_front s)\<rparr>"
| "act (SetFrontDcs dcs) s = s\<lparr>ns_front := set_front_dcs dcs (ns_front s)\<rparr>"
| "act (StoreWorkers ds) s = s\<lparr>ns_bal := (ns_bal s)\<lparr>ba_workers := ds\<rparr>\<rparr>"
| "act ResetWorkerRr s = s\<lparr>ns_bal := (ns_bal s)\<lparr>ba_worker_rr := 0\<rparr>\<rparr>"
| "act ClearWorkerIdx s = s\<lparr>ns_bal := (ns_bal s)\<lparr>ba_worker_idx := Map.empty\<rparr>\<rparr>"
| "act (StoreProxies ds) s = s\<lparr>ns_bal := set_proxy_domains ds (ns_bal s)\<rparr>"
| "act (LoadLearned learned manual) s = s\<lparr>ns_learned := (ns_learned s)\<lparr>dl_learned := load_learned learned manual\<rparr>\<rparr>"

text \<open>The proxy pool is read before the first store and written by the last but one.\<close>

definition apply_actions :: "wrtg_config \<Rightarrow> reload_action list" where
  "apply_actions cfg =
     [SetFrontIp (wc_front_ip cfg), SetDcFrontIps (wc_dc_front_ips cfg), SetFrontDcs (wc_front_dcs cfg),
      StoreWorkers (wc_worker_domains cfg), ResetWorkerRr, ClearWorkerIdx, StoreProxies (wc_proxy_domains cfg)]"

definition reload_actions ::
  "(string \<Rightarrow> string option) \<Rightarrow> string option \<Rightarrow> string list option \<Rightarrow> string list option \<Rightarrow> string list
   \<Rightarrow> reload_action list" where
  "reload_actions env file learned manual live_pool =
     (let m = import_config_file file;
          cfg = load_from m;
          auto = (\<not> cf_fallback_disabled env \<and> cfproxy_auto_decision (m ''WRTG_CFPROXY_AUTO''))
      in apply_actions cfg
         @ [StoreProxies (proxy_pool_after_reload (wc_proxy_domains cfg) live_pool auto),
            LoadLearned learned manual])"

lemma apply_alone: "fold act (apply_actions cfg) s = apply_config cfg s"
  by (simp add: apply_actions_def apply_config_def set_worker_domains_def set_proxy_domains_def)

text \<open>The stores, with nothing in between, are the reload of \<open>Config\<close>.\<close>

lemma reload_alone:
  "fold act (reload_actions env file learned manual (ba_proxies (ns_bal s))) s =
     reload_from_file env file learned manual s"
  by (simp add: reload_actions_def reload_from_file_def Let_def apply_alone)

section \<open>Runs\<close>

text \<open>
  The state \<open>s\<close> at the instant \<open>t\<close>, with the stores \<open>p\<close> a reload has still to make. \<open>files\<close> are the
  contents a reload may find. The environment does not change while the daemon runs; reloads run
  one at a time, in the task that receives the signals.
\<close>

inductive daemon ::
  "(string option \<Rightarrow> bool) \<Rightarrow> nat \<Rightarrow> (string \<Rightarrow> string option) \<Rightarrow> nat \<Rightarrow> reload_action list \<Rightarrow> net_state \<Rightarrow> bool"
  for files us env where
  started: "parse_cli env file args = CliRun cfg \<Longrightarrow> daemon files us env t [] (boot env cfg learned manual)"
| later: "daemon files us env t p s \<Longrightarrow> t \<le> t' \<Longrightarrow> daemon files us env t' p s"
| sectioned: "daemon files us env t p s \<Longrightarrow> u \<le> t \<Longrightarrow> session_section (bridge_cfg_of us env) u s s' \<Longrightarrow>
    daemon files us env t p s'"
| accepted: "daemon files us env t p s \<Longrightarrow>
    daemon files us env t p (s\<lparr>ns_stats := enter_active (inc Accepted (ns_stats s))\<rparr>)"
| closed: "daemon files us env t p s \<Longrightarrow> daemon files us env t p (s\<lparr>ns_stats := leave_active (ns_stats s)\<rparr>)"
| refreshed: "daemon files us env t p s \<Longrightarrow>
    daemon files us env t p (s\<lparr>ns_bal := refresh_cfproxy_domains env body (ns_bal s)\<rparr>)"
| hangup: "daemon files us env t [] s \<Longrightarrow> files conf \<Longrightarrow>
    daemon files us env t (reload_actions env conf learned manual (ba_proxies (ns_bal s))) s"
| reloading: "daemon files us env t (a # p) s \<Longrightarrow> daemon files us env t p (act a s)"

text \<open>Reachability is a property its sections keep.\<close>

interpretation reach: timed_cell "session_section (bridge_cfg_of us env)" "\<lambda>t. daemon files us env t p"
  for files us env p
  by unfold_locales (auto intro: later sectioned)

lemma stores_reach: "daemon files us env t (ps @ p) s \<Longrightarrow> daemon files us env t p (fold act ps s)"
  by (induction ps arbitrary: s) (auto dest: reloading)


section \<open>The state of a running daemon\<close>

text \<open>A front configuration: valid datacenters, each once, in order.\<close>

definition front_dcs_ok :: "int list \<Rightarrow> bool" where
  "front_dcs_ok dcs \<longleftrightarrow> sorted dcs \<and> distinct dcs \<and> list_all valid_dc dcs"

definition daemon_ok :: "nat \<Rightarrow> (string \<Rightarrow> string option) \<Rightarrow> nat \<Rightarrow> net_state \<Rightarrow> bool" where
  "daemon_ok us env t s \<longleftrightarrow>
     front_dcs_ok (fs_front_dcs (ns_front s))
     \<and> pool_ok (ba_proxies (ns_bal s)) \<and> pool_ok (ba_workers (ns_bal s))
     \<and> learned_ok (dl_learned (ns_learned s))
     \<and> slots_ok (ws_pool_size us env) (ns_ws_pool s) \<and> slots_ok (cf_pool_size us env) (ns_cf_pool s)
     \<and> skip_bounded (skip_config_of env) t (ns_skip s)
     \<and> cd_bounded (worker_max_cooldown env) t (wc_429 (ns_workers s))
     \<and> cd_bounded (worker_max_cooldown env) t (wc_503 (ns_workers s))
     \<and> cd_bounded (proxy_max_cooldown env) t (ns_proxies s)
     \<and> ttl_bounded NO_DATA_LOG_EVERY t (ns_no_data s) \<and> ttl_bounded PASSTHROUGH_WARN_EVERY t (ns_warned s)"

lemma bridge_cfg_simps [simp]:
  "bc_skip (bridge_cfg_of us env) = skip_config_of env"
  "bc_ws_pool (bridge_cfg_of us env) = ws_pool_cfg us env"
  "bc_cf_pool (bridge_cfg_of us env) = cf_pool_cfg us env"
  "bc_worker_max (bridge_cfg_of us env) = worker_max_cooldown env"
  "bc_proxy_max (bridge_cfg_of us env) = proxy_max_cooldown env"
  "bc_max_attempts (bridge_cfg_of us env) = max_cf_proxy_attempts us env"
  "pc_size (ws_pool_cfg us env) = ws_pool_size us env" "pc_size (cf_pool_cfg us env) = cf_pool_size us env"
  by (simp_all add: bridge_cfg_of_def ws_pool_cfg_def cf_pool_cfg_def)

lemma session_section_ok:
  "session_section (bridge_cfg_of us env) u s s' \<Longrightarrow> u \<le> t \<Longrightarrow> daemon_ok us env t s \<Longrightarrow> daemon_ok us env t s'"
proof (induction rule: session_section.induct)
  case (ws_pool sl)
  then show ?case using pool_section_ok [OF ws_pool(1)] by (simp add: daemon_ok_def)
next
  case (cf_pool sl)
  then show ?case using pool_section_ok [OF cf_pool(1)] by (simp add: daemon_ok_def)
qed (simp_all add: daemon_ok_def skips.sect_good cooldowns.sect_good marks.sect_good bal_section_pools
    learned_section_ok)

lemma daemon_ok_later: "daemon_ok us env u s \<Longrightarrow> u \<le> t \<Longrightarrow> daemon_ok us env t s"
  by (auto simp: daemon_ok_def elim: skips.good_later cooldowns.good_later marks.good_later)

interpretation sessions: timed_cell "session_section (bridge_cfg_of us env)" "daemon_ok us env" for us env
  by unfold_locales (fact session_section_ok daemon_ok_later)+

lemma whole_session_ok:
  "handle_conn us ks lc (bridge_cfg_of us env) w bw i i2 clk draws dst st s = Some (e, s') \<Longrightarrow>
   daemon_ok us env t s \<Longrightarrow> \<exists>t' \<ge> t. daemon_ok us env t' s'"
  by (rule sessions.runs_good [OF session_runs_sections [OF handle_conn_runs [OF _ session_runs_refl]]])

text \<open>A configuration, wherever it comes from.\<close>

definition config_ok :: "wrtg_config \<Rightarrow> bool" where
  "config_ok cfg \<longleftrightarrow>
     front_dcs_ok (wc_front_dcs cfg) \<and> pool_ok (wc_proxy_domains cfg) \<and> pool_ok (wc_worker_domains cfg)"

lemma load_from_ok: "config_ok (load_from get)"
  by (simp add: config_ok_def load_from_def Let_def front_dcs_ok_def front_dcs_sorted
      load_proxy_domains_with_def load_worker_domains_with_def normalize_pool_ok)

lemma cli_loop_ok: "config_ok cfg \<Longrightarrow> cli_loop check args cfg = CliRun cfg' \<Longrightarrow> config_ok cfg'"
proof (induction check args cfg rule: cli_loop.induct)
  case (2 check arg args cfg)
  then show ?case
    by (cases args) (auto simp: Let_def config_ok_def simp del: cli_loop.simps(1) split: if_splits
        simp: cli_loop.simps)
qed (auto split: if_splits)

lemma parse_cli_ok: "parse_cli env file args = CliRun cfg \<Longrightarrow> config_ok cfg"
  by (auto simp: parse_cli_def Let_def intro: cli_loop_ok load_from_ok)


text \<open>The stores of a reload.\<close>

fun action_ok :: "reload_action \<Rightarrow> bool" where
  "action_ok (SetFrontDcs dcs) \<longleftrightarrow> front_dcs_ok dcs"
| "action_ok (StoreWorkers ds) \<longleftrightarrow> pool_ok ds"
| "action_ok (StoreProxies ds) \<longleftrightarrow> pool_ok ds"
| "action_ok a \<longleftrightarrow> True"

lemma act_ok: "action_ok a \<Longrightarrow> daemon_ok us env t s \<Longrightarrow> daemon_ok us env t (act a s)"
  by (cases a) (simp_all add: daemon_ok_def set_front_ip_def set_dc_front_ips_def set_front_dcs_def
      set_proxy_domains_def load_learned_ok)

lemma acts_ok: "list_all action_ok p \<Longrightarrow> daemon_ok us env t s \<Longrightarrow> daemon_ok us env t (fold act p s)"
  by (induction p arbitrary: s) (simp_all add: act_ok)

lemma apply_actions_ok: "config_ok cfg \<Longrightarrow> list_all action_ok (apply_actions cfg)"
  by (simp add: apply_actions_def config_ok_def)

lemma reload_actions_ok:
  "pool_ok live \<Longrightarrow> list_all action_ok (reload_actions env file learned manual live)"
  using load_from_ok [of "import_config_file file"]
  by (simp add: reload_actions_def Let_def apply_actions_ok)
    (simp add: proxy_pool_after_reload_def config_ok_def default_pool_ok)

lemma init_net_ok: "daemon_ok us env t init_net"
  by (simp add: daemon_ok_def init_net_def init_front_def front_dcs_ok_def DEFAULT_FRONT_DCS_def
      valid_dc_def       init_balancer_def pool_ok_def learned_ok_def slots_ok_def conns_def init_skip_def skip_bounded_def
      ttl_bounded_def ttl_new_def no_cooldowns_def cd_bounded_def)

lemma boot_ok: "config_ok cfg \<Longrightarrow> daemon_ok us env t (boot env cfg learned manual)"
  using acts_ok [OF apply_actions_ok init_net_ok, of cfg us env t]
  by (auto simp: apply_alone boot_def startup_def Let_def daemon_ok_def load_learned_ok
      seed_default_cfproxy_domains_def set_proxy_domains_def default_pool_ok)

lemma refresh_ok: "daemon_ok us env t s \<Longrightarrow>
   daemon_ok us env t (s\<lparr>ns_bal := refresh_cfproxy_domains env body (ns_bal s)\<rparr>)"
  by (auto simp: daemon_ok_def refresh_cfproxy_domains_def set_proxy_domains_def Let_def normalize_pool_ok)

lemma daemon_always_ok: "daemon files us env t p s \<Longrightarrow> daemon_ok us env t s \<and> list_all action_ok p"
proof (induction rule: daemon.induct)
  case (started fl args cfg t learned manual)
  then show ?case by (simp add: boot_ok parse_cli_ok)
next
  case (hangup t s fl learned manual)
  then have "pool_ok (ba_proxies (ns_bal s))" by (simp add: daemon_ok_def)
  with hangup show ?case by (simp add: reload_actions_ok)
qed (auto simp: act_ok refresh_ok elim: sessions.good_later sessions.sect_good, simp_all add: daemon_ok_def)

text \<open>
  C7: However the sections of sessions, pool tasks, reloads and refreshes interleave, the shared
  state stays well formed: the fronted datacenters exist and are listed once and in order, every
  Worker and every proxy domain is a valid lower-case domain name listed once, every learned address
  has one valid datacenter, no slot of a pool holds more connections than the pool's size (at most 8
  for the direct pool and 4 for the Workers'), and no failure, cooldown or warning is remembered for
  longer than its configured time from now.
\<close>

theorem daemon_state_ok:
  assumes "daemon files us env t p s"
  shows "daemon_ok us env t s \<and> ws_pool_size us env \<in> {1..8} \<and> cf_pool_size us env \<in> {1..4}"
  using daemon_always_ok [OF assms] by (simp add: ws_pool_size_def cf_pool_size_def)

section \<open>Failures are forgotten\<close>

text \<open>The longest time for which any failure counts; with the default settings an hour.\<close>

definition forget_after :: "(string \<Rightarrow> string option) \<Rightarrow> nat" where
  "forget_after env =
     Max {ip_cooldown env, dc_fail_cooldown env, blacklist_ttl env, fronting_cooldown env,
          worker_max_cooldown env, proxy_max_cooldown env}"

lemma forget_after_ge:
  "ip_cooldown env \<le> forget_after env" "dc_fail_cooldown env \<le> forget_after env"
  "blacklist_ttl env \<le> forget_after env" "fronting_cooldown env \<le> forget_after env"
  "worker_max_cooldown env \<le> forget_after env" "proxy_max_cooldown env \<le> forget_after env"
  by (simp_all add: forget_after_def)

lemma skip_config_simps [simp]:
  "sc_ip_cooldown (skip_config_of env) = ip_cooldown env"
  "sc_dc_cooldown (skip_config_of env) = dc_fail_cooldown env"
  "sc_blacklist_ttl (skip_config_of env) = blacklist_ttl env"
  "sc_fronting_cooldown (skip_config_of env) = fronting_cooldown env"
  "sc_ws_timeout (skip_config_of env) = ws_timeout_normal env"
  "sc_fronting_sni (skip_config_of env) = fronting_sni env"
  by (simp_all add: skip_config_of_def)

lemma skips_lapsed:
  assumes "skip_bounded (skip_config_of env) t sk" and "t + forget_after env \<le> u"
  shows "\<not> ttl_active (sk_ip_fail sk) u k1" "\<not> ttl_active (sk_dc_fail sk) u k2"
    "\<not> ttl_active (sk_blacklist sk) u k2" "\<not> ttl_active (sk_fronting_fail sk) u k1"
  using assms forget_after_ge [of env] ttl_lapsed [of _ t _ u] by (fastforce simp: skip_bounded_def)+

lemma workers_lapsed:
  assumes "cd_bounded mx t (wc_429 wc)" and "cd_bounded mx t (wc_503 wc)" and "t + mx \<le> u"
  shows "fst (usable_workers mx u ws wc) = (ws, 0)"
  using assms by (simp add: usable_workers_exact(1) worker_limited_def cd_lapsed)

text \<open>
  C10: No failure counts forever: whatever happened to the daemon, once \<open>forget_after\<close> has passed a
  session finds everything usable again. It does not skip the direct WebSocket and gives it the
  full timeout, it tries fronting when fronting is on, and it leaves out no Worker and no proxy
  domain.
\<close>

theorem failures_forgotten:
  assumes "daemon files us env t p s" and "t + forget_after env \<le> u" and "u \<le> v"
  shows "\<not> fst (should_skip_ws (ns_front s) u v dc m ip (ns_skip s))
    \<and> fst (ws_connect_timeout (skip_config_of env) u dc m (ns_skip s)) = ws_timeout_normal env
    \<and> (fst (should_skip_fronting (skip_config_of env) u target dc (ns_skip s)) \<longleftrightarrow>
         target = '''' \<or> fronting_sni env = None)
    \<and> fst (usable_workers (worker_max_cooldown env) u ws (ns_workers s)) = (ws, 0)
    \<and> fst (cf_proxy_cooldown_remaining (proxy_max_cooldown env) u d (ns_proxies s)) = 0"
proof -
  have ok: "daemon_ok us env t s" using daemon_always_ok [OF assms(1)] by blast
  then have sk: "skip_bounded (skip_config_of env) t (ns_skip s)" by (simp add: daemon_ok_def)
  have "t + forget_after env \<le> v" using assms by simp
  note lapsed = skips_lapsed [OF sk assms(2)] skips_lapsed [OF sk this]
  have "t + worker_max_cooldown env \<le> u" "t + proxy_max_cooldown env \<le> u"
    using assms(2) forget_after_ge [of env] by linarith+
  then show ?thesis
    using ok lapsed workers_lapsed [of "worker_max_cooldown env" t "ns_workers s" u ws]
    by (auto simp: daemon_ok_def cf_proxy_cooldown_remaining_def cd_lapsed should_skip_ws_def
        ws_blacklisted_def should_skip_direct_ws_def ws_connect_timeout_def should_skip_fronting_def
        fronting_enabled_def case_prod_unfold split: bool.split)
qed

section \<open>One configuration at a time\<close>

text \<open>The settings a reload replaces besides the proxy pool, and those of a configuration.\<close>

definition settings :: "net_state \<Rightarrow> front_state \<times> string list" where
  "settings s = (ns_front s, ba_workers (ns_bal s))"

definition settings_of :: "wrtg_config \<Rightarrow> front_state \<times> string list" where
  "settings_of cfg =
     (\<lparr>fs_front_ip = wc_front_ip cfg, fs_dc_front_ips = wc_dc_front_ips cfg, fs_front_dcs = wc_front_dcs cfg\<rparr>,
      wc_worker_domains cfg)"

lemma settings_act:
  "settings (act a s) =
     (case a of
        SetFrontIp ip \<Rightarrow> (set_front_ip ip (fst (settings s)), snd (settings s))
      | SetDcFrontIps m \<Rightarrow> (set_dc_front_ips m (fst (settings s)), snd (settings s))
      | SetFrontDcs dcs \<Rightarrow> (set_front_dcs dcs (fst (settings s)), snd (settings s))
      | StoreWorkers ds \<Rightarrow> (fst (settings s), ds)
      | _ \<Rightarrow> settings s)"
  by (cases a) (simp_all add: settings_def set_proxy_domains_def)

lemma act_settings: "settings s = settings s' \<Longrightarrow> settings (act a s) = settings (act a s')"
  unfolding settings_act by (cases a) simp_all

lemma acts_settings: "settings s = settings s' \<Longrightarrow> settings (fold act p s) = settings (fold act p s')"
proof (induction p arbitrary: s s')
  case (Cons a p)
  from Cons.IH [OF act_settings [OF Cons.prems]] show ?case by simp
qed simp

lemma apply_settings: "settings (apply_config cfg s) = settings_of cfg"
  by (simp add: settings_def settings_of_def apply_config_def set_front_dcs_def set_dc_front_ips_def
      set_front_ip_def set_proxy_domains_def set_worker_domains_def)

lemma section_settings: "session_section c u s s' \<Longrightarrow> settings s' = settings s"
  by (induction rule: session_section.induct) (simp_all add: settings_def bal_section_pools)

lemma reload_settings:
  "settings (fold act (reload_actions env file learned manual live) s) =
     settings_of (load_from (import_config_file file))"
  by (simp add: reload_actions_def Let_def apply_alone)
    (simp add: settings_def set_proxy_domains_def apply_settings [unfolded settings_def])

text \<open>
  C11: The daemon never runs a mixture of configurations: between reloads the fronts, their
  datacenters and the Workers are those of one configuration, that of the start or of a file a
  reload found, whatever sessions and tasks do; and while a reload is under way, its remaining
  stores complete one.
\<close>

theorem config_never_torn:
  assumes "daemon files us env t p s"
  shows "\<exists>cfg. ((\<exists>file args. parse_cli env file args = CliRun cfg)
      \<or> (\<exists>file. files file \<and> cfg = load_from (import_config_file file)))
    \<and> settings (fold act p s) = settings_of cfg"
  using assms
proof (induction rule: daemon.induct)
  case (started fl args cfg t learned manual)
  then have "settings (fold act [] (boot env cfg learned manual)) = settings_of cfg"
    using apply_settings [of cfg init_net]
    by (simp add: settings_def boot_def startup_def Let_def seed_default_cfproxy_domains_def set_proxy_domains_def)
  with started show ?case by blast
next
  case (sectioned t p s u s')
  then show ?case using acts_settings [OF section_settings [OF sectioned(3)], of p] by simp
next
  case (accepted t p s)
  have "settings (s\<lparr>ns_stats := enter_active (inc Accepted (ns_stats s))\<rparr>) = settings s" by (simp add: settings_def)
  from acts_settings [OF this, of p] accepted.IH show ?case by simp
next
  case (closed t p s)
  have "settings (s\<lparr>ns_stats := leave_active (ns_stats s)\<rparr>) = settings s" by (simp add: settings_def)
  from acts_settings [OF this, of p] closed.IH show ?case by simp
next
  case (refreshed t p s body)
  have "settings (s\<lparr>ns_bal := refresh_cfproxy_domains env body (ns_bal s)\<rparr>) = settings s"
    by (simp add: settings_def refresh_cfproxy_domains_def set_proxy_domains_def Let_def)
  from acts_settings [OF this, of p] refreshed.IH show ?case by simp
next
  case (hangup t s fl learned manual)
  then show ?case using reload_settings [of env fl learned manual] by blast
qed simp_all

section \<open>The proxy rung\<close>

lemma proxy_window:
  assumes "ba_proxies b \<noteq> []"
  shows "take (max_cf_proxy_attempts us env) (fst (proxy_domains_for_dc dc b)) \<noteq> []"
proof -
  have "fold push_new xs out \<noteq> []" if "out \<noteq> []" for xs out :: "string list"
    using that by (induction xs arbitrary: out) (auto simp: push_new_def)
  moreover have "rot n xs \<noteq> []" if "xs \<noteq> []" for n and xs :: "string list"
    using that by (metis length_0_conv length_rot)
  ultimately have "fst (proxy_domains_for_dc dc b) \<noteq> []"
    using assms by (simp add: proxy_order split: option.split)
  moreover have "0 < max_cf_proxy_attempts us env"
    by (simp add: max_cf_proxy_attempts_def split: option.split)
  ultimately show ?thesis by simp
qed

text \<open>A file that leaves the router a proxy domain: one it names, or the shared pool.\<close>

definition file_keeps_proxies :: "string option \<Rightarrow> bool" where
  "file_keeps_proxies file \<longleftrightarrow>
     load_proxy_domains_with (import_config_file file) \<noteq> []
     \<or> cfproxy_auto_decision (import_config_file file ''WRTG_CFPROXY_AUTO'')"

text \<open>The stores left to a reload whose last store of the pool is not empty.\<close>

definition refills_pool :: "reload_action list \<Rightarrow> bool" where
  "refills_pool p \<longleftrightarrow>
     (\<exists>q cfg ds l m. apply_actions cfg @ [StoreProxies ds, LoadLearned l m] = q @ p \<and> ds \<noteq> [])"

lemma refills_pool_Nil: "refills_pool []"
  unfolding refills_pool_def by (intro exI [of _ "apply_actions _ @ _"]) auto

lemma refills_pool_tl: "refills_pool (a # p) \<Longrightarrow> refills_pool p"
  unfolding refills_pool_def by (metis append.assoc append_Cons append_Nil)

lemma refills_pool_store:
  "refills_pool (StoreProxies ds # p) \<Longrightarrow> ds \<noteq> [] \<or> (\<exists>ds l m. ds \<noteq> [] \<and> p = [StoreProxies ds, LoadLearned l m])"
  by (auto simp: refills_pool_def apply_actions_def Cons_eq_append_conv)

lemma reload_refills_pool:
  "file_keeps_proxies file \<Longrightarrow> \<not> cf_fallback_disabled env \<Longrightarrow> refills_pool (reload_actions env file learned manual live)"
  unfolding refills_pool_def
  by (rule exI [of _ "[]"])
    (auto simp: reload_actions_def Let_def proxy_pool_after_reload_def file_keeps_proxies_def load_from_def
      default_domains)

lemma act_proxies:
  "ba_proxies (ns_bal (act a s)) = (case a of StoreProxies ds \<Rightarrow> ds | _ \<Rightarrow> ba_proxies (ns_bal s))"
  by (cases a) (simp_all add: set_proxy_domains_def)

lemma daemon_proxies:
  assumes "daemon file_keeps_proxies us env t p s" and "cfproxy_auto_enabled env"
  shows "refills_pool p
    \<and> (ba_proxies (ns_bal s) = [] \<longrightarrow> (\<exists>ds l m. ds \<noteq> [] \<and> p = [StoreProxies ds, LoadLearned l m]))"
  using assms(1)
proof (induction rule: daemon.induct)
  case (started fl args cfg t learned manual)
  then show ?case
    using assms(2) by (simp add: boot_def startup_def Let_def seed_default_cfproxy_domains_def
        set_proxy_domains_def default_domains refills_pool_Nil)
next
  case (sectioned t p s u s')
  then show ?case
    by (auto elim!: session_section.cases simp: bal_section_pools)
next
  case (refreshed t p s body)
  then show ?case
    by (auto simp: refresh_cfproxy_domains_def set_proxy_domains_def Let_def MIN_VALID_DOMAINS_def)
next
  case (hangup t s fl learned manual)
  moreover have "\<not> cf_fallback_disabled env"
    using assms(2) by (simp add: cfproxy_auto_enabled_def split: if_splits)
  ultimately show ?case by (simp add: reload_refills_pool)
next
  case (reloading t a p s)
  then show ?case
    by (auto simp: act_proxies refills_pool_tl dest: refills_pool_store split: reload_action.splits)
qed simp_all

text \<open>
  C9: A router on the shared proxy pool keeps its proxy rung: as long as each file that a reload
  finds names a proxy domain or leaves the shared pool on (an unreadable or an empty file does),
  every session of every datacenter has a proxy domain to try, whatever was reloaded, fetched, lost
  or failed before; only between the two stores of a reload the pool may be empty, and the next
  store fills it.
\<close>

theorem proxy_rung_kept:
  assumes "daemon file_keeps_proxies us env t p s" and "cfproxy_auto_enabled env"
  shows "take (bc_max_attempts (bridge_cfg_of us env)) (fst (proxy_domains_for_dc dc (ns_bal s))) \<noteq> []
    \<or> (\<exists>ds l m. ds \<noteq> [] \<and> p = [StoreProxies ds, LoadLearned l m])"
  using proxy_window [of "ns_bal s"] daemon_proxies [OF assms] by auto

section \<open>The Cloudflare rung takes the best path\<close>

text \<open>
  C6: From every state a daemon can reach, the Cloudflare rung of a session that nothing interrupts
  takes the best path there is: it connects exactly when some candidate able to connect exists, and
  by the first of them in the order pooled Worker connection, usable Workers in the order of the
  datacenter, primary proxy domain, other domains of the window in the order of their answers. Which
  one is a function of the state at the start of the rung: no attempt spoils a later candidate.
\<close>

theorem cf_rung_takes_best:
  assumes "daemon files us env t p s"
  shows "fst (try_cf_fallback c w dc m ip s) = cf_choice c w dc m ip s"
proof -
  have "pool_ok (ba_proxies (ns_bal s))" using daemon_always_ok [OF assms] by (simp add: daemon_ok_def)
  then show ?thesis by (intro cf_rung_choice pool_ok_keys)
qed

section \<open>A run\<close>

definition stock_env :: "string \<Rightarrow> string option" where
  "stock_env = (\<lambda>k. None)"

definition stock_state :: net_state where
  "stock_state = boot stock_env (load_from stock_env) None None"

lemma stock_shared:
  "ba_workers (ns_bal stock_state) = []" "ba_proxies (ns_bal stock_state) = default_cfproxy_domains"
  "ba_sticky (ns_bal stock_state) = Map.empty" "ba_proxy_idx (ns_bal stock_state) = Map.empty"
  "ba_proxy_rr (ns_bal stock_state) = 0" "ns_cf_pool stock_state = Map.empty"
  "ns_proxies stock_state = Map.empty"
  by (simp_all add: stock_state_def boot_def startup_def Let_def apply_config_def set_proxy_domains_def
        seed_default_cfproxy_domains_def set_worker_domains_def init_net_def init_balancer_def stock_env_def
        load_from_def load_worker_domains_with_def domains_of_def normalize_domain_pool_def
        cfproxy_auto_enabled_def cf_fallback_disabled_def flag_set_def
        user_proxy_domains_configured_def proxy_env_set_def cfproxy_auto_decision_def)

lemma stock_daemon: "daemon files us stock_env t [] stock_state"
  unfolding stock_state_def
proof (rule started)
  show "parse_cli stock_env None [] = CliRun (load_from stock_env)" by (simp add: parse_cli_def)
qed

lemma stock_auto: "cfproxy_auto_enabled stock_env"
  by (simp add: cfproxy_auto_enabled_def stock_env_def cf_fallback_disabled_def flag_set_def
      user_proxy_domains_configured_def proxy_env_set_def cfproxy_auto_decision_def)

lemma no_file_keeps_proxies: "file_keeps_proxies None"
  by (simp add: file_keeps_proxies_def import_config_file_def cfproxy_auto_decision_def)

lemma no_file_proxies:
  "import_config_file None = Map.empty" "wc_proxy_domains (load_from Map.empty) = []"
  by (simp_all add: load_from_def Let_def load_proxy_domains_with_def domains_of_def
      normalize_domain_pool_def import_config_file_def)

text \<open>A stock router between the stores of a reload.\<close>

definition half_reloaded :: net_state where
  "half_reloaded = fold act (apply_actions (load_from (import_config_file None))) stock_state"

lemma half_reload:
  "daemon file_keeps_proxies us stock_env t [StoreProxies default_cfproxy_domains, LoadLearned None None] half_reloaded"
proof -
  have "reload_actions stock_env None None None (ba_proxies (ns_bal stock_state)) =
      apply_actions (load_from (import_config_file None)) @ [StoreProxies default_cfproxy_domains, LoadLearned None None]"
    by (simp add: reload_actions_def Let_def no_file_proxies proxy_pool_after_reload_def stock_shared
        default_domains stock_env_def cf_fallback_disabled_def flag_set_def
        cfproxy_auto_decision_def)
  then show ?thesis
    unfolding half_reloaded_def 
    using hangup [OF stock_daemon, of file_keeps_proxies None us t None None] no_file_keeps_proxies
    by (metis stores_reach)
qed

text \<open>The pool is empty there: a session that looks just then has no proxy domain to try.\<close>

lemma reload_empties_pool: "fst (proxy_domains_for_dc dc (ns_bal half_reloaded)) = []"
  by (simp add: half_reloaded_def apply_alone apply_config_def set_proxy_domains_def no_file_proxies
      proxy_domains_for_dc_def ordered_domains_def case_prod_unfold split: option.split)

text \<open>A pool fetched while a reload is under way is lost: the reload stores the one it had read before.\<close>

lemma reload_drops_refresh:
  "ba_proxies (ns_bal (fold act (reload_actions env file learned manual live)
     (s\<lparr>ns_bal := refresh_cfproxy_domains env body (ns_bal s)\<rparr>))) =
   proxy_pool_after_reload (wc_proxy_domains (load_from (import_config_file file))) live
     (\<not> cf_fallback_disabled env \<and> cfproxy_auto_decision (import_config_file file ''WRTG_CFPROXY_AUTO''))"
  by (simp add: reload_actions_def Let_def set_proxy_domains_def)

text \<open>
  The refresh looks at the environment of the start, not at the file: once it succeeds, the proxy
  domains a reload took from a file are gone.
\<close>

lemma refresh_forgets_file:
  assumes "cfproxy_auto_enabled env" and "MIN_VALID_DOMAINS \<le> length (normalize_domain_pool (fetch_cfproxy_domains body))"
  shows "ba_proxies (refresh_cfproxy_domains env body (ns_bal (reload_from_file env file learned manual s))) =
    normalize_domain_pool (fetch_cfproxy_domains body)"
  using assms by (simp add: refresh_cfproxy_domains_def set_proxy_domains_def)


theorem daemon_state_ok_witness:
  "daemon_ok (2 ^ 32) stock_env 5 half_reloaded
   \<and> ws_pool_size (2 ^ 32) stock_env \<in> {1..8} \<and> cf_pool_size (2 ^ 32) stock_env \<in> {1..4}"
  by (rule daemon_state_ok [OF half_reload])

theorem proxy_rung_kept_witness:
  "take (bc_max_attempts (bridge_cfg_of (2 ^ 32) stock_env))
     (fst (proxy_domains_for_dc 1 (ns_bal (act (StoreProxies default_cfproxy_domains) half_reloaded)))) \<noteq> []"
  using proxy_rung_kept [OF reloading [OF half_reload [of "2 ^ 32" 0]] stock_auto] by simp

text \<open>A reload leaves the settings of the file, although sessions came in between.\<close>

theorem config_never_torn_witness:
  "\<exists>cfg. ((\<exists>file args. parse_cli stock_env file args = CliRun cfg)
      \<or> (\<exists>file. file_keeps_proxies file \<and> cfg = load_from (import_config_file file)))
    \<and> settings (fold act [StoreProxies default_cfproxy_domains, LoadLearned None None] half_reloaded) =
        settings_of cfg"
  by (rule config_never_torn [OF half_reload])

lemma stock_skip: "ns_skip stock_state = init_skip"
  by (simp add: stock_state_def boot_def startup_def Let_def apply_config_def init_net_def)

text \<open>An address that failed at the start is skipped then, and an hour later no more.\<close>

definition failed_state :: net_state where
  "failed_state = stock_state\<lparr>ns_skip :=
     mark_ip_failed (skip_config_of stock_env) 0 ''149.154.167.220'' 2 (ns_skip stock_state)\<rparr>"

lemma failed_daemon: "daemon files us stock_env 0 [] failed_state"
proof -
  have "skip_section (skip_config_of stock_env) 0 sk (mark_ip_failed (skip_config_of stock_env) 0 ip dc sk)"
    if "ip \<noteq> []" for ip dc sk
    using that skip_section.ip [OF ttl_section.marked_absent, of "skip_config_of stock_env" 0 sk "(ip, dc)"]
    by (simp add: mark_ip_failed_def)
  then show ?thesis
    unfolding failed_state_def
    by (intro sectioned [OF stock_daemon order_refl] session_section.skip) simp
qed

theorem failures_forgotten_witness:
  "fst (should_skip_ws (ns_front failed_state) 1 1 2 False '''' (ns_skip failed_state))
   \<and> \<not> fst (should_skip_ws (ns_front failed_state) (3600 * NANOS) (3600 * NANOS) 2 False '''' (ns_skip failed_state))"
proof
  have "ws_target_ip (ns_front stock_state) 2 [] = ''149.154.167.220''"
    by (simp add: stock_state_def boot_def startup_def Let_def apply_config_def set_front_ip_def
        set_dc_front_ips_def set_front_dcs_def load_from_def stock_env_def first_of_def load_front_dcs_with_def
        parse_dc_front_ips_with_def dc_ip_var_def ws_target_ip_def dc_front_ip_def front_applies_to_dc_def fold_dc_def
        trim_all_graphic is_graphic_def trim_matches_def trim_start_matches_def trim_end_matches_def)
  then show "fst (should_skip_ws (ns_front failed_state) 1 1 2 False '''' (ns_skip failed_state))"
    by (simp add: failed_state_def stock_skip should_skip_ws_def ws_blacklisted_def should_skip_direct_ws_def
        init_skip_def mark_ip_failed_def ttl_mark_if_absent_def ttl_is_active_def ttl_new_def
        skip_config_of_def ip_cooldown_def env_u64_def stock_env_def secs_def NANOS_def)
  have "forget_after stock_env = 3600 * NANOS"
    by (simp add: forget_after_def stock_env_def ip_cooldown_def dc_fail_cooldown_def blacklist_ttl_def
        fronting_cooldown_def worker_max_cooldown_def proxy_max_cooldown_def env_u64_def env_secs_pos_def secs_def)
  then show "\<not> fst (should_skip_ws (ns_front failed_state) (3600 * NANOS) (3600 * NANOS) 2 False '''' (ns_skip failed_state))"
    using failures_forgotten [OF failed_daemon, of "3600 * NANOS" "3600 * NANOS"] by simp
qed

text \<open>One of the shared domains answers, after the first one failed.\<close>

definition shared_world :: world where
  "shared_world = sample_world\<lparr>wo_con := (\<lambda>dial sni. if sni = ''kws1.cakeisalie.co.uk'' then Inr () else Inl WsTimeout)\<rparr>"

theorem cf_rung_takes_best_witness:
  "fst (try_cf_fallback sample_cfg shared_world 1 False '''' stock_state) = Some (ViaProxy ''cakeisalie.co.uk'')"
proof -
  note bal = stock_shared
  have ws: "fst (worker_domains_for_dc 1 (ns_bal stock_state)) = []"
    by (simp add: worker_domains_for_dc_def bal ordered_domains_def case_prod_unfold)
  have win: "take 3 (fst (proxy_domains_for_dc 1 (ns_bal stock_state))) =
      [''pclead.co.uk'', ''offshor.co.uk'', ''cakeisalie.co.uk'']"
    by (simp add: proxy_order bal proxy_cursor_def cursor_def rot_def default_domains upt_rec_numeral)
  have "fst (try_cf_fallback sample_cfg shared_world 1 False '''' stock_state) =
      cf_choice sample_cfg shared_world 1 False '''' stock_state"
    by (rule cf_rung_takes_best [OF stock_daemon])
  also have "\<dots> = Some (ViaProxy ''cakeisalie.co.uk'')"
    by (simp add: cf_choice_def sample_cfg_def pool_acquire_def bal cf_dial_choice_def ws
        proxy_trial_def win shared_world_def sample_world_def race_order_def proxy_able_def left_def
        connect_cf_proxy_ws_def cf_proxy_hosts_def cf_proxy_ws_domain_def cf_connect_domain_def
        transport_failure_def is_ws_http_status_def show_int_def fold_dc_def digit_char_def show_nat.simps
        char_of_def bit_simps)
  finally show ?thesis .
qed


end
