(* ===== verification/Watchdog.thy ===== *)
theory Watchdog
  imports Stats Pools
begin

text \<open>
  \<open>watchdog.rs\<close>: the accept loop. It takes a permit of the semaphore before it accepts, hands the
  permit to the task that serves the connection, and binds a new listening socket after a run of
  accept errors. The loop and the tasks it has started are a step relation; a closed semaphore
  never happens, since nothing closes it.
\<close>

section \<open>The loop\<close>

definition ACCEPT_ERROR_BACKOFF :: nat where "ACCEPT_ERROR_BACKOFF = NANOS div 5"
definition REBIND_AFTER_ERRORS :: nat where "REBIND_AFTER_ERRORS = 5"
definition REBIND_MAX_BACKOFF :: nat where "REBIND_MAX_BACKOFF = 30 * NANOS"
definition DEFAULT_MAX_CONNS :: nat where "DEFAULT_MAX_CONNS = 1024"

definition max_conns :: "nat \<Rightarrow> (string \<Rightarrow> string option) \<Rightarrow> nat" where
  "max_conns us env =
     (case env ''WRTG_MAX_CONNS'' of
        Some v \<Rightarrow> (case parse_unsigned us (trim v) of
                     Some n \<Rightarrow> if n > 0 then n else DEFAULT_MAX_CONNS
                   | None \<Rightarrow> DEFAULT_MAX_CONNS)
      | None \<Rightarrow> DEFAULT_MAX_CONNS)"

text \<open>
  The free permits, the tasks that hold one, whether the loop holds one while it accepts, the
  number of the listening socket, and the counters of the loop.
\<close>

record server =
  sv_permits :: nat
  sv_live :: nat
  sv_accepting :: bool
  sv_socket :: nat
  sv_errors :: nat
  sv_backoff :: nat
  sv_stats :: stats

definition serve_with_cap :: "nat \<Rightarrow> stats \<Rightarrow> server" where
  "serve_with_cap cap st =
     \<lparr>sv_permits = cap, sv_live = 0, sv_accepting = False, sv_socket = 0, sv_errors = 0,
      sv_backoff = ACCEPT_ERROR_BACKOFF, sv_stats = set_capacity cap st\<rparr>"

definition take_permit :: "server \<Rightarrow> server" where
  "take_permit s = s\<lparr>sv_permits := sv_permits s - 1, sv_accepting := True\<rparr>"

definition accept_ok :: "server \<Rightarrow> server" where
  "accept_ok s =
     s\<lparr>sv_errors := 0, sv_accepting := False, sv_live := sv_live s + 1,
       sv_stats := enter_active (inc Accepted (sv_stats s))\<rparr>"

text \<open>The error arm; \<open>rebound\<close> says whether a new socket could be bound. The time it sleeps.\<close>

definition accept_failed :: "bool \<Rightarrow> server \<Rightarrow> nat \<times> server" where
  "accept_failed rebound s =
     (let s = s\<lparr>sv_permits := sv_permits s + 1, sv_accepting := False, sv_errors := sv_errors s + 1\<rparr>
      in if sv_errors s \<ge> REBIND_AFTER_ERRORS
         then (if rebound
               then (ACCEPT_ERROR_BACKOFF,
                     s\<lparr>sv_socket := sv_socket s + 1, sv_errors := 0, sv_backoff := ACCEPT_ERROR_BACKOFF\<rparr>)
               else (ACCEPT_ERROR_BACKOFF + sv_backoff s,
                     s\<lparr>sv_backoff := min (sv_backoff s * 2) REBIND_MAX_BACKOFF,
                       sv_errors := REBIND_AFTER_ERRORS\<rparr>))
         else (ACCEPT_ERROR_BACKOFF, s))"

definition conn_over :: "server \<Rightarrow> server" where
  "conn_over s =
     s\<lparr>sv_permits := sv_permits s + 1, sv_live := sv_live s - 1, sv_stats := leave_active (sv_stats s)\<rparr>"

inductive serve_step :: "server \<Rightarrow> server \<Rightarrow> bool" where
  permit: "\<not> sv_accepting s \<Longrightarrow> sv_permits s > 0 \<Longrightarrow> serve_step s (take_permit s)"
| accept: "sv_accepting s \<Longrightarrow> serve_step s (accept_ok s)"
| failed: "sv_accepting s \<Longrightarrow> accept_failed rebound s = (slept, s') \<Longrightarrow> serve_step s s'"
| over: "sv_live s > 0 \<Longrightarrow> serve_step s (conn_over s)"

inductive serving :: "nat \<Rightarrow> stats \<Rightarrow> server \<Rightarrow> bool" for cap st where
  start: "serving cap st (serve_with_cap cap st)"
| step: "serving cap st s \<Longrightarrow> serve_step s s' \<Longrightarrow> serving cap st s'"

inductive_cases serve_stepE: "serve_step s s'"

section \<open>Capacity\<close>

definition serve_inv :: "nat \<Rightarrow> stats \<Rightarrow> server \<Rightarrow> bool" where
  "serve_inv cap st s \<longleftrightarrow>
     sv_permits s + sv_live s + (if sv_accepting s then 1 else 0) = cap
     \<and> st_active (sv_stats s) = st_active st + sv_live s \<and> sv_errors s \<le> REBIND_AFTER_ERRORS
     \<and> ACCEPT_ERROR_BACKOFF \<le> sv_backoff s \<and> sv_backoff s \<le> REBIND_MAX_BACKOFF"

lemma stats_active [simp]:
  "st_active (enter_active s) = st_active s + 1" "st_active (leave_active s) = st_active s - 1"
  "st_active (inc x s) = st_active s" "st_active (set_capacity n s) = st_active s"
  by (simp_all add: enter_active_def leave_active_def inc_def set_capacity_def)

lemma backoff_consts [simp]: "ACCEPT_ERROR_BACKOFF \<le> REBIND_MAX_BACKOFF" "0 < REBIND_AFTER_ERRORS"
  by (simp_all add: ACCEPT_ERROR_BACKOFF_def REBIND_MAX_BACKOFF_def NANOS_def REBIND_AFTER_ERRORS_def)

lemma serve_step_inv: "serve_step s s' \<Longrightarrow> serve_inv cap st s \<Longrightarrow> serve_inv cap st s'"
  by (erule serve_stepE)
    (auto simp: serve_inv_def take_permit_def accept_ok_def accept_failed_def conn_over_def Let_def
      split: if_splits)

lemma serving_inv: "serving cap st s \<Longrightarrow> serve_inv cap st s"
proof (induction rule: serving.induct)
  case start
  show ?case by (simp add: serve_inv_def serve_with_cap_def)
next
  case (step s s')
  then show ?case by (simp add: serve_step_inv)
qed

text \<open>
  C16: The accept loop serves at most \<open>cap\<close> connections at once and cannot wedge: however
  connections arrive and end, and however often accepting or rebinding fails, the permits are all
  accounted for, the gauge shows the connections in flight, and as long as fewer than \<open>cap\<close> are in
  flight the loop can go on to the next connection; at the cap it goes on when one of them ends.
\<close>

theorem accept_loop_bounded:
  assumes "serving cap st s" and "0 < cap"
  shows "sv_live s \<le> cap \<and> st_active (sv_stats s) = st_active st + sv_live s
    \<and> (if sv_live s < cap
       then \<exists>s1. (s1 = s \<or> serve_step s s1) \<and> serve_step s1 (accept_ok s1) \<and> sv_live (accept_ok s1) = sv_live s + 1
       else sv_permits s = 0 \<and> \<not> sv_accepting s \<and> serve_step s (conn_over s) \<and> sv_permits (conn_over s) = 1)"
proof -
  note inv = serving_inv [OF assms(1), unfolded serve_inv_def]
  show ?thesis
  proof (cases "sv_live s < cap")
    case True
    show ?thesis
    proof (cases "sv_accepting s")
      case True
      then have "serve_step s (accept_ok s)" by (rule serve_step.accept)
      with inv \<open>sv_live s < cap\<close> show ?thesis by (auto simp: accept_ok_def [of s])
    next
      case False
      with inv True have "serve_step s (take_permit s)" by (intro serve_step.permit) auto
      moreover have "serve_step (take_permit s) (accept_ok (take_permit s))"
        by (rule serve_step.accept) (simp add: take_permit_def)
      moreover have "sv_live (accept_ok (take_permit s)) = sv_live s + 1"
        by (simp add: accept_ok_def take_permit_def)
      ultimately show ?thesis using inv True by auto
    qed
  next
    case False
    with inv assms(2) have full: "sv_permits s = 0" "\<not> sv_accepting s" "0 < sv_live s"
      by (auto split: if_splits)
    then have "serve_step s (conn_over s)" by (intro serve_step.over)
    with inv False full show ?thesis by (simp add: conn_over_def [of s])
  qed
qed

theorem accept_loop_bounded_witness:
  "sv_live (accept_ok (take_permit (serve_with_cap 2 init_stats))) \<le> 2"
proof -
  have "serving 2 init_stats (take_permit (serve_with_cap 2 init_stats))"
    by (rule serving.step [OF serving.start serve_step.permit]) (simp_all add: serve_with_cap_def)
  then have "serving 2 init_stats (accept_ok (take_permit (serve_with_cap 2 init_stats)))"
    by (rule serving.step [OF _ serve_step.accept]) (simp add: take_permit_def)
  from accept_loop_bounded [OF this] show ?thesis by simp
qed

section \<open>Rebinding\<close>

text \<open>Rounds of the loop that all fail; \<open>rebounds\<close> are the answers to the attempts to bind.\<close>

fun failing_rounds :: "bool list \<Rightarrow> server \<Rightarrow> nat list \<times> server" where
  "failing_rounds [] s = ([], s)"
| "failing_rounds (r # rs) s =
     (case accept_failed r (take_permit s) of
        (d, s1) \<Rightarrow> (case failing_rounds rs s1 of (ds, s2) \<Rightarrow> (d # ds, s2)))"

text \<open>The sleep of the \<open>i\<close>-th round when no socket can be bound.\<close>

definition rebind_sleep :: "nat \<Rightarrow> nat" where
  "rebind_sleep i =
     ACCEPT_ERROR_BACKOFF
     + (if i + 1 < REBIND_AFTER_ERRORS then 0
        else min (ACCEPT_ERROR_BACKOFF * 2 ^ (i + 1 - REBIND_AFTER_ERRORS)) REBIND_MAX_BACKOFF)"

lemma failing_rounds_from:
  assumes "sv_errors s = min i REBIND_AFTER_ERRORS"
    and "sv_backoff s = min (ACCEPT_ERROR_BACKOFF * 2 ^ (i + 1 - REBIND_AFTER_ERRORS)) REBIND_MAX_BACKOFF"
  shows "fst (failing_rounds (replicate n False) s) = map rebind_sleep [i..<i + n]"
  using assms
proof (induction n arbitrary: i s)
  case (Suc n)
  obtain d s1 where r: "accept_failed False (take_permit s) = (d, s1)" by fastforce
  have d: "d = rebind_sleep i"
    using r Suc.prems
    by (auto simp: accept_failed_def take_permit_def rebind_sleep_def Let_def min_def split: if_splits)
  have "sv_errors s1 = min (Suc i) REBIND_AFTER_ERRORS"
    using r Suc.prems by (auto simp: accept_failed_def take_permit_def Let_def min_def split: if_splits)
  moreover have "sv_backoff s1 =
      min (ACCEPT_ERROR_BACKOFF * 2 ^ (Suc i + 1 - REBIND_AFTER_ERRORS)) REBIND_MAX_BACKOFF"
    using r Suc.prems
    by (auto simp: accept_failed_def take_permit_def Let_def min_def Suc_diff_le split: if_splits)
  ultimately have "fst (failing_rounds (replicate n False) s1) = map rebind_sleep [Suc i..<Suc i + n]"
    by (rule Suc.IH)
  then show ?case by (simp add: r d case_prod_unfold upt_conv_Cons del: upt_Suc)
qed simp

lemma failing_rounds_wait: "\<forall>d \<in> set (fst (failing_rounds rs s)). ACCEPT_ERROR_BACKOFF \<le> d"
  by (induction rs arbitrary: s)
    (auto simp: accept_failed_def Let_def case_prod_unfold split: if_splits)

lemma failing_rounds_count:
  "sv_errors s \<le> REBIND_AFTER_ERRORS \<Longrightarrow>
   sv_errors (snd (failing_rounds (replicate n False) s)) = min (sv_errors s + n) REBIND_AFTER_ERRORS
   \<and> sv_socket (snd (failing_rounds (replicate n False) s)) = sv_socket s"
proof (induction n arbitrary: s)
  case (Suc n)
  obtain d s1 where r: "accept_failed False (take_permit s) = (d, s1)" by fastforce
  then have "sv_errors s1 = min (sv_errors s + 1) REBIND_AFTER_ERRORS" "sv_socket s1 = sv_socket s"
    using Suc.prems by (auto simp: accept_failed_def take_permit_def Let_def min_def split: if_splits)
  with Suc.IH [of s1] show ?case by (simp add: r case_prod_unfold min_def)
qed simp

text \<open>
  Accept errors never turn into a hot loop, and binding is retried for ever: with a loop that
  has just started or just bound its socket, four failures in a row sleep 200 ms each, from the fifth on every failure tries
  to bind a new socket, the sleep doubling from 400 ms up to at most 30.2 s; and the moment a socket
  is bound the loop starts afresh.
\<close>

lemma rebind_schedule:
  assumes "sv_errors s = 0" and "sv_backoff s = ACCEPT_ERROR_BACKOFF"
  shows "fst (failing_rounds (replicate n False) s) = map rebind_sleep [0..<n]
    \<and> (\<forall>d \<in> set (fst (failing_rounds rs s)). ACCEPT_ERROR_BACKOFF \<le> d)
    \<and> (4 \<le> n \<longrightarrow>
        (let s' = snd (accept_failed True (take_permit (snd (failing_rounds (replicate n False) s))))
         in sv_errors s' = 0 \<and> sv_backoff s' = ACCEPT_ERROR_BACKOFF \<and> sv_socket s' = sv_socket s + 1))"
proof (intro conjI impI)
  show "fst (failing_rounds (replicate n False) s) = map rebind_sleep [0..<n]"
    using failing_rounds_from [of s 0 n] assms by (simp add: REBIND_AFTER_ERRORS_def min_def)
  show "\<forall>d \<in> set (fst (failing_rounds rs s)). ACCEPT_ERROR_BACKOFF \<le> d"
    by (rule failing_rounds_wait)
  show "let s' = snd (accept_failed True (take_permit (snd (failing_rounds (replicate n False) s))))
     in sv_errors s' = 0 \<and> sv_backoff s' = ACCEPT_ERROR_BACKOFF \<and> sv_socket s' = sv_socket s + 1"
    if "4 \<le> n"
    using failing_rounds_count [of s n] assms that
    by (simp add: accept_failed_def take_permit_def REBIND_AFTER_ERRORS_def Let_def)
qed

lemma rebind_schedule_witness:
  "fst (failing_rounds (replicate 6 False) (serve_with_cap 1 init_stats)) =
     [ACCEPT_ERROR_BACKOFF, ACCEPT_ERROR_BACKOFF, ACCEPT_ERROR_BACKOFF, ACCEPT_ERROR_BACKOFF,
      2 * ACCEPT_ERROR_BACKOFF, 3 * ACCEPT_ERROR_BACKOFF]"
proof -
  have "fst (failing_rounds (replicate 6 False) (serve_with_cap 1 init_stats)) = map rebind_sleep [0..<6]"
    using rebind_schedule [of "serve_with_cap 1 init_stats" 6 "[]"] by (simp add: serve_with_cap_def)
  moreover have "[0..<6] = [0, 1, 2, 3, 4, 5 :: nat]" by (simp add: upt_rec)
  ultimately show ?thesis
    by (simp add: rebind_sleep_def REBIND_AFTER_ERRORS_def ACCEPT_ERROR_BACKOFF_def
        REBIND_MAX_BACKOFF_def NANOS_def)
qed

end
