(* ===== verification/Https.thy ===== *)
theory Https
  imports Domains
begin

text \<open>
  \<open>https.rs\<close>, and the fetch of the domain list that uses it: one GET over a connection that is
  already open, the bound on what is read, the status check. The TLS connection is a parameter:
  \<open>reply\<close> gives for a request the bytes that arrive, or the error of the handshake, the write, the
  read or their timeouts.
\<close>

section \<open>A GET\<close>

definition get_request :: "string \<Rightarrow> string \<Rightarrow> (string \<times> string) list \<Rightarrow> bytes" where
  "get_request sni path extra_headers =
     as_bytes (''GET '' @ path @ '' HTTP/1.1'' @ CRLF @ ''Host: '' @ sni @ CRLF
       @ concat (map (\<lambda>(name, value). name @ '': '' @ value @ CRLF) extra_headers)
       @ ''User-Agent: wrtg'' @ CRLF @ ''Connection: close'' @ CRLF @ CRLF)"

definition first_line :: "string \<Rightarrow> string" where
  "first_line s = (case lines s of [] \<Rightarrow> '''' | l # ls \<Rightarrow> l)"

text \<open>The checks on what was read, at most \<open>max_body + 1\<close> bytes.\<close>

definition check_response :: "nat \<Rightarrow> bytes \<Rightarrow> io_error + bytes" where
  "check_response max_body buf =
     (if length buf > max_body then Inl (io_err InvalidData ''HTTP response too large'')
      else case find_sub (as_bytes (CRLF @ CRLF)) buf of
             None \<Rightarrow> Inl (io_err InvalidData ''no HTTP headers'')
           | Some header_end \<Rightarrow>
               let status = from_utf8_lossy (take (min header_end 32) buf)
               in if \<not> contains '' 200 '' status
                  then Inl (io_err InvalidData (''HTTP error: '' @ first_line status))
                  else Inr (drop (header_end + 4) buf))"

definition get_over ::
  "(bytes \<Rightarrow> io_error + bytes) \<Rightarrow> string \<Rightarrow> string \<Rightarrow> (string \<times> string) list \<Rightarrow> nat \<Rightarrow> io_error + bytes" where
  "get_over reply sni path extra_headers max_body =
     (case reply (get_request sni path extra_headers) of
        Inl e \<Rightarrow> Inl e
      | Inr received \<Rightarrow> check_response max_body (take (max_body + 1) received))"

section \<open>The domain list\<close>

definition MAX_HTTP_RESPONSE :: nat where "MAX_HTTP_RESPONSE = 1024 * 1024"

text \<open>\<open>https_get\<close>: the connection is to the target that \<open>connect_pinned\<close> reached.\<close>

definition https_get ::
  "(string \<Rightarrow> io_error option option) \<Rightarrow> (string \<Rightarrow> bytes \<Rightarrow> io_error + bytes) \<Rightarrow> string \<Rightarrow> string \<Rightarrow> io_error + bytes" where
  "https_get con reply host path =
     (case connect_pinned con host of
        Inl e \<Rightarrow> Inl e
      | Inr target \<Rightarrow> get_over (reply target) host path [] MAX_HTTP_RESPONSE)"

definition fetch_body ::
  "(string \<Rightarrow> io_error option option) \<Rightarrow> (string \<Rightarrow> bytes \<Rightarrow> io_error + bytes) \<Rightarrow> (string \<Rightarrow> string option)
   \<Rightarrow> string \<Rightarrow> bytes option" where
  "fetch_body con reply env cache_bust =
     (case fetch_path (parse_domains_url (env ''WRTG_CFPROXY_DOMAINS_URL'')) cache_bust of
        (host, path) \<Rightarrow>
          (case https_get con reply host path of Inl e \<Rightarrow> None | Inr body \<Rightarrow> Some body))"

section \<open>The published list arrives\<close>

text \<open>The list as it is published: enciphered names, one per line.\<close>

definition published :: "string list \<Rightarrow> string" where
  "published ps = concat (map (\<lambda>p. encode_cfproxy_prefix p @ ''.com'' @ [LF]) ps)"

definition plain_name :: "string \<Rightarrow> bool" where
  "plain_name p \<longleftrightarrow> p \<noteq> '''' \<and> length p \<le> 63 \<and> list_all is_ascii_lowercase p"

lemma encode_plain:
  assumes "plain_name p" and "c \<in> set (encode_cfproxy_prefix p @ ''.com'')"
  shows "is_graphic c" "c \<noteq> LF" "ord c < 128" "c \<noteq> CHR ''#''"
proof -
  have low: "is_ascii_lowercase x" if "x \<in> set (encode_cfproxy_prefix p)" for x
    using assms(1) that by (auto simp: plain_name_def list_all_iff encode_cfproxy_prefix_def)
  have "is_ascii_lowercase (CHR ''c'')" "is_ascii_lowercase (CHR ''o'')" "is_ascii_lowercase (CHR ''m'')"
    by (simp_all add: is_ascii_lowercase_def)
  with low assms(2) have "is_ascii_lowercase c \<or> c = CHR ''.''" by auto
  then show "is_graphic c" "c \<noteq> LF" "ord c < 128" "c \<noteq> CHR ''#''"
    by (auto simp: is_graphic_def is_ascii_lowercase_def)
qed

lemma published_ascii:
  assumes "list_all plain_name ps" and "c \<in> set (published ps)" shows "ord c < 128"
proof -
  obtain p where p: "p \<in> set ps" "c \<in> set (encode_cfproxy_prefix p @ ''.com'') \<or> c = LF"
    using assms(2) unfolding published_def by (auto simp del: UN_simps)
  then have pl: "plain_name p" using assms(1) by (simp add: list_all_iff)
  from p(2) show ?thesis
  proof
    assume "c \<in> set (encode_cfproxy_prefix p @ ''.com'')"
    then show ?thesis by (rule encode_plain(3) [OF pl])
  qed simp
qed

lemma published_lines:
  assumes "list_all plain_name ps"
  shows "lines (published ps) = map (\<lambda>p. encode_cfproxy_prefix p @ ''.com'') ps"
proof -
  have "split_on (\<lambda>c. c = LF) (published ps) = map (\<lambda>p. encode_cfproxy_prefix p @ ''.com'') ps @ [[]]"
    using assms
  proof (induction ps)
    case (Cons p ps)
    have "no_newline (encode_cfproxy_prefix p @ ''.com'')"
      using encode_plain(2) [of p] Cons.prems by auto
    from split_line [OF this, of "published ps"] Cons show ?case by (simp add: published_def)
  qed (simp add: published_def)
  then show ?thesis by (simp add: lines_def strip_cr_def)
qed

lemma decode_published:
  assumes "list_all plain_name ps"
  shows "decode_list (as_bytes (published ps)) = map (\<lambda>p. p @ ''.co.uk'') ps"
proof -
  have utf8: "from_utf8_lossy (as_bytes (published ps)) = published ps"
    using published_ascii [OF assms] by (intro from_utf8_lossy_ascii) blast
  have trim: "trim (encode_cfproxy_prefix p @ ''.com'') = encode_cfproxy_prefix p @ ''.com''"
    and head: "\<not> starts_with ''#'' (encode_cfproxy_prefix p @ ''.com'')" if "p \<in> set ps" for p
  proof -
    have p: "plain_name p" using assms that by (simp add: list_all_iff)
    show "trim (encode_cfproxy_prefix p @ ''.com'') = encode_cfproxy_prefix p @ ''.com''"
      using encode_plain(1) [OF p] by (intro trim_all_graphic) blast
    show "\<not> starts_with ''#'' (encode_cfproxy_prefix p @ ''.com'')"
      using encode_plain(4) [OF p hd_in_set] by (subst starts_with_char) simp_all
  qed
  let ?enc = "\<lambda>p. encode_cfproxy_prefix p @ ''.com''"
  have "map trim (map ?enc ps) = map ?enc ps"
    unfolding map_map comp_def by (rule map_cong [OF refl trim])
  moreover have "filter (\<lambda>l. l \<noteq> '''' \<and> \<not> starts_with ''#'' l) (map ?enc ps) = map ?enc ps"
    using head by (intro filter_True) auto
  ultimately have "decode_list (as_bytes (published ps)) = map decode_cfproxy_domain (map ?enc ps)"
    unfolding decode_list_def utf8 published_lines [OF assms] by (simp only:)
  then show ?thesis by (simp add: decode_cfproxy_roundtrip)
qed

lemma normalize_plain:
  assumes "list_all plain_name ps" and "distinct ps"
  shows "normalize_domain_pool (map (\<lambda>p. p @ ''.co.uk'') ps) = map (\<lambda>p. p @ ''.co.uk'') ps"
proof -
  have item: "pool_item (p @ ''.co.uk'') out = out @ [p @ ''.co.uk'']"
    if "plain_name p" "p @ ''.co.uk'' \<notin> set out" for p out
  proof -
    have v: "is_valid_domain (p @ ''.co.uk'')" "to_ascii_lowercase (p @ ''.co.uk'') = p @ ''.co.uk''"
      using valid_co_uk [OF refl, of p] that(1) by (simp_all add: plain_name_def)
    moreover have "trim (p @ ''.co.uk'') = p @ ''.co.uk''"
      using valid_domain_graphic [OF v(1)] by (intro trim_all_graphic) blast
    ultimately show ?thesis using that(2) by (simp add: pool_item_def)
  qed
  have "fold pool_item (map (\<lambda>p. p @ ''.co.uk'') ps) out = out @ map (\<lambda>p. p @ ''.co.uk'') ps"
    if "list_all plain_name ps" "distinct ps" "set (map (\<lambda>p. p @ ''.co.uk'') ps) \<inter> set out = {}" for ps out
    using that
  proof (induction ps arbitrary: out)
    case (Cons p ps)
    then have "set (map (\<lambda>p. p @ ''.co.uk'') ps) \<inter> set (out @ [p @ ''.co.uk'']) = {}" by auto
    with Cons show ?case by (simp add: item)
  qed simp
  from this [of ps "[]"] assms show ?thesis by (simp add: normalize_domain_pool_def)
qed

lemma drop_as_bytes: "drop n (as_bytes s) = as_bytes (drop n s)"
  by (simp add: as_bytes_def drop_map)

text \<open>
  C26: What is published is what is dialled: when the list source answers 200 with a body of at
  least three distinct lower-case names, enciphered and one per line, within the size limit, the
  refresh puts exactly those names, deciphered and in that order, into the shared pool, whichever
  pinned address or host name of the source could be reached.
\<close>

theorem published_list_arrives:
  assumes "cfproxy_auto_enabled env"
    and "list_all plain_name ps" and "distinct ps" and "3 \<le> length ps"
    and "connect_pinned con host = Inr target"
    and "fetch_path (parse_domains_url (env ''WRTG_CFPROXY_DOMAINS_URL'')) bust = (host, path)"
    and "reply target (get_request host path []) = Inr (head @ as_bytes (CRLF @ CRLF @ published ps))"
    and "find_sub (as_bytes (CRLF @ CRLF)) (head @ as_bytes (CRLF @ CRLF @ published ps)) = Some (length head)"
    and "contains '' 200 '' (from_utf8_lossy (take 32 head))"
    and "length head + 4 + length (published ps) \<le> MAX_HTTP_RESPONSE"
  shows "refresh_cfproxy_domains env (fetch_body con reply env bust) b =
    set_proxy_domains (map (\<lambda>p. p @ ''.co.uk'') ps) b"
proof -
  have "take (min (length head) 32) (head @ t) = take 32 head" for t by (cases "length head \<le> 32") simp_all
  then have "check_response MAX_HTTP_RESPONSE (head @ as_bytes (CRLF @ CRLF @ published ps)) =
      Inr (as_bytes (published ps))"
    using assms(8-10) by (simp add: check_response_def Let_def drop_as_bytes)
  then have "fetch_body con reply env bust = Some (as_bytes (published ps))"
    using assms(5-7,10) by (simp add: fetch_body_def https_get_def get_over_def)
  then show ?thesis
    using assms(1-4)
    by (simp add: refresh_cfproxy_domains_def fetch_cfproxy_domains_def decode_published normalize_plain
        MIN_VALID_DOMAINS_def)
qed

text \<open>Three names, from the first pinned address, under a minimal response head.\<close>

definition list_head :: bytes where
  "list_head = as_bytes ''HTTP/1.1 200 OK''"

theorem published_list_arrives_witness:
  "ba_proxies (refresh_cfproxy_domains (\<lambda>k. None)
     (fetch_body (\<lambda>target. Some None) (\<lambda>target req. Inr (list_head @ as_bytes (CRLF @ CRLF @ published [''a'', ''b'', ''xyz''])))
        (\<lambda>k. None) ''q'') init_balancer) = [''a.co.uk'', ''b.co.uk'', ''xyz.co.uk'']"
proof -
  let ?ps = "[''a'', ''b'', ''xyz'']" and ?env = "\<lambda>k. None :: string option"
  have "find_sub (as_bytes (CRLF @ CRLF)) (list_head @ as_bytes (CRLF @ CRLF @ t)) = Some (length list_head)" for t
    by (simp add: list_head_def as_bytes_def)
  moreover have "contains '' 200 '' (from_utf8_lossy (take 32 list_head))"
  proof -
    have "from_utf8_lossy list_head = ''HTTP/1.1 200 OK''"
      unfolding list_head_def by (rule from_utf8_lossy_ascii) simp
    moreover have "take 32 list_head = list_head" by (simp add: list_head_def)
    ultimately show ?thesis by (simp add: contains_def)
  qed
  moreover obtain host path where u: "fetch_path (parse_domains_url None) ''q'' = (host, path)" by fastforce
  moreover have "connect_pinned (\<lambda>target. Some None) host = Inr (hd ((if is_github_host host then GITHUB_PINNED_IPS else []) @ [host]))"
    by (simp add: connect_pinned_def GITHUB_PINNED_IPS_def)
  moreover have "cfproxy_auto_enabled ?env"
    by (simp add: cfproxy_auto_enabled_def cf_fallback_disabled_def flag_set_def
        user_proxy_domains_configured_def proxy_env_set_def cfproxy_auto_decision_def)
  moreover have "list_all plain_name ?ps" by (simp add: plain_name_def is_ascii_lowercase_def)
  moreover have "length list_head + 4 + length (published ?ps) \<le> MAX_HTTP_RESPONSE"
    by (simp add: list_head_def published_def encode_cfproxy_prefix_def MAX_HTTP_RESPONSE_def)
  ultimately show ?thesis
    by (subst published_list_arrives [of ?env ?ps]) (simp_all add: set_proxy_domains_def)
qed

end
