(* ===== verification/Doh.thy ===== *)
theory Doh
  imports Https Dc_Learn Pools
begin

text \<open>
  \<open>cf_proxy_doh.rs\<close>: the resolver of the proxy connector. Four DNS-over-HTTPS services, each at
  pinned addresses, race with each other and with the system resolver; the answer is cached. What
  the network does is a parameter: the body a service returns at an address, the addresses of the
  system resolver, and the tasks whose messages are received before the deadline, in that order.
\<close>

section \<open>Addresses\<close>

text \<open>
  \<open>IpAddr::from_str\<close> for IPv6 and the \<open>Display\<close> of the result: groups of up to four hexadecimal
  digits, one run of zeros left out, the last two groups possibly written as an IPv4 address.
\<close>

definition hex_value :: "char \<Rightarrow> nat option" where
  "hex_value c =
     (if is_ascii_digit c then Some (ord c - 48)
      else if 97 \<le> ord c \<and> ord c \<le> 102 then Some (ord c - 87)
      else if 65 \<le> ord c \<and> ord c \<le> 70 then Some (ord c - 55)
      else None)"

text \<open>A group: all the hexadecimal digits that follow, at least one and at most four.\<close>

definition read_group :: "string \<Rightarrow> (nat \<times> string) option" where
  "read_group s =
     (let ds = takeWhile (\<lambda>c. hex_value c \<noteq> None) s
      in if ds = '''' \<or> length ds > 4 then None
         else Some (foldl (\<lambda>a c. a * 16 + the (hex_value c)) 0 ds, drop (length ds) s))"

text \<open>An IPv4 address: the digits and dots that follow.\<close>

definition read_v4 :: "string \<Rightarrow> (nat list \<times> string) option" where
  "read_v4 s =
     (let v = takeWhile (\<lambda>c. is_ascii_digit c \<or> c = CHR ''.'') s
      in if is_ipv4 v then Some (map digits_value (split_on (\<lambda>c. c = CHR ''.'') v), drop (length v) s) else None)"

definition after_colon :: "nat \<Rightarrow> string \<Rightarrow> string option" where
  "after_colon i s = (if i = 0 then Some s else strip_prefix '':'' s)"

text \<open>\<open>read_groups\<close>: up to \<open>n\<close> more groups after the first \<open>i\<close>; the groups, whether IPv4 ended them.\<close>

fun read_groups :: "nat \<Rightarrow> nat \<Rightarrow> string \<Rightarrow> nat list \<times> bool \<times> string" where
  "read_groups i 0 s = ([], False, s)"
| "read_groups i (Suc n) s =
     (case (if n > 0 then Option.bind (after_colon i s) read_v4 else None) of
        Some ([a, b, c, d], rest) \<Rightarrow> ([a * 256 + b, c * 256 + d], True, rest)
      | _ \<Rightarrow>
          (case Option.bind (after_colon i s) read_group of
             Some (g, rest) \<Rightarrow> (case read_groups (Suc i) n rest of (gs, v4, rest') \<Rightarrow> (g # gs, v4, rest'))
           | None \<Rightarrow> ([], False, s)))"

definition parse_ipv6 :: "string \<Rightarrow> nat list option" where
  "parse_ipv6 s =
     (case read_groups 0 8 s of
        (head, v4, rest) \<Rightarrow>
          if length head = 8 then (if rest = '''' then Some head else None)
          else if v4 then None
          else (case strip_prefix ''::'' rest of
                  None \<Rightarrow> None
                | Some rest \<Rightarrow>
                    (case read_groups 0 (8 - (length head + 1)) rest of
                       (tail, _, rest) \<Rightarrow>
                         if rest = '''' then Some (head @ replicate (8 - length head - length tail) 0 @ tail)
                         else None)))"

fun show_hex :: "nat \<Rightarrow> string" where
  "show_hex n =
     (let d = (if n mod 16 < 10 then char_of (48 + n mod 16) else char_of (87 + n mod 16))
      in if n < 16 then [d] else show_hex (n div 16) @ [d])"

declare show_hex.simps [simp del]

fun join_groups :: "nat list \<Rightarrow> string" where
  "join_groups [] = ''''"
| "join_groups [g] = show_hex g"
| "join_groups (g # gs) = show_hex g @ '':'' @ join_groups gs"

text \<open>The longest run of zeros, the first of them when there are several: its start and length.\<close>

fun zero_run :: "nat list \<Rightarrow> nat \<Rightarrow> nat \<times> nat \<Rightarrow> nat \<times> nat \<Rightarrow> nat \<times> nat" where
  "zero_run [] i longest current = longest"
| "zero_run (g # gs) i longest current =
     (if g = 0
      then let current = (if snd current = 0 then (i, 1) else (fst current, snd current + 1))
           in zero_run gs (i + 1) (if snd current > snd longest then current else longest) current
      else zero_run gs (i + 1) longest (0, 0))"

definition show_ipv6 :: "nat list \<Rightarrow> string" where
  "show_ipv6 gs =
     (if take 6 gs = [0, 0, 0, 0, 0, 0xFFFF]
      then ''::ffff:'' @ show_nat (gs ! 6 div 256) @ ''.'' @ show_nat (gs ! 6 mod 256) @ ''.''
           @ show_nat (gs ! 7 div 256) @ ''.'' @ show_nat (gs ! 7 mod 256)
      else case zero_run gs 0 (0, 0) (0, 0) of
             (start, len) \<Rightarrow>
               if len > 1 then join_groups (take start gs) @ ''::'' @ join_groups (drop (start + len) gs)
               else join_groups gs)"

text \<open>The first IPv4 address, else the first IPv6 one.\<close>

fun pick_from :: "string option \<Rightarrow> string list \<Rightarrow> string option" where
  "pick_from fallback_v6 [] = fallback_v6"
| "pick_from fallback_v6 (c # cs) =
     (let c = trim c
      in if is_ipv4 c then Some c
         else case parse_ipv6 c of
                Some gs \<Rightarrow> pick_from (if fallback_v6 = None then Some (show_ipv6 gs) else fallback_v6) cs
              | None \<Rightarrow> pick_from fallback_v6 cs)"

definition pick_preferred_ip :: "string list \<Rightarrow> string option" where
  "pick_preferred_ip candidates = pick_from None candidates"

section \<open>The answer of a service\<close>

abbreviation quoted :: "string \<Rightarrow> string" where
  "quoted s \<equiv> [CHR 0x22] @ s @ [CHR 0x22]"

definition type_1 :: string where "type_1 = quoted ''type'' @ '':1''"
definition data_key :: string where "data_key = quoted ''data'' @ '':'' @ [CHR 0x22]"

function record_is_type_a :: "string \<Rightarrow> bool" where
  "record_is_type_a hay =
     (case split_once type_1 hay of
        None \<Rightarrow> False
      | Some (_, after) \<Rightarrow>
          if after \<noteq> '''' \<and> is_ascii_digit (hd after) then record_is_type_a after else True)"
  by pat_completeness auto
termination
proof (relation "measure length")
  fix hay after :: string and p x y
  assume "split_once type_1 hay = Some p" and "(x, y) = p" and "y \<noteq> '''' \<and> is_ascii_digit (hd y)"
  then have "y \<noteq> ''''" "\<exists>i. y = drop (i + length type_1) hay" by (auto simp: split_once_def)
  then show "(y, hay) \<in> measure length" by (auto simp: type_1_def)
qed simp

declare record_is_type_a.simps [simp del]

text \<open>\<open>rec.split(pat).nth(1)\<close>\<close>

definition second_piece :: "string \<Rightarrow> string \<Rightarrow> string option" where
  "second_piece pat s =
     map_option (\<lambda>(_, r). case split_once pat r of Some (p, _) \<Rightarrow> p | None \<Rightarrow> r) (split_once pat s)"

definition record_ip :: "string \<Rightarrow> string list" where
  "record_ip r =
     (if \<not> record_is_type_a r then []
      else case second_piece data_key r of
             None \<Rightarrow> []
           | Some data \<Rightarrow>
               let ip = trim (hd (split_on (\<lambda>c. c = CHR 0x22) data)) in if ip = '''' then [] else [ip])"

definition parse_doh_a_records :: "bytes \<Rightarrow> string list" where
  "parse_doh_a_records body =
     (case split_once (quoted ''Answer'') (from_utf8_lossy body) of
        None \<Rightarrow> []
      | Some (_, after) \<Rightarrow>
          (case split_once ''['' after of
             None \<Rightarrow> []
           | Some (_, array) \<Rightarrow>
               let answer = hd (split_on (\<lambda>c. c = CHR '']'') array)
               in concat (map record_ip (tl (split_on (\<lambda>c. c = CHR 0x7B) answer)))))"

section \<open>The race\<close>

record doh_endpoint =
  de_host :: string
  de_path :: string
  de_ips :: "string list"

definition DOH_ENDPOINTS :: "doh_endpoint list" where
  "DOH_ENDPOINTS =
     [\<lparr>de_host = ''cloudflare-dns.com'', de_path = ''/dns-query'', de_ips = [''1.1.1.1'', ''1.0.0.1'']\<rparr>,
      \<lparr>de_host = ''dns.google'', de_path = ''/dns-query'', de_ips = [''8.8.8.8'', ''8.8.4.4'']\<rparr>,
      \<lparr>de_host = ''dns.quad9.net'', de_path = ''/dns-query'', de_ips = [''9.9.9.9'', ''149.112.112.112'']\<rparr>,
      \<lparr>de_host = ''dns.adguard-dns.com'', de_path = ''/dns-query'', de_ips = [''94.140.14.14'', ''94.140.15.15'']\<rparr>]"

definition MAX_DOH_BODY :: nat where "MAX_DOH_BODY = 16 * 1024"

text \<open>\<open>https_get_json\<close>: \<open>net ip\<close> is the TLS connection to an address, \<open>None\<close> when the dial fails or
  the query takes too long.\<close>

type_synonym doh_net = "string \<Rightarrow> (bytes \<Rightarrow> io_error + bytes) option"

definition https_get_json :: "doh_net \<Rightarrow> string \<Rightarrow> string \<Rightarrow> string \<Rightarrow> bytes option" where
  "https_get_json net connect_ip host path =
     (case net connect_ip of
        None \<Rightarrow> None
      | Some reply \<Rightarrow>
          (case get_over reply host path [(''Accept'', ''application/dns-json'')] MAX_DOH_BODY of
             Inl e \<Rightarrow> None
           | Inr body \<Rightarrow> Some body))"

fun doh_ips :: "doh_net \<Rightarrow> string \<Rightarrow> string \<Rightarrow> string list \<Rightarrow> string option" where
  "doh_ips net host path [] = None"
| "doh_ips net host path (ip # ips) =
     (case Option.bind (https_get_json net ip host path) (\<lambda>body. pick_preferred_ip (parse_doh_a_records body)) of
        Some resolved \<Rightarrow> Some resolved
      | None \<Rightarrow> doh_ips net host path ips)"

definition doh_query :: "doh_net \<Rightarrow> doh_endpoint \<Rightarrow> string \<Rightarrow> string option" where
  "doh_query net ep domain = doh_ips net (de_host ep) (de_path ep @ ''?name='' @ domain @ ''&type=A'') (de_ips ep)"

definition system_lookup :: "(string \<Rightarrow> string list option) \<Rightarrow> string \<Rightarrow> string option" where
  "system_lookup sys domain = Option.bind (sys domain) pick_preferred_ip"

text \<open>The tasks are the services in their order and, last, the system resolver.\<close>

definition doh_task :: "doh_net \<Rightarrow> (string \<Rightarrow> string list option) \<Rightarrow> string \<Rightarrow> nat \<Rightarrow> string option" where
  "doh_task net sys domain i =
     (if i < length DOH_ENDPOINTS then doh_query net (DOH_ENDPOINTS ! i) domain
      else if i = length DOH_ENDPOINTS then system_lookup sys domain else None)"

fun doh_race :: "(nat \<Rightarrow> string option) \<Rightarrow> nat list \<Rightarrow> string option" where
  "doh_race task [] = None"
| "doh_race task (i # is) = (case task i of Some ip \<Rightarrow> Some ip | None \<Rightarrow> doh_race task is)"

definition doh_cache_ttl :: "(string \<Rightarrow> string option) \<Rightarrow> nat" where
  "doh_cache_ttl env = env_secs_pos (env ''WRTG_DOH_CACHE_SEC'') 300"

type_synonym doh_cache = "string \<rightharpoonup> string \<times> nat"

text \<open>\<open>now\<close> is the clock at the look-up in the cache, \<open>done_at\<close> when the race is over.\<close>

definition resolve_doh ::
  "nat \<Rightarrow> nat \<Rightarrow> nat \<Rightarrow> doh_net \<Rightarrow> (string \<Rightarrow> string list option) \<Rightarrow> nat list \<Rightarrow> string \<Rightarrow> doh_cache
   \<Rightarrow> string option \<times> doh_cache" where
  "resolve_doh ttl now done_at net sys order domain cache =
     (let domain = trim domain
      in if domain = '''' then (None, cache)
         else
           let run = (case doh_race (doh_task net sys domain) order of
                        Some ip \<Rightarrow> (Some ip, cache(domain \<mapsto> (ip, done_at + ttl)))
                      | None \<Rightarrow> (None, cache))
           in case cache domain of
                Some (ip, expires) \<Rightarrow> if now < expires then (Some ip, cache) else run
              | None \<Rightarrow> run)"
section \<open>Texts as pieces between quotation marks\<close>

fun joinq :: "string list \<Rightarrow> string" where
  "joinq [] = ''''"
| "joinq [s] = s"
| "joinq (s # t # ss) = s @ CHR 0x22 # joinq (t # ss)"

abbreviation no_quote :: "string \<Rightarrow> bool" where "no_quote s \<equiv> CHR 0x22 \<notin> set s"

text \<open>Whether the pattern of the first pieces is a prefix of the text of the second ones.\<close>

fun prefq :: "string list \<Rightarrow> string list \<Rightarrow> bool" where
  "prefq [] ss = True"
| "prefq (a # as) [] = False"
| "prefq [a] (s # ss) = (take (length a) s = a)"
| "prefq (a # b # as) (s # ss) = (a = s \<and> prefq (b # as) ss)"

lemma quote_split:
  "no_quote a \<Longrightarrow> no_quote s \<Longrightarrow> (\<exists>t. s @ CHR 0x22 # v = a @ CHR 0x22 # w @ t) \<longleftrightarrow> s = a \<and> (\<exists>t. v = w @ t)"
proof (induction a arbitrary: s)
  case Nil
  then show ?case by (cases s) auto
next
  case (Cons c a)
  then show ?case by (cases s) auto
qed

lemma take_prefix_iff: "take (length p) s = p \<longleftrightarrow> (\<exists>t. s = p @ t)"
  by (metis append_eq_conv_conj append_take_drop_id)

lemma free_prefix: "no_quote a \<Longrightarrow> (\<exists>t. s @ CHR 0x22 # v = a @ t) \<longleftrightarrow> (\<exists>t. s = a @ t)"
proof (induction a arbitrary: s)
  case (Cons c a)
  then show ?case by (cases s) auto
qed simp

lemma prefix_joinq:
  "as \<noteq> [] \<Longrightarrow> ss \<noteq> [] \<Longrightarrow> list_all no_quote as \<Longrightarrow> list_all no_quote ss \<Longrightarrow>
   (\<exists>t. joinq ss = joinq as @ t) \<longleftrightarrow> prefq as ss"
proof (induction as ss rule: prefq.induct)
  case (3 a s ss)
  then show ?case by (cases ss) (simp_all add: free_prefix take_prefix_iff)
next
  case (4 a b as s ss)
  show ?case
  proof (cases ss)
    case Nil
    have "s \<noteq> a @ CHR 0x22 # joinq (b # as) @ t" for t using 4(5) Nil by auto
    then show ?thesis using Nil by simp
  next
    case (Cons t ts)
    then show ?thesis using 4 quote_split [of a s "joinq ss" "joinq (b # as)"] by auto
  qed
qed simp_all

lemma find_sub_skip:
  "x \<notin> set u \<Longrightarrow> find_sub (x # p) (u @ w) = map_option (\<lambda>i. length u + i) (find_sub (x # p) w)"
  by (induction u; cases "find_sub (x # p) w") auto

text \<open>The search for a pattern that begins with a quotation mark goes from piece to piece.\<close>

lemma split_once_joinq:
  assumes "as \<noteq> []" and "list_all no_quote as" and "list_all no_quote (s # ss)"
  shows "split_once (CHR 0x22 # joinq as) (joinq (s # ss)) =
    (if ss = [] then None
     else if prefq as ss then Some (s, drop (length (joinq as)) (joinq ss))
     else map_option (\<lambda>(p, r). (s @ CHR 0x22 # p, r)) (split_once (CHR 0x22 # joinq as) (joinq ss)))"
proof (cases ss)
  case Nil
  have "find_sub (CHR 0x22 # joinq as) (s @ []) = None" using assms(3) by (subst find_sub_skip) auto
  then show ?thesis by (simp add: Nil split_once_def)
next
  case (Cons t ts)
  have "take (length (joinq as)) (joinq ss) = joinq as \<longleftrightarrow> prefq as ss"
    using prefix_joinq [of as ss] assms Cons by (simp add: take_prefix_iff)
  then show ?thesis
    using assms(3) Cons
    by (auto simp: split_once_def find_sub_skip option.map_comp comp_def add.commute)
qed

declare joinq.simps [simp del]

section \<open>Exactly the addresses of the answer\<close>

text \<open>One record of an answer: name, type, time to live, data.\<close>

definition record_pieces :: "string \<times> nat \<times> nat \<times> string \<Rightarrow> string \<Rightarrow> string list" where
  "record_pieces r z = (case r of (n, t, l, d) \<Rightarrow>
     ['''', ''name'', '':'', n, '','', ''type'', '':'' @ show_nat t @ '','', ''TTL'', '':'' @ show_nat l @ '','',
      ''data'', '':'', d, CHR 0x7D # z])"

definition json_plain :: "string \<Rightarrow> bool" where
  "json_plain s \<longleftrightarrow> (\<forall>c \<in> set s. is_graphic c \<and> c \<notin> {CHR 0x22, CHR 0x7B, CHR 0x7D, CHR ''['', CHR '']''})"

definition record_plain :: "string \<times> nat \<times> nat \<times> string \<Rightarrow> bool" where
  "record_plain r = (case r of (n, t, l, d) \<Rightarrow> json_plain n \<and> json_plain d)"

lemma show_nat_plain: "c \<in> set (show_nat n) \<Longrightarrow> is_ascii_digit c"
  using show_nat_digits by (auto simp: all_digits_def)

lemma digit_no_quote [simp]: "no_quote (show_nat n)"
  using show_nat_plain [of "CHR 0x22" n] by (auto simp: is_ascii_digit_def)

lemma show_nat_one: "show_nat t = CHR ''1'' # r \<Longrightarrow> r = '''' \<longleftrightarrow> t = 1"
proof
  assume s: "show_nat t = CHR ''1'' # r" and "r = ''''"
  have "show_nat 1 = ''1''" by (simp add: show_nat.simps digit_char_def char_of_def bit_simps)
  with s \<open>r = ''''\<close> have "show_nat t = show_nat 1" by simp
  then show "t = 1" by (simp only: show_nat_inj)
next
  assume "show_nat t = CHR ''1'' # r" and "t = 1"
  then show "r = ''''" by (simp add: show_nat.simps digit_char_def char_of_def bit_simps)
qed

lemma json_plainD: "json_plain s \<Longrightarrow> no_quote s" "json_plain s \<Longrightarrow> trim s = s"
proof -
  assume s: "json_plain s"
  then show "no_quote s" unfolding json_plain_def by blast
  show "trim s = s" using s unfolding json_plain_def by (intro trim_all_graphic) blast
qed

lemma record_plainD: "record_plain (n, t, l, d) \<Longrightarrow> no_quote n" "record_plain (n, t, l, d) \<Longrightarrow> no_quote d"
  "record_plain (n, t, l, d) \<Longrightarrow> trim d = d"
  by (simp_all add: record_plain_def json_plainD)

lemma split_type_1:
  assumes "list_all no_quote (s # ss)"
  shows "split_once type_1 (joinq (s # ss)) =
    (if ss = [] then None
     else if prefq [''type'', '':1''] ss then Some (s, drop 7 (joinq ss))
     else map_option (\<lambda>(p, r). (s @ CHR 0x22 # p, r)) (split_once type_1 (joinq ss)))"
proof -
  have "type_1 = CHR 0x22 # joinq [''type'', '':1'']" "length (joinq [''type'', '':1'']) = 7"
    by (simp_all add: type_1_def joinq.simps)
  then show ?thesis using split_once_joinq [OF _ _ assms, of "[''type'', '':1'']"] by simp
qed

lemma split_data:
  assumes "list_all no_quote (s # ss)"
  shows "split_once data_key (joinq (s # ss)) =
    (if ss = [] then None
     else if prefq [''data'', '':'', ''''] ss then Some (s, drop 7 (joinq ss))
     else map_option (\<lambda>(p, r). (s @ CHR 0x22 # p, r)) (split_once data_key (joinq ss)))"
proof -
  have "data_key = CHR 0x22 # joinq [''data'', '':'', '''']" "length (joinq [''data'', '':'', '''']) = 7"
    by (simp_all add: data_key_def joinq.simps)
  then show ?thesis using split_once_joinq [OF _ _ assms, of "[''data'', '':'', '''']"] by simp
qed

lemma drop_joinq:
  "drop 7 (joinq (''type'' # ('':1'' @ x) # ss)) = joinq (x # ss)"
  "drop 7 (joinq (''data'' # '':'' # d # ss)) = joinq (d # ss)"
  by (cases ss; simp add: joinq.simps)+

text \<open>The pieces after the type.\<close>

definition record_end :: "nat \<Rightarrow> string \<Rightarrow> string \<Rightarrow> string list" where
  "record_end l d z = [''TTL'', '':'' @ show_nat l @ '','', ''data'', '':'', d, CHR 0x7D # z]"

lemma no_type_later:
  assumes "no_quote s" "no_quote d" "no_quote z"
  shows "split_once type_1 (joinq (s # record_end l d z)) = None"
  using assms by (simp add: split_type_1 record_end_def)

lemma record_type_a:
  assumes "record_plain (n, t, l, d)" and "no_quote z"
  shows "record_is_type_a (joinq (record_pieces (n, t, l, d) z)) \<longleftrightarrow> t = 1"
proof -
  have free: "no_quote n" "no_quote d" "no_quote z"
    using assms record_plainD by blast+
  have pieces: "record_pieces (n, t, l, d) z =
      '''' # ''name'' # '':'' # n # '','' # ''type'' # ('':'' @ show_nat t @ '','') # record_end l d z"
    by (simp add: record_pieces_def record_end_def)
  have fr: "list_all no_quote (record_end l d z)" using free by (simp add: record_end_def)
  show ?thesis
  proof (cases "\<exists>r. show_nat t = CHR ''1'' # r")
    case True
    then obtain r where r: "show_nat t = CHR ''1'' # r" by blast
    have rq: "no_quote (r @ '','')" using digit_no_quote [of t] by (simp add: r)
    have "\<exists>p. split_once type_1 (joinq (record_pieces (n, t, l, d) z)) =
        Some (p, joinq ((r @ '','') # record_end l d z))"
      unfolding pieces using free fr rq
      by (simp add: split_type_1 r drop_joinq [of "r @ '',''", simplified] record_end_def)
    then obtain p where p: "split_once type_1 (joinq (record_pieces (n, t, l, d) z)) =
        Some (p, joinq ((r @ '','') # record_end l d z))" by blast
    have "record_is_type_a (joinq ((r @ '','') # record_end l d z)) = False"
      using no_type_later [OF rq free(2,3)] by (subst record_is_type_a.simps) simp
    moreover have "joinq ((r @ '','') # record_end l d z) = r @ CHR '','' # CHR 0x22 # joinq (record_end l d z)"
      by (simp add: record_end_def joinq.simps)
    moreover have "r \<noteq> '''' \<Longrightarrow> is_ascii_digit (hd r)"
      using show_nat_plain [of "hd r" t] by (simp add: r)
    moreover have "\<not> is_ascii_digit (CHR '','')" by (simp add: is_ascii_digit_def)
    ultimately have "record_is_type_a (joinq (record_pieces (n, t, l, d) z)) \<longleftrightarrow> r = ''''"
      by (subst record_is_type_a.simps) (simp add: p hd_append)
    then show ?thesis using show_nat_one [OF r] by simp
  next
    case False
    have "show_nat t \<noteq> ''''" using show_nat_digits [of t] by (simp add: all_digits_def)
    with False have "take 1 (show_nat t @ '','') \<noteq> ''1''" by (cases "show_nat t") auto
    then have "split_once type_1 (joinq (record_pieces (n, t, l, d) z)) = None"
      unfolding pieces using free fr no_type_later [of "'':'' @ show_nat t @ '',''" d z l]
      by (simp add: split_type_1)
    moreover have "t \<noteq> 1" using False by (auto simp: show_nat.simps digit_char_def char_of_def bit_simps)
    ultimately show ?thesis by (subst record_is_type_a.simps) simp
  qed
qed

lemma record_data:
  assumes "record_plain (n, t, l, d)" and "no_quote z"
  shows "second_piece data_key (joinq (record_pieces (n, t, l, d) z)) = Some (d @ CHR 0x22 # CHR 0x7D # z)"
proof -
  have free: "no_quote n" "no_quote d" "no_quote z" using assms record_plainD by blast+
  have rest: "split_once data_key (joinq (d # [CHR 0x7D # z])) = None"
    using free by (simp add: split_data)
  have "\<exists>p. split_once data_key (joinq (record_pieces (n, t, l, d) z)) = Some (p, joinq (d # [CHR 0x7D # z]))"
    using free by (simp add: split_data record_pieces_def drop_joinq)
  then show ?thesis using rest by (auto simp: second_piece_def) (simp add: joinq.simps)
qed

lemma record_ip_exact:
  assumes "record_plain (n, t, l, d)" and "no_quote z"
  shows "record_ip (joinq (record_pieces (n, t, l, d) z)) = (if t = 1 \<and> d \<noteq> '''' then [d] else [])"
proof -
  have d: "no_quote d" "trim d = d" using record_plainD [OF assms(1)] by blast+
  have "hd (split_on (\<lambda>c. c = CHR 0x22) (d @ CHR 0x22 # CHR 0x7D # z)) = d"
    using d(1) by (subst split_on_append) auto
  then show ?thesis
    unfolding record_ip_def record_type_a [OF assms] record_data [OF assms] using d trim_graphic [of "''''"] by simp
qed

section \<open>The answer section\<close>

definition doh_record :: "string \<times> nat \<times> nat \<times> string \<Rightarrow> string" where
  "doh_record r = (case r of (n, t, l, d) \<Rightarrow>
     [CHR 0x7B] @ quoted ''name'' @ '':'' @ quoted n @ '','' @ quoted ''type'' @ '':'' @ show_nat t @ '',''
     @ quoted ''TTL'' @ '':'' @ show_nat l @ '','' @ quoted ''data'' @ '':'' @ quoted d @ [CHR 0x7D])"

fun commas :: "string list \<Rightarrow> string" where
  "commas [] = ''''"
| "commas [s] = s"
| "commas (s # t # ss) = s @ '','' @ commas (t # ss)"

definition doh_body :: "string \<Rightarrow> (string \<times> nat \<times> nat \<times> string) list \<Rightarrow> string \<Rightarrow> string" where
  "doh_body pre rs post = pre @ quoted ''Answer'' @ '':['' @ commas (map doh_record rs) @ '']'' @ post"

lemma doh_record_pieces: "doh_record r @ z = CHR 0x7B # joinq (record_pieces r z)"
  by (cases r) (simp add: doh_record_def record_pieces_def joinq.simps)

lemma doh_record_head: "\<exists>u. doh_record r = CHR 0x7B # u"
  by (cases r) (simp add: doh_record_def)

lemma record_chars:
  assumes "record_plain r" and "c \<in> set (doh_record r)"
  shows "is_graphic c" "c \<noteq> CHR '']''" "c \<noteq> CHR ''[''" "ord c < 128"
proof -
  obtain n t l d where r: "r = (n, t, l, d)" by (cases r)
  have plain: "is_graphic c \<and> c \<noteq> CHR '']'' \<and> c \<noteq> CHR ''[''" if "c \<in> set n \<union> set d"
    using assms(1) that unfolding r record_plain_def json_plain_def by auto
  have digit: "is_graphic c \<and> c \<noteq> CHR '']'' \<and> c \<noteq> CHR ''[''" if "c \<in> set (show_nat t) \<union> set (show_nat l)"
  proof -
    have "is_ascii_digit c" using that show_nat_plain by blast
    then show ?thesis using digit_graphic [of c] by (auto simp: is_ascii_digit_def)
  qed
  have "c \<in> set n \<union> set d \<or> c \<in> set (show_nat t) \<union> set (show_nat l)
      \<or> c \<in> set ([CHR 0x7B, CHR 0x7D, CHR 0x22] @ ''nametypeTTLdata:,'')"
    using assms(2) unfolding r doh_record_def by auto
  then have g: "is_graphic c \<and> c \<noteq> CHR '']'' \<and> c \<noteq> CHR ''[''"
    using plain digit by (elim disjE) (auto simp: is_graphic_def)
  then show "is_graphic c" "c \<noteq> CHR '']''" "c \<noteq> CHR ''[''" by simp_all
  show "ord c < 128" using g by (simp add: is_graphic_def)
qed

lemma commas_chars: "c \<in> set (commas ss) \<Longrightarrow> c = CHR '','' \<or> (\<exists>s \<in> set ss. c \<in> set s)"
  by (induction ss rule: commas.induct) auto

text \<open>Splitting the array at its opening braces gives one piece per record.\<close>

lemma pieces_no_brace:
  assumes "record_plain r" and "CHR 0x7B \<notin> set z" shows "CHR 0x7B \<notin> set (joinq (record_pieces r z))"
proof -
  obtain n t l d where r: "r = (n, t, l, d)" by (cases r)
  have "CHR 0x7B \<notin> set n" "CHR 0x7B \<notin> set d"
    using assms(1) unfolding r record_plain_def json_plain_def by auto
  moreover have "CHR 0x7B \<notin> set (show_nat k)" for k
    using show_nat_plain [of "CHR 0x7B" k] by (auto simp: is_ascii_digit_def)
  ultimately show ?thesis using assms(2) by (simp add: r record_pieces_def joinq.simps)
qed

lemma split_records:
  assumes "list_all record_plain rs" and "rs \<noteq> []"
  shows "split_on (\<lambda>c. c = CHR 0x7B) (commas (map doh_record rs)) =
    '''' # map (\<lambda>r. joinq (record_pieces r '','')) (butlast rs) @ [joinq (record_pieces (last rs) '''')]"
  using assms
proof (induction rs rule: induct_list012)
  case (2 r)
  have "split_on (\<lambda>c. c = CHR 0x7B) (joinq (record_pieces r '''')) = [joinq (record_pieces r '''')]"
    using pieces_no_brace [of r "''''"] 2 by (intro split_on_none) auto
  then show ?case using doh_record_pieces [of r "''''"] by simp
next
  case (3 r r' rs)
  let ?rest = "commas (map doh_record (r' # rs))"
  have p: "CHR 0x7B \<notin> set (joinq (record_pieces r '',''))"
    using pieces_no_brace [of r "'',''"] 3(3) by simp
  have IH: "split_on (\<lambda>c. c = CHR 0x7B) ?rest =
    '''' # map (\<lambda>r. joinq (record_pieces r '','')) (butlast (r' # rs)) @ [joinq (record_pieces (last (r' # rs)) '''')]"
    using 3 by simp
  have head: "\<exists>u. ?rest = CHR 0x7B # u"
    using doh_record_head [of r'] by (cases rs) auto
  then obtain u where u: "?rest = CHR 0x7B # u" by blast
  have eq: "commas (map doh_record (r # r' # rs)) = CHR 0x7B # (joinq (record_pieces r '','') @ CHR 0x7B # u)"
    using doh_record_pieces [of r "'',''"] u by simp
  have sp: "split_on (\<lambda>c. c = CHR 0x7B) (joinq (record_pieces r '','') @ CHR 0x7B # u) =
      joinq (record_pieces r '','') # split_on (\<lambda>c. c = CHR 0x7B) u"
    using p by (intro split_on_append) auto
  have "split_on (\<lambda>c. c = CHR 0x7B) u =
      map (\<lambda>r. joinq (record_pieces r '','')) (butlast (r' # rs)) @ [joinq (record_pieces (last (r' # rs)) '''')]"
    using IH unfolding u by simp
  then show ?case unfolding eq by (simp add: sp)
qed simp

text \<open>A response with an alias, a text record and an address, and glue after it.\<close>

definition sample_records :: "(string \<times> nat \<times> nat \<times> string) list" where
  "sample_records =
     [(''x.co.uk'', 5, 300, ''alias.example.''), (''x.co.uk'', 16, 300, ''v=spf1''),
      (''x.co.uk'', 1, 300, ''104.21.75.42'')]"


section \<open>What the resolver answers\<close>

definition valid_ip :: "string \<Rightarrow> bool" where
  "valid_ip ip \<longleftrightarrow> is_ipv4 ip \<or> (\<exists>gs. length gs = 8 \<and> ip = show_ipv6 gs)"

lemma read_groups_length: "read_groups i n s = (gs, v4, rest) \<Longrightarrow> length gs \<le> n"
  by (induction i n s arbitrary: gs v4 rest rule: read_groups.induct)
    (auto split: option.splits list.splits prod.splits if_splits)

lemma parse_ipv6_length: "parse_ipv6 s = Some gs \<Longrightarrow> length gs = 8"
proof -
  assume p: "parse_ipv6 s = Some gs"
  obtain h v4 r where h: "read_groups 0 8 s = (h, v4, r)" by (metis prod_cases3)
  show "length gs = 8"
  proof (cases "length h = 8")
    case True
    then show ?thesis using p h by (auto simp: parse_ipv6_def split: if_splits)
  next
    case False
    with read_groups_length [OF h] have n: "length h \<le> 7" by simp
    obtain r' where r': "strip_prefix ''::'' r = Some r'"
      using p h False by (auto simp: parse_ipv6_def split: if_splits option.splits)
    obtain t v4' r'' where t: "read_groups 0 (8 - (length h + 1)) r' = (t, v4', r'')" by (metis prod_cases3)
    then have "gs = h @ replicate (8 - length h - length t) 0 @ t"
      using p h False r' by (simp add: parse_ipv6_def split: if_splits)
    then show ?thesis using read_groups_length [OF t] n by simp
  qed
qed

lemma parsed_valid: "parse_ipv6 c = Some gs \<Longrightarrow> valid_ip (show_ipv6 gs)"
  using parse_ipv6_length by (auto simp: valid_ip_def)

lemma pick_from_valid:
  "pick_from f cs = Some ip \<Longrightarrow> (\<And>g. f = Some g \<Longrightarrow> valid_ip g) \<Longrightarrow> valid_ip ip"
proof (induction cs arbitrary: f)
  case (Cons c cs)
  show ?case
  proof (cases "is_ipv4 (trim c)")
    case True
    then show ?thesis using Cons.prems(1) by (simp add: valid_ip_def)
  next
    case False
    then obtain g where "pick_from g cs = Some ip" "\<And>x. g = Some x \<Longrightarrow> valid_ip x"
      using Cons.prems parsed_valid by (auto simp: Let_def split: option.splits if_splits)
    then show ?thesis by (rule Cons.IH)
  qed
qed simp

lemma pick_prefers_v4: "c \<in> set cs \<Longrightarrow> is_ipv4 (trim c) \<Longrightarrow> \<exists>ip. pick_from f cs = Some ip \<and> is_ipv4 ip"
  by (induction f cs rule: pick_from.induct) (auto simp: Let_def split: option.split)

lemma doh_ips_valid: "doh_ips net host path ips = Some ip \<Longrightarrow> valid_ip ip"
  by (induction ips)
    (auto simp: pick_preferred_ip_def dest: pick_from_valid split: option.splits bind_splits)

lemma doh_task_valid: "doh_task net sys domain i = Some ip \<Longrightarrow> valid_ip ip"
  by (auto simp: doh_task_def doh_query_def system_lookup_def pick_preferred_ip_def dest: doh_ips_valid
      pick_from_valid split: if_splits bind_splits)

lemma doh_race_answer: "doh_race task is = Some ip \<Longrightarrow> \<exists>i \<in> set is. task i = Some ip"
  by (induction "is") (auto split: option.splits)

lemma doh_race_none: "doh_race task is = None \<longleftrightarrow> (\<forall>i \<in> set is. task i = None)"
  by (induction "is") (auto split: option.split)

text \<open>A look-up: both clocks, the network, the system resolver, the order of the race, the name.\<close>

type_synonym lookup = "nat \<times> nat \<times> doh_net \<times> (string \<Rightarrow> string list option) \<times> nat list \<times> string"

fun doh_run :: "nat \<Rightarrow> lookup list \<Rightarrow> doh_cache \<Rightarrow> string option list" where
  "doh_run ttl [] cache = []"
| "doh_run ttl ((now, done_at, net, sys, order, domain) # ls) cache =
     (case resolve_doh ttl now done_at net sys order domain cache of
        (r, cache') \<Rightarrow> r # doh_run ttl ls cache')"

definition race_of :: "lookup \<Rightarrow> string option" where
  "race_of l = (case l of (now, done_at, net, sys, order, domain) \<Rightarrow>
     doh_race (doh_task net sys (trim domain)) order)"

definition name_of :: "lookup \<Rightarrow> string" where
  "name_of l = (case l of (now, done_at, net, sys, order, domain) \<Rightarrow> trim domain)"

definition start_of :: "lookup \<Rightarrow> nat" where "start_of l = fst l"
definition end_of :: "lookup \<Rightarrow> nat" where "end_of l = fst (snd l)"

text \<open>Every entry of the cache is the answer of a race that was run for it.\<close>

definition cache_from :: "nat \<Rightarrow> lookup list \<Rightarrow> doh_cache \<Rightarrow> bool" where
  "cache_from ttl past cache \<longleftrightarrow>
     (\<forall>d ip x. cache d = Some (ip, x) \<longrightarrow>
        (\<exists>l \<in> set past. name_of l = d \<and> race_of l = Some ip \<and> x = end_of l + ttl))"

lemma cache_from_mono: "cache_from ttl past cache \<Longrightarrow> cache_from ttl (past @ [l]) cache"
  unfolding cache_from_def by (simp only: set_append Un_iff) blast

lemma resolve_step:
  assumes "cache_from ttl past cache" and "resolve_doh ttl now done_at net sys order domain cache = (r, cache')"
  defines "l \<equiv> (now, done_at, net, sys, order, domain)"
  shows "cache_from ttl (past @ [l]) cache'"
    and "r = Some ip \<Longrightarrow> race_of l = Some ip
      \<or> (\<exists>k \<in> set past. name_of k = name_of l \<and> race_of k = Some ip \<and> now < end_of k + ttl)"
    and "r = None \<Longrightarrow> name_of l = '''' \<or> race_of l = None"
proof -
  let ?race = "doh_race (doh_task net sys (trim domain)) order"
  have l: "name_of l = trim domain" "race_of l = ?race" "end_of l = done_at"
    by (simp_all add: l_def name_of_def race_of_def end_of_def)
  have cases: "(r = None \<and> cache' = cache \<and> (trim domain = '''' \<or> ?race = None))
      \<or> (\<exists>a x. r = Some a \<and> cache' = cache \<and> cache (trim domain) = Some (a, x) \<and> now < x)
      \<or> (\<exists>a. r = Some a \<and> ?race = Some a \<and> cache' = cache(trim domain \<mapsto> (a, done_at + ttl)))"
    using assms(2) by (cases ?race) (auto simp: resolve_doh_def Let_def split: if_splits option.splits)
  have old: "cache_from ttl (past @ [l]) cache" by (rule cache_from_mono [OF assms(1)])
  show "cache_from ttl (past @ [l]) cache'"
    using cases
  proof (elim disjE exE conjE)
    fix a assume a: "?race = Some a" "cache' = cache(trim domain \<mapsto> (a, done_at + ttl))"
    then show ?thesis using old l unfolding cache_from_def by auto
  qed (use old in simp_all)
  show "race_of l = Some ip \<or> (\<exists>k \<in> set past. name_of k = name_of l \<and> race_of k = Some ip \<and> now < end_of k + ttl)"
    if "r = Some ip"
    using cases
  proof (elim disjE exE conjE)
    fix a x assume a: "r = Some a" "cache (trim domain) = Some (a, x)" "now < x"
    obtain k where k: "k \<in> set past" "name_of k = trim domain" "race_of k = Some a" "x = end_of k + ttl"
      using assms(1) a(2) unfolding cache_from_def by blast
    then show ?thesis using a that l by (intro disjI2 bexI [of _ k]) simp_all
  qed (use that l in simp_all)
  show "r = None \<Longrightarrow> name_of l = '''' \<or> race_of l = None" using cases l by auto
qed

lemma doh_run_length [simp]: "length (doh_run ttl ls cache) = length ls"
  by (induction ttl ls cache rule: doh_run.induct) (simp_all split: prod.split)

lemma doh_run_recent:
  assumes "cache_from ttl past cache" and "i < length ls"
  shows "case doh_run ttl ls cache ! i of
      Some ip \<Rightarrow> race_of (ls ! i) = Some ip
        \<or> (\<exists>k \<in> set (past @ take i ls). name_of k = name_of (ls ! i) \<and> race_of k = Some ip
             \<and> start_of (ls ! i) < end_of k + ttl)
    | None \<Rightarrow> name_of (ls ! i) = '''' \<or> race_of (ls ! i) = None"
  using assms
proof (induction ls arbitrary: past cache i)
  case (Cons l ls)
  obtain now done_at net sys order domain where l: "l = (now, done_at, net, sys, order, domain)"
    by (cases l)
  obtain r cache' where r: "resolve_doh ttl now done_at net sys order domain cache = (r, cache')" by fastforce
  note step = resolve_step [OF Cons.prems(1) r, folded l]
  show ?case
  proof (cases i)
    case 0
    then have head: "doh_run ttl (l # ls) cache ! i = r" "(l # ls) ! i = l" "take i (l # ls) = []"
      by (simp_all add: l r)
    have "start_of l = now" by (simp add: l start_of_def)
    then show ?thesis unfolding head using step(2,3) by (cases r) auto
  next
    case (Suc j)
    then have tail: "doh_run ttl (l # ls) cache ! i = doh_run ttl ls cache' ! j" "(l # ls) ! i = ls ! j"
        "past @ take i (l # ls) = (past @ [l]) @ take j ls"
      by (simp_all add: l r)
    show ?thesis unfolding tail using Cons.IH [OF step(1), of j] Cons.prems(2) Suc by simp
  qed
qed simp

text \<open>
  C17: The resolver never invents an address and never serves an old one: in any sequence of
  look-ups, every address returned is a valid one that a service or the system resolver gave for
  that very name, in this look-up or in an earlier one that ended less than the time to live of the
  cache ago; and a look-up without an answer means that no resolver gave one in time.
\<close>

theorem doh_answers_recent:
  assumes "i < length ls"
  shows "case doh_run ttl ls Map.empty ! i of
      Some ip \<Rightarrow> valid_ip ip
        \<and> (race_of (ls ! i) = Some ip
           \<or> (\<exists>k \<in> set (take i ls). name_of k = name_of (ls ! i) \<and> race_of k = Some ip
                \<and> start_of (ls ! i) < end_of k + ttl))
    | None \<Rightarrow> name_of (ls ! i) = '''' \<or> race_of (ls ! i) = None"
proof -
  have "cache_from ttl [] Map.empty" by (simp add: cache_from_def)
  from doh_run_recent [OF this assms] have run: "case doh_run ttl ls Map.empty ! i of
      Some ip \<Rightarrow> race_of (ls ! i) = Some ip
        \<or> (\<exists>k \<in> set (take i ls). name_of k = name_of (ls ! i) \<and> race_of k = Some ip
             \<and> start_of (ls ! i) < end_of k + ttl)
    | None \<Rightarrow> name_of (ls ! i) = '''' \<or> race_of (ls ! i) = None" unfolding append_Nil .
  moreover have "valid_ip ip" if "race_of k = Some ip" for k ip
    using that doh_race_answer doh_task_valid by (fastforce simp: race_of_def split: prod.splits)
  ultimately show ?thesis
    by (cases "doh_run ttl ls Map.empty ! i") (simp_all only: option.case, blast+)
qed

text \<open>The second look-up is served from the cache, the third one too late for it.\<close>

definition sample_lookup :: "nat \<Rightarrow> string list option \<Rightarrow> lookup" where
  "sample_lookup t answer = (t, t + 1, (\<lambda>ip. None), (\<lambda>d. answer), [0, 4], '' kws2.a.co.uk'')"

theorem doh_answers_recent_witness:
  "doh_run 300 [sample_lookup 0 (Some [''1.2.3.4'']), sample_lookup 300 None, sample_lookup 301 None] Map.empty ! 2
   \<noteq> Some ''1.2.3.4''"
proof
  assume a: "doh_run 300 [sample_lookup 0 (Some [''1.2.3.4'']), sample_lookup 300 None, sample_lookup 301 None]
    Map.empty ! 2 = Some ''1.2.3.4''"
  have none: "race_of (sample_lookup t None) = None" for t
    by (simp add: race_of_def sample_lookup_def doh_task_def DOH_ENDPOINTS_def doh_query_def https_get_json_def
        system_lookup_def)
  have "start_of (sample_lookup t x) = t" "end_of (sample_lookup t x) = t + 1" for t x
    by (simp_all add: sample_lookup_def start_of_def end_of_def)
  then show False
    using doh_answers_recent [of 2 "[sample_lookup 0 (Some [''1.2.3.4'']), sample_lookup 300 None,
      sample_lookup 301 None]" 300] a none
    by (simp add: numeral_2_eq_2)
qed

end
