(* ===== verification/Check.thy ===== *)
theory Check
  imports Daemon
begin

text \<open>
  \<open>check.rs\<close>: the connectivity check of \<open>wrtg --check\<close>. The network is the record \<open>check_net\<close>: what
  looking up a host gives, and the outcome of a direct, a Worker and a proxy WebSocket. The elapsed
  time of a probe is only printed and is left out, and so is the printing itself.
\<close>

section \<open>Probes\<close>

datatype dns_answer = Addrs "string list" | DnsError string | DnsTimeout

record check_net =
  ck_dns :: "string \<Rightarrow> dns_answer"
  ck_con :: connector
  ck_worker :: "string \<Rightarrow> string \<Rightarrow> int \<Rightarrow> ws_connect_error + unit"

record probe =
  pr_label :: string
  pr_ok :: bool
  pr_detail :: string

definition probe_passed :: "string \<Rightarrow> string \<Rightarrow> probe" where
  "probe_passed label detail = \<lparr>pr_label = label, pr_ok = True, pr_detail = detail\<rparr>"

definition probe_fail :: "string \<Rightarrow> string \<Rightarrow> probe" where
  "probe_fail label detail = \<lparr>pr_label = label, pr_ok = False, pr_detail = detail\<rparr>"

definition probe_dns :: "check_net \<Rightarrow> string \<Rightarrow> probe" where
  "probe_dns net host =
     (let label = ''DNS '' @ host
      in case ck_dns net host of
           Addrs (ip # _) \<Rightarrow> probe_passed label ip
         | Addrs [] \<Rightarrow> probe_fail label ''no addresses''
         | DnsError e \<Rightarrow> probe_fail label e
         | DnsTimeout \<Rightarrow> probe_fail label ''timeout'')"

definition probe_wss :: "string \<Rightarrow> string + unit \<Rightarrow> probe" where
  "probe_wss label r =
     (case r of Inr _ \<Rightarrow> probe_passed label ''WSS handshake OK'' | Inl e \<Rightarrow> probe_fail label e)"

definition probe_direct_wss :: "check_net \<Rightarrow> string \<Rightarrow> string \<Rightarrow> string + unit" where
  "probe_direct_wss net target_ip domain =
     (case ck_con net target_ip domain of Inr u \<Rightarrow> Inr u | Inl e \<Rightarrow> Inl (ie_msg (into_io e)))"

text \<open>The two closures that turn an error of a Worker or a proxy into text are the same.\<close>

definition probe_error :: "ws_connect_error \<Rightarrow> string" where
  "probe_error e =
     (case e of WsHandshake h \<Rightarrow> ''HTTP '' @ show_nat (he_status_code h) | other \<Rightarrow> ie_msg (into_io other))"

definition probe_cf_worker :: "check_net \<Rightarrow> string \<Rightarrow> string \<Rightarrow> int \<Rightarrow> string + unit" where
  "probe_cf_worker net worker dst_ip dc =
     (case ck_worker net worker dst_ip dc of Inr u \<Rightarrow> Inr u | Inl e \<Rightarrow> Inl (probe_error e))"

definition probe_cf_proxy :: "check_net \<Rightarrow> string \<Rightarrow> string + unit" where
  "probe_cf_proxy net ws_host =
     (case ck_con net ws_host ws_host of Inr u \<Rightarrow> Inr u | Inl e \<Rightarrow> Inl (probe_error e))"

section \<open>The check\<close>

text \<open>The loop over the proxy domains of one datacenter; \<open>prev\<close> is the last probe made.\<close>

fun probe_proxies :: "check_net \<Rightarrow> int \<Rightarrow> string list \<Rightarrow> probe option \<Rightarrow> probe option" where
  "probe_proxies net dc [] prev = prev"
| "probe_proxies net dc (cf_domain # ds) prev =
     (let ws_host = cf_proxy_ws_domain cf_domain dc False;
          p = probe_wss (''DC'' @ show_int dc @ '' proxy '' @ ws_host) (probe_cf_proxy net ws_host)
      in if pr_ok p then Some p else probe_proxies net dc ds (Some p))"

definition probe_dc :: "check_net \<Rightarrow> front_state \<Rightarrow> string list \<Rightarrow> string list \<Rightarrow> int \<Rightarrow> probe list" where
  "probe_dc net st workers proxies dc =
     (let domain = (case ws_domains dc False of d # _ \<Rightarrow> d | [] \<Rightarrow> ''dc'' @ show_int dc)
      in if front_applies_to_dc st dc
         then let ip = dc_front_ip st dc
              in [probe_wss (''DC'' @ show_int dc @ '' front '' @ domain @ '' @ '' @ ip)
                    (probe_direct_wss net ip domain)]
         else case workers of
           worker # _ \<Rightarrow>
             let dst = (case dc_default_ip dc of Some ip \<Rightarrow> ip | None \<Rightarrow> '''')
             in [probe_wss (''DC'' @ show_int dc @ '' worker '' @ worker @ '' -> '' @ dst)
                   (probe_cf_worker net worker dst dc)]
         | [] \<Rightarrow> (case probe_proxies net dc (take 3 proxies) None of Some p \<Rightarrow> [p] | None \<Rightarrow> []))"

definition check_proxies :: "wrtg_config \<Rightarrow> net_state \<Rightarrow> string list" where
  "check_proxies cfg s =
     (if wc_proxy_domains cfg = [] then ba_proxies (ns_bal s) else wc_proxy_domains cfg)"

definition check_probes :: "check_net \<Rightarrow> wrtg_config \<Rightarrow> net_state \<Rightarrow> probe list" where
  "check_probes net cfg s =
     (let workers = ba_workers (ns_bal s);
          proxies = check_proxies cfg s;
          proxy_dns = map (\<lambda>d. cf_proxy_ws_domain d 2 False) (take 3 proxies)
      in map (probe_dns net) (workers @ proxy_dns) @
         concat (map (probe_dc net (ns_front s) workers proxies) [1, 2, 3, 4, 5]))"

definition run_check :: "check_net \<Rightarrow> wrtg_config \<Rightarrow> net_state \<Rightarrow> int" where
  "run_check net cfg s = (if list_all pr_ok (check_probes net cfg s) then 0 else 1)"
section \<open>Properties\<close>

text \<open>What the probes of a host and of a datacenter are about.\<close>

definition resolves :: "check_net \<Rightarrow> string \<Rightarrow> bool" where
  "resolves net host \<longleftrightarrow> (\<exists>ip ips. ck_dns net host = Addrs (ip # ips))"

definition connects :: "ws_connect_error + unit \<Rightarrow> bool" where
  "connects r \<longleftrightarrow> r = Inr ()"

definition path_works :: "check_net \<Rightarrow> front_state \<Rightarrow> string list \<Rightarrow> string list \<Rightarrow> int \<Rightarrow> bool" where
  "path_works net st workers proxies dc \<longleftrightarrow>
     (if front_applies_to_dc st dc then connects (ck_con net (dc_front_ip st dc) (kws_host (fold_dc dc)))
      else if workers \<noteq> [] then connects (ck_worker net (hd workers) (the (dc_default_ip dc)) dc)
      else \<exists>d \<in> set (take 3 proxies).
             let h = cf_proxy_ws_domain d dc False in connects (ck_con net h h))"

lemma probe_dns_ok [simp]: "pr_ok (probe_dns net h) \<longleftrightarrow> resolves net h"
  by (auto simp: probe_dns_def resolves_def probe_passed_def probe_fail_def Let_def
      split: dns_answer.split list.split)

lemma probe_wss_ok [simp]: "pr_ok (probe_wss l r) \<longleftrightarrow> r = Inr ()"
  by (auto simp: probe_wss_def probe_passed_def probe_fail_def split: sum.split)

lemma probe_results [simp]:
  "probe_direct_wss net ip d = Inr () \<longleftrightarrow> connects (ck_con net ip d)"
  "probe_cf_worker net w ip dc = Inr () \<longleftrightarrow> connects (ck_worker net w ip dc)"
  "probe_cf_proxy net h = Inr () \<longleftrightarrow> connects (ck_con net h h)"
  by (auto simp: probe_direct_wss_def probe_cf_worker_def probe_cf_proxy_def connects_def
      split: sum.split)

lemma probe_proxies_ok:
  "(\<exists>p. probe_proxies net dc ds prev = Some p \<and> pr_ok p) \<longleftrightarrow>
   (\<exists>d \<in> set ds. let h = cf_proxy_ws_domain d dc False in connects (ck_con net h h)) \<or>
   ds = [] \<and> (\<exists>p. prev = Some p \<and> pr_ok p)"
  by (induction ds arbitrary: prev) (auto simp: Let_def)

lemma probe_proxies_some: "ds \<noteq> [] \<or> prev \<noteq> None \<Longrightarrow> probe_proxies net dc ds prev \<noteq> None"
  by (induction ds arbitrary: prev) (auto simp: Let_def)

text \<open>A datacenter with no path at all is not probed, so nothing of it can fail.\<close>

lemma probe_dc_ok:
  assumes "dc \<in> {1..5}"
  shows "list_all pr_ok (probe_dc net st workers proxies dc) \<longleftrightarrow>
         path_works net st workers proxies dc \<or>
         \<not> front_applies_to_dc st dc \<and> workers = [] \<and> proxies = []"
proof -
  have ip: "\<exists>a. dc_default_ip dc = Some a"
  proof -
    have "dc = 1 \<or> dc = 2 \<or> dc = 3 \<or> dc = 4 \<or> dc = 5" using assms by auto
    then show ?thesis by (auto simp: dc_default_ip_def dc_default_ips_def fold_dc_def)
  qed
  show ?thesis
  proof (cases "front_applies_to_dc st dc \<or> workers \<noteq> []")
    case True
    then show ?thesis using ip
      by (auto simp: probe_dc_def path_works_def ws_domains_def Let_def neq_Nil_conv split: list.splits)
  next
    case False
    show ?thesis
    proof (cases "proxies = []")
      case True
      with False show ?thesis by (auto simp: probe_dc_def)
    next
      case ne: False
      then have "probe_proxies net dc (take 3 proxies) None \<noteq> None" by (intro probe_proxies_some) auto
      then obtain p where p: "probe_proxies net dc (take 3 proxies) None = Some p" by blast
      have "pr_ok p \<longleftrightarrow> path_works net st workers proxies dc"
        using probe_proxies_ok [of net dc "take 3 proxies" None] p False by (simp add: path_works_def)
      with p False ne show ?thesis by (simp add: probe_dc_def)
    qed
  qed
qed

lemma five_dcs: "{1..5 :: int} = {1, 2, 3, 4, 5}"
  by auto

lemma run_check_zero:
  "run_check net cfg s = 0 \<longleftrightarrow>
     (\<forall>h \<in> set (ba_workers (ns_bal s)). resolves net h) \<and>
     (\<forall>d \<in> set (take 3 (check_proxies cfg s)). resolves net (cf_proxy_ws_domain d 2 False)) \<and>
     (\<forall>dc \<in> {1..5}. list_all pr_ok (probe_dc net (ns_front s) (ba_workers (ns_bal s)) (check_proxies cfg s) dc))"
  by (simp add: run_check_def check_probes_def Let_def list_all_append list.pred_map o_def
      list_all_iff [of "\<lambda>x. resolves net x"] list_all_iff [of "\<lambda>d. resolves net (cf_proxy_ws_domain d 2 False)"]
      five_dcs conj_ac)


text \<open>
  Without a Worker or a proxy domain the datacenters that need one are reported as unreachable in a
  line of text and not counted: with the default front for datacenters 2 and 4 the check passes when
  those two answer, whatever becomes of 1, 3 and 5.
\<close>

lemma check_passes_without_paths:
  assumes "ba_workers (ns_bal s) = []" and "check_proxies cfg s = []"
    and "\<forall>dc \<in> {1..5}. front_applies_to_dc (ns_front s) dc \<longrightarrow>
           path_works net (ns_front s) [] [] dc"
  shows "run_check net cfg s = 0"
  using assms run_check_zero [of net cfg s] probe_dc_ok [of _ net "ns_front s" "[]" "[]"]
  by (auto simp del: atLeastAtMost_iff)

text \<open>The stock settings with a network on which everything answers, and one on which nothing connects.\<close>

definition open_net :: check_net where
  "open_net = \<lparr>ck_dns = (\<lambda>_. Addrs [''203.0.113.1'']), ck_con = (\<lambda>_ _. Inr ()), ck_worker = (\<lambda>_ _ _. Inr ())\<rparr>"

definition cut_net :: check_net where
  "cut_net = \<lparr>ck_dns = (\<lambda>_. Addrs [''203.0.113.1'']), ck_con = (\<lambda>_ _. Inl WsTimeout), ck_worker = (\<lambda>_ _ _. Inl WsTimeout)\<rparr>"

lemma stock_pool: "check_proxies (load_from stock_env) stock_state \<noteq> []"
  by (simp add: check_proxies_def stock_shared default_domains)


end
