(* ===== verification/Host_Os.thy ===== *)
theory Host_Os
  imports Session
begin

text \<open>
  \<open>sockopt\<close> and \<open>logger.rs\<close>: what the daemon computes from the answers of the kernel and for its log.
  The calls that make a listener and tune a connection are in \<open>Sockets\<close>.
\<close>

section \<open>Sockets\<close>

definition RELAY_BUF_SIZE :: nat where "RELAY_BUF_SIZE = 128 * 1024"
definition TCP_BUF_SIZE :: nat where "TCP_BUF_SIZE = 512 * 1024"
definition AF_INET :: nat where "AF_INET = 2"

definition tcp_keepalive_time :: "(string \<Rightarrow> string option) \<Rightarrow> nat" where
  "tcp_keepalive_time env = env_secs_pos (env ''WRTG_TCP_KEEPALIVE_SEC'') 30"

text \<open>Port and address are kept as the bytes in memory, the family as the number it is.\<close>

record sockaddr_in =
  sin_family :: nat
  sin_port :: "byte \<times> byte"
  sin_addr :: "byte \<times> byte \<times> byte \<times> byte"

text \<open>The argument is what \<open>getsockopt\<close> gives: an error or the filled structure.\<close>

definition get_original_dst :: "io_error + sockaddr_in \<Rightarrow> io_error + string \<times> nat" where
  "get_original_dst ret =
     (case ret of
        Inl e \<Rightarrow> Inl e
      | Inr sa \<Rightarrow>
          if sin_family sa \<noteq> AF_INET
          then Inl (io_err OtherIo ''SO_ORIGINAL_DST returned a non-IPv4 address'')
          else (case sin_addr sa of (a, b, c, d) \<Rightarrow>
                  Inr (show_nat (unat a) @ ''.'' @ show_nat (unat b) @ ''.'' @ show_nat (unat c) @ ''.'' @
                       show_nat (unat d),
                       u16_be (fst (sin_port sa)) (snd (sin_port sa)))))"

section \<open>The log\<close>

datatype level = LError | LWarn | LInfo | LDebug | LTrace

text \<open>\<open>None\<close> is \<open>LevelFilter::Off\<close>, below every level.\<close>

type_synonym level_filter = "level option"

primrec level_rank :: "level \<Rightarrow> nat" where
  "level_rank LError = 1"
| "level_rank LWarn = 2"
| "level_rank LInfo = 3"
| "level_rank LDebug = 4"
| "level_rank LTrace = 5"

primrec level_name :: "level \<Rightarrow> string" where
  "level_name LError = ''ERROR''"
| "level_name LWarn = ''WARN''"
| "level_name LInfo = ''INFO''"
| "level_name LDebug = ''DEBUG''"
| "level_name LTrace = ''TRACE''"

text \<open>Levels are ordered as they are declared, from the gravest on.\<close>

instantiation level :: linorder
begin

definition less_eq_level :: "level \<Rightarrow> level \<Rightarrow> bool" where
  "less_eq_level l m \<longleftrightarrow> level_rank l \<le> level_rank m"

definition less_level :: "level \<Rightarrow> level \<Rightarrow> bool" where
  "less_level l m \<longleftrightarrow> level_rank l < level_rank m"

instance
proof
  fix l m :: level
  assume "l \<le> m" and "m \<le> l"
  then show "l = m" by (cases l; cases m) (simp_all add: less_eq_level_def)
qed (auto simp: less_eq_level_def less_level_def)

end

definition log_enabled :: "level_filter \<Rightarrow> level \<Rightarrow> bool" where
  "log_enabled f l \<longleftrightarrow> (case f of None \<Rightarrow> False | Some m \<Rightarrow> l \<le> m)"

datatype log_stream = Stderr | Stdout

definition log_line :: "level \<Rightarrow> string \<Rightarrow> string \<Rightarrow> string" where
  "log_line l target args =
     ''['' @ level_name l @ replicate (5 - length (level_name l)) (CHR '' '') @ '' '' @ target @ ''] '' @ args"

definition log_record :: "level_filter \<Rightarrow> level \<Rightarrow> string \<Rightarrow> string \<Rightarrow> (log_stream \<times> string) option" where
  "log_record f l target args =
     (if \<not> log_enabled f l then None
      else Some (case l of
                   LError \<Rightarrow> (Stderr, log_line l target args @ [CHR 0x0A])
                 | LWarn \<Rightarrow> (Stderr, log_line l target args @ [CHR 0x0A])
                 | _ \<Rightarrow> (Stdout, log_line l target args @ [CHR 0x0A])))"

text \<open>\<open>parse::<LevelFilter>\<close> ignores the case of the name.\<close>

definition parse_level :: "string \<Rightarrow> level_filter option" where
  "parse_level s =
     (if eq_ignore_ascii_case s ''off'' then Some None
      else map_option Some (find (\<lambda>l. eq_ignore_ascii_case s (level_name l)) [LError, LWarn, LInfo, LDebug, LTrace]))"

definition level_from_env :: "string option \<Rightarrow> level_filter \<Rightarrow> level_filter" where
  "level_from_env raw dflt =
     (case raw of
        None \<Rightarrow> dflt
      | Some r \<Rightarrow> if trim r = '''' then dflt
                  else (case parse_level (trim r) of Some f \<Rightarrow> f | None \<Rightarrow> dflt))"

section \<open>Properties\<close>

text \<open>A severity reaches stderr exactly when it is a warning or an error, and only one stream.\<close>

lemma log_streams:
  "log_record f l target args = Some (to, line) \<Longrightarrow> to = Stderr \<longleftrightarrow> l \<in> {LError, LWarn}"
  by (cases l) (auto simp: log_record_def split: if_splits)

text \<open>A lower threshold writes a part of what a higher one does.\<close>

lemma log_threshold: "m \<le> m' \<Longrightarrow> log_record (Some m) l target args \<in> {None, log_record (Some m') l target args}"
  by (auto simp: log_record_def log_enabled_def)

lemma level_from_env_sample:
  "level_from_env (Some '' Debug '') (Some LInfo) = Some LDebug"
  "level_from_env (Some ''off'') (Some LInfo) = None"
  "level_from_env (Some ''wrtg::bridge=debug'') (Some LInfo) = Some LInfo"
  by code_simp+

text \<open>Four numbers below 256 with dots between them are an address, and the address they came from.\<close>

lemma parse_octet_show:
  assumes "n < 256"
  shows "parse_octet (show_nat n) = Some n"
proof -
  have lead: "digit_char k = CHR ''0'' \<longleftrightarrow> k = 0" if "k < 10" for k
  proof
    assume "digit_char k = CHR ''0''"
    then have "ord (digit_char k) = 48" by simp
    with that show "k = 0" by (simp add: ord_digit_char)
  qed (simp add: digit_char_def char_of_def bit_simps)
  consider (one) "n < 10" | (two) "10 \<le> n" "n < 100" | (three) "100 \<le> n" by linarith
  then have "length (show_nat n) \<le> 3 \<and> (hd (show_nat n) = CHR ''0'' \<longrightarrow> length (show_nat n) = 1)"
  proof cases
    case one then show ?thesis by (simp add: show_nat.simps [of n])
  next
    case two
    then have "n div 10 < 10" by linarith
    with two have "show_nat n = [digit_char (n div 10), digit_char (n mod 10)]"
      by (simp add: show_nat.simps [of n] show_nat.simps [of "n div 10"])
    with two show ?thesis by (simp add: lead)
  next
    case three
    with assms have "n div 10 div 10 < 10" "\<not> n div 10 < 10" by linarith+
    with three have "show_nat n = [digit_char (n div 10 div 10), digit_char (n div 10 mod 10), digit_char (n mod 10)]"
      by (simp add: show_nat.simps [of n] show_nat.simps [of "n div 10"] show_nat.simps [of "n div 10 div 10"])
    with three assms show ?thesis by (simp add: lead)
  qed
  with assms show ?thesis by (simp add: parse_octet_def show_nat_digits digits_value_show_nat)
qed

lemma split_show_nat:
  "split_on (\<lambda>c. c = CHR ''.'') (show_nat n) = [show_nat n]"
  "split_on (\<lambda>c. c = CHR ''.'') (show_nat n @ CHR ''.'' # t) = show_nat n # split_on (\<lambda>c. c = CHR ''.'') t"
proof -
  have "\<forall>c \<in> set (show_nat n). c \<noteq> CHR ''.''"
    using show_nat_digits [of n] by (auto simp: all_digits_def is_ascii_digit_def)
  then show "split_on (\<lambda>c. c = CHR ''.'') (show_nat n) = [show_nat n]"
    "split_on (\<lambda>c. c = CHR ''.'') (show_nat n @ CHR ''.'' # t) = show_nat n # split_on (\<lambda>c. c = CHR ''.'') t"
    by (simp_all add: split_on_none split_on_append)
qed

lemma original_dst_address:
  assumes "get_original_dst (Inr sa) = Inr (ip, port)" and "sin_addr sa = (a, b, c, d)"
  shows "parse_ipv4 ip = Some [unat a, unat b, unat c, unat d]"
proof -
  have oct: "parse_octet (show_nat (unat x)) = Some (unat x)" for x :: byte
    by (intro parse_octet_show) (use unsigned_less [of x] in simp)
  have "ip = show_nat (unat a) @ ''.'' @ show_nat (unat b) @ ''.'' @ show_nat (unat c) @ ''.'' @ show_nat (unat d)"
    using assms by (simp add: get_original_dst_def split: if_splits)
  then show ?thesis
    by (simp add: parse_ipv4_def is_ipv4_def split_show_nat oct digits_value_show_nat)
qed

lemma relay_raw_no_drop: "relay_raw lc c bw ip port str raw s \<noteq> Some (SelfDropped, s')"
  by (auto simp: relay_raw_def split: option.splits)

lemma handshake_no_drop:
  "handle_handshake ks lc c w bw clk draws hs client ip port s \<noteq> Some (SelfDropped, s')"
  by (auto simp: handle_handshake_def blind_relay_prefixed_def relay_raw_no_drop case_prod_unfold Let_def
      split: option.splits sum.splits)

lemma drop_iff_self:
  "(\<exists>s'. handle_conn us ks lc c w bw iclk iclk2 clk draws (Some (ip, port)) stream s = Some (SelfDropped, s'))
   \<longleftrightarrow> is_self_target (bn_self bw) ip port"
  by (auto simp: handle_conn_def relay_raw_no_drop handshake_no_drop split: option.splits parsed_init.splits)

text \<open>
  C27: The guard against connections of the daemon to itself is exact on what the kernel reports: of
  an IPv4 original destination, written out as text and read back, the connection is dropped if and
  only if its four bytes and its port are those of the listener.
\<close>
theorem self_connect_guard_exact:
  assumes "get_original_dst (Inr sa) = Inr (ip, port)" and "sin_addr sa = (a, b, c, d)"
  shows "(\<exists>s'. handle_conn us ks lc cfg w bw iclk iclk2 clk draws (Some (ip, port)) stream s = Some (SelfDropped, s'))
    \<longleftrightarrow> bn_self bw = Some ([unat a, unat b, unat c, unat d], u16_be (fst (sin_port sa)) (snd (sin_port sa)))"
proof -
  have "port = u16_be (fst (sin_port sa)) (snd (sin_port sa))"
    using assms by (simp add: get_original_dst_def split: if_splits prod.splits)
  then show ?thesis
    unfolding drop_iff_self using original_dst_address [OF assms]
    by (auto simp: is_self_target_def split: option.splits)
qed

text \<open>The daemon listens at 10.0.0.1:443; the kernel reports that address, and one of another port.\<close>

definition self_blind :: blind_net where
  "self_blind = sample_blind\<lparr>bn_self := Some ([10, 0, 0, 1], 443)\<rparr>"

theorem self_connect_guard_exact_witness:
  "(\<exists>s'. handle_conn (2 ^ 64) (\<lambda>k i n. 0) id sample_cfg sample_world self_blind (\<lambda>k. 0) (\<lambda>k. 0) (\<lambda>k. 0)
      [] (Some (''10.0.0.1'', 443)) [] sample_net = Some (SelfDropped, s'))
   \<and> \<not> (\<exists>s'. handle_conn (2 ^ 64) (\<lambda>k i n. 0) id sample_cfg sample_world self_blind (\<lambda>k. 0) (\<lambda>k. 0) (\<lambda>k. 0)
      [] (Some (''10.0.0.1'', 444)) [] sample_net = Some (SelfDropped, s'))"
proof -
  let ?sa = "\<lambda>lo. \<lparr>sin_family = AF_INET, sin_port = (1, lo), sin_addr = (10, 0, 0, 1)\<rparr>"
  have "get_original_dst (Inr (?sa 187)) = Inr (''10.0.0.1'', 443)"
    "get_original_dst (Inr (?sa 188)) = Inr (''10.0.0.1'', 444)"
    by code_simp+
  then show ?thesis
    by (auto simp: self_connect_guard_exact self_blind_def u16_be_def)
qed

end
