(* ===== verification/Sockets.thy ===== *)
theory Sockets
  imports Watchdog Host_Os Daemon
begin

text \<open>
  The system calls of \<open>sockopt\<close> and of the accept loop's rebind: which are made, in which order, and
  what an error does. What the kernel answers is a parameter, given the addresses on which a socket
  listens already. An IPv6 address is recognised by the parameter \<open>v6\<close> and known by its text. At the
  end, the socket of the statistics (\<open>stats.rs\<close>).
\<close>

section \<open>System calls\<close>

datatype addr = V4 "nat list" nat | V6 string

text \<open>\<open>SocketAddr::from_str\<close>\<close>

definition parse_socket_addr :: "(string \<Rightarrow> bool) \<Rightarrow> string \<Rightarrow> addr option" where
  "parse_socket_addr v6 s =
     (case split_once '':'' s of
        Some (ip, port) \<Rightarrow>
          (case parse_ipv4 ip of
             Some octets \<Rightarrow>
               if all_digits port \<and> digits_value port < 2 ^ 16 then Some (V4 octets (digits_value port)) else None
           | None \<Rightarrow> if v6 s then Some (V6 s) else None)
      | None \<Rightarrow> None)"

datatype syscall =
    NewSocket bool
  | SetReuseAddr
  | SetTransparent
  | Bind addr
  | Listen nat
  | SetNonblocking
  | Register
  | SetNodelay
  | SetRecvBuffer nat
  | SetSendBuffer nat
  | SetKeepalive nat

text \<open>Calls joined by \<open>?\<close>: those made, and the error at which they end.\<close>

fun call_all :: "(syscall \<Rightarrow> io_error option) \<Rightarrow> syscall list \<Rightarrow> syscall list \<times> io_error option" where
  "call_all answer [] = ([], None)"
| "call_all answer (c # cs) =
     (case answer c of
        Some e \<Rightarrow> ([c], Some e)
      | None \<Rightarrow> (case call_all answer cs of (made, r) \<Rightarrow> (c # made, r)))"

definition listen_calls :: "addr \<Rightarrow> syscall list" where
  "listen_calls a =
     [NewSocket (case a of V4 _ _ \<Rightarrow> True | V6 _ \<Rightarrow> False), SetReuseAddr, SetTransparent, Bind a, Listen 128,
      SetNonblocking, Register]"

definition listen_transparent ::
  "(string \<Rightarrow> bool) \<Rightarrow> (syscall \<Rightarrow> io_error option) \<Rightarrow> string \<Rightarrow> syscall list \<times> io_error option" where
  "listen_transparent v6 answer text =
     (case parse_socket_addr v6 text of
        None \<Rightarrow> ([], Some (io_err OtherIo ''invalid socket address syntax''))
      | Some a \<Rightarrow> call_all answer (listen_calls a))"

definition bind_transparent ::
  "(string \<Rightarrow> bool) \<Rightarrow> (syscall \<Rightarrow> io_error option) \<Rightarrow> string \<Rightarrow> syscall list \<times> io_error option" where
  "bind_transparent v6 answer listen_addr = listen_transparent v6 answer listen_addr"

text \<open>The options of an accepted connection: each is set whatever the others answer.\<close>

definition tune_tcp ::
  "(string \<Rightarrow> string option) \<Rightarrow> (syscall \<Rightarrow> io_error option) \<Rightarrow> (syscall \<times> io_error option) list" where
  "tune_tcp env answer =
     map (\<lambda>c. (c, answer c))
       [SetNodelay, SetRecvBuffer TCP_BUF_SIZE, SetSendBuffer TCP_BUF_SIZE, SetKeepalive (tcp_keepalive_time env)]"

section \<open>Listening\<close>

lemma call_all_ok: "snd (call_all answer cs) = None \<longleftrightarrow> (\<forall>c \<in> set cs. answer c = None)"
  by (induction cs) (auto simp: case_prod_unfold split: option.split)

lemma call_all_made: "snd (call_all answer cs) = None \<Longrightarrow> fst (call_all answer cs) = cs"
  by (induction cs) (auto simp: case_prod_unfold split: option.splits)

text \<open>A listener is transparent, and has the address it was asked for.\<close>

lemma listen_transparent_ok:
  "snd (listen_transparent v6 answer text) = None \<longleftrightarrow>
     (\<exists>a. parse_socket_addr v6 text = Some a \<and> (\<forall>c \<in> set (listen_calls a). answer c = None))"
  by (auto simp: listen_transparent_def call_all_ok split: option.split)

text \<open>No call is made after a failed one, so nothing is bound before it is transparent.\<close>

lemma call_all_prefix: "\<exists>rest. cs = fst (call_all answer cs) @ rest"
  by (induction cs) (auto simp: case_prod_unfold split: option.split)

lemma call_all_before:
  "fst (call_all answer cs) = xs @ c # ys \<Longrightarrow> x \<in> set xs \<Longrightarrow> answer x = None"
  by (induction cs arbitrary: xs) (auto simp: case_prod_unfold Cons_eq_append_conv split: option.splits)

lemma bound_transparent:
  assumes "fst (listen_transparent v6 answer text) = xs @ Bind a # ys"
  shows "SetTransparent \<in> set xs \<and> answer SetTransparent = None \<and> parse_socket_addr v6 text = Some a"
proof -
  obtain b where b: "parse_socket_addr v6 text = Some b"
    using assms by (cases "parse_socket_addr v6 text") (auto simp: listen_transparent_def)
  obtain rest where "listen_calls b = (xs @ Bind a # ys) @ rest"
    using assms b call_all_prefix [of "listen_calls b" answer] by (auto simp: listen_transparent_def)
  then have "SetTransparent \<in> set xs" "a = b"
    by (auto simp: listen_calls_def Cons_eq_append_conv)
  then show ?thesis using call_all_before [of answer "listen_calls b" xs "Bind a" ys] assms b
    by (auto simp: listen_transparent_def)
qed

section \<open>Rebinding\<close>

text \<open>
  The error arm of the accept loop, with the rebind it makes: the old listener is dropped only when
  the new one is there, so its address \<open>a\<close> is still listened on.
\<close>

definition accept_error ::
  "(string \<Rightarrow> bool) \<Rightarrow> (addr list \<Rightarrow> syscall \<Rightarrow> io_error option) \<Rightarrow> string \<Rightarrow> addr \<Rightarrow> server \<Rightarrow> nat \<times> server" where
  "accept_error v6 answer listen_addr a s =
     accept_failed (snd (bind_transparent v6 (answer [a]) listen_addr) = None) (take_permit s)"

fun accept_errors ::
  "(string \<Rightarrow> bool) \<Rightarrow> (addr list \<Rightarrow> syscall \<Rightarrow> io_error option) \<Rightarrow> string \<Rightarrow> addr \<Rightarrow> nat \<Rightarrow> server
   \<Rightarrow> nat list \<times> server" where
  "accept_errors v6 answer listen_addr a 0 s = ([], s)"
| "accept_errors v6 answer listen_addr a (Suc n) s =
     (case accept_error v6 answer listen_addr a s of
        (d, s1) \<Rightarrow> (case accept_errors v6 answer listen_addr a n s1 of (ds, s2) \<Rightarrow> (d # ds, s2)))"

text \<open>
  \<open>SO_REUSEADDR\<close> in \<open>socket(7)\<close>: a socket may bind, except when there is an active listening socket
  bound to the address.
\<close>

definition refuses_bound :: "(addr list \<Rightarrow> syscall \<Rightarrow> io_error option) \<Rightarrow> bool" where
  "refuses_bound answer \<longleftrightarrow> (\<forall>listening a. a \<in> set listening \<longrightarrow> answer listening (Bind a) \<noteq> None)"

lemma bind_refused:
  assumes "refuses_bound answer" and "parse_socket_addr v6 listen_addr = Some a"
  shows "\<exists>e. snd (bind_transparent v6 (answer [a]) listen_addr) = Some e"
proof -
  have "answer [a] (Bind a) \<noteq> None" using assms(1) by (auto simp: refuses_bound_def)
  then show ?thesis
    using assms(2) listen_transparent_ok [of v6 "answer [a]" listen_addr]
    by (auto simp: bind_transparent_def listen_calls_def)
qed

lemma rebind_refused:
  "refuses_bound answer \<Longrightarrow> parse_socket_addr v6 listen_addr = Some a \<Longrightarrow>
   accept_errors v6 answer listen_addr a n s = failing_rounds (replicate n False) s"
  using bind_refused [of answer v6 listen_addr a]
  by (induction n arbitrary: s) (auto simp: accept_error_def)

text \<open>
  C12: Rebinding never helps: on a kernel that refuses to bind an address on which a socket is
  listening, the accept loop never gets a new socket, however many accepts fail in a row. It keeps
  the one it has and, from the fifth failure on, tries again after every failure, sleeping twice as
  long each time up to 30.2 seconds; it recovers only if accepting on the old socket does.
\<close>

theorem rebind_never_succeeds:
  assumes "refuses_bound answer" and "parse_socket_addr v6 listen_addr = Some a"
    and "sv_errors s = 0" and "sv_backoff s = ACCEPT_ERROR_BACKOFF"
  shows "sv_socket (snd (accept_errors v6 answer listen_addr a n s)) = sv_socket s
    \<and> sv_errors (snd (accept_errors v6 answer listen_addr a n s)) = min n REBIND_AFTER_ERRORS
    \<and> fst (accept_errors v6 answer listen_addr a n s) = map rebind_sleep [0..<n]"
  unfolding rebind_refused [OF assms(1,2)]
  using failing_rounds_count [of s n] rebind_schedule [OF assms(3,4), of n] assms(3) by simp

definition strict_kernel :: "addr list \<Rightarrow> syscall \<Rightarrow> io_error option" where
  "strict_kernel listening c =
     (case c of
        Bind a \<Rightarrow> if a \<in> set listening then Some (io_err OtherIo ''Address already in use'') else None
      | _ \<Rightarrow> None)"

theorem rebind_never_succeeds_witness:
  "sv_socket (snd (accept_errors (\<lambda>s. False) strict_kernel ''0.0.0.0:8443'' (V4 [0, 0, 0, 0] 8443) 6
       (serve_with_cap 1 init_stats))) = 0
   \<and> fst (accept_errors (\<lambda>s. False) strict_kernel ''0.0.0.0:8443'' (V4 [0, 0, 0, 0] 8443) 6
       (serve_with_cap 1 init_stats)) = map rebind_sleep [0..<6]
   \<and> snd (bind_transparent (\<lambda>s. False) (strict_kernel []) ''0.0.0.0:8443'') = None"
proof -
  have "parse_socket_addr (\<lambda>s. False) ''0.0.0.0:8443'' = Some (V4 [0, 0, 0, 0] 8443)" 
  proof -
    have "split_once '':'' ''0.0.0.0:8443'' = Some (''0.0.0.0'', ''8443'')"
      "parse_ipv4 ''0.0.0.0'' = Some [0, 0, 0, 0]" "all_digits ''8443''"
      by code_simp+
    moreover have "digits_value ''8443'' = 8443" by (simp add: digits_value_def)
    ultimately show ?thesis by (simp add: parse_socket_addr_def)
  qed
  moreover have "refuses_bound strict_kernel" by (simp add: refuses_bound_def strict_kernel_def)
  ultimately show ?thesis
    using rebind_never_succeeds [of strict_kernel "\<lambda>s. False" "''0.0.0.0:8443''" "V4 [0, 0, 0, 0] 8443"
        "serve_with_cap 1 init_stats" 6]
    by (auto simp: serve_with_cap_def bind_transparent_def listen_transparent_ok listen_calls_def strict_kernel_def)
qed

section \<open>The statistics socket\<close>

text \<open>
  The text of the statistics for a state of the daemon. \<open>ws_keys\<close> and \<open>cf_keys\<close> list the slots of
  the pools, \<open>dcs\<close> the datacenters with a sticky domain.
\<close>

definition stats_text :: "string \<Rightarrow> key list \<Rightarrow> key list \<Rightarrow> int list \<Rightarrow> heap \<Rightarrow> net_state \<Rightarrow> string" where
  "stats_text version ws_keys cf_keys dcs h s =
     snapshot version (depths ws_keys (ns_ws_pool s)) (depths cf_keys (ns_cf_pool s))
       (proxy_sticky_domains dcs (ns_bal s)) h (ns_stats s)"

text \<open>What each client is sent, in turn; the first failed accept ends it. \<open>snap i\<close> is the text at the \<open>i\<close>-th.\<close>

fun stats_loop :: "(nat \<Rightarrow> string) \<Rightarrow> nat \<Rightarrow> bool list \<Rightarrow> string list" where
  "stats_loop snap i [] = []"
| "stats_loop snap i (ok # oks) = (if ok then snap i # stats_loop snap (i + 1) oks else [])"

definition serve_stats :: "bool \<Rightarrow> (nat \<Rightarrow> string) \<Rightarrow> bool list \<Rightarrow> string list" where
  "serve_stats bound snap oks = (if bound then stats_loop snap 0 oks else [])"

text \<open>\<open>wrtg --stats\<close>: the lines on stderr, what goes to stdout, and the exit code.\<close>

definition print_stats :: "string \<Rightarrow> io_error option \<Rightarrow> io_error + string \<Rightarrow> string list \<times> string \<times> nat" where
  "print_stats path connect_err read =
     (case connect_err of
        Some e \<Rightarrow>
          ([''wrtg --stats: cannot reach daemon on '' @ path @ '': '' @ ie_msg e,
            ''(is wrtg running? the socket appears once the daemon has started)''], '''', 1)
      | None \<Rightarrow>
          (case read of
             Inl e \<Rightarrow> ([''wrtg --stats: read failed: '' @ ie_msg e], '''', 1)
           | Inr buf \<Rightarrow> ([], buf, 0)))"

lemma stats_loop_nth:
  "i < length (takeWhile id oks) \<Longrightarrow>
   i < length (stats_loop snap n oks) \<and> stats_loop snap n oks ! i = snap (n + i)"
proof (induction oks arbitrary: i n)
  case (Cons ok oks)
  then show ?case by (cases i) (auto split: if_splits)
qed simp

text \<open>Every client before the first failed accept is shown the state at its turn.\<close>

lemma stats_shown:
  assumes "i < length (takeWhile id oks)"
  shows "print_stats path None (Inr (serve_stats True snap oks ! i)) = ([], snap i, 0)"
  using stats_loop_nth [OF assms, of snap 0] by (simp add: serve_stats_def print_stats_def)

text \<open>The depths it shows are sorted, and within the size of the pool in every state of the daemon.\<close>

lemma depths_bound:
  assumes "slots_ok n sl" and "(dc, m, depth) \<in> set (depths keys sl)"
  shows "depth \<le> n"
proof -
  have "depth = length (conns sl (dc, m))"
    using assms(2) by (auto simp: depths_def conns_def split: option.split)
  with assms(1) show ?thesis by (simp add: slots_ok_def del: split_paired_All)
qed

lemma depths_shown:
  assumes "daemon files us env t p s"
  shows "sorted (depths keys (ns_ws_pool s)) \<and> (\<forall>(dc, m, depth) \<in> set (depths keys (ns_ws_pool s)). depth \<le> 8)"
    "sorted (depths keys (ns_cf_pool s)) \<and> (\<forall>(dc, m, depth) \<in> set (depths keys (ns_cf_pool s)). depth \<le> 4)"
proof -
  have "slots_ok (ws_pool_size us env) (ns_ws_pool s)" "slots_ok (cf_pool_size us env) (ns_cf_pool s)"
    using daemon_always_ok [OF assms] by (simp_all add: daemon_ok_def)
  moreover have "ws_pool_size us env \<le> 8" "cf_pool_size us env \<le> 4"
    by (simp_all add: ws_pool_size_def cf_pool_size_def)
  ultimately have "\<forall>(dc, m, depth) \<in> set (depths keys (ns_ws_pool s)). depth \<le> 8"
    "\<forall>(dc, m, depth) \<in> set (depths keys (ns_cf_pool s)). depth \<le> 4"
    by (auto dest: depths_bound)
  then show "sorted (depths keys (ns_ws_pool s)) \<and> (\<forall>(dc, m, depth) \<in> set (depths keys (ns_ws_pool s)). depth \<le> 8)"
    "sorted (depths keys (ns_cf_pool s)) \<and> (\<forall>(dc, m, depth) \<in> set (depths keys (ns_cf_pool s)). depth \<le> 4)"
    by (simp_all add: depths_def)
qed

end
