(* ===== verification/Spec2Isabelle.thy ===== *)
theory Spec2Isabelle
  imports Rust_Prelude Rust_Text Mtproto Routing Dc_Learn Splitter Ws_Frame Ws Ttl_Map Skip_State
    Cooldown Balancer Conn_Pool Tls_Sni Media Handshake Stats Pools Cf_Proxy Bridge Ladder Blind
    Session Relay Domains Config Sections Daemon Watchdog Https Doh Check Host_Os Sockets
begin

text \<open>
  A model of \<open>wrtg\<close>, a transparent proxy daemon for routers (\<open>src/crates/wrtg\<close>, Rust). Connections
  of Telegram clients are redirected to it; it recognises the obfuscated MTProto handshake, opens a
  WebSocket, a Cloudflare Worker or proxy, or plain TCP to the datacenter, and re-encrypts the
  stream in both directions. What is not MTProto is relayed blindly.

  \<^bold>\<open>The path of a connection, and the theories that model it.\<close>

  \<^item> \<open>Session\<close> (\<open>main.rs\<close>): \<open>handle_conn\<close> drops connections to the listener itself, reads the start
    of the stream (\<open>Handshake\<close>, \<open>handshake.rs\<close>) and goes on with \<open>handle_handshake\<close> or relays blindly.
  \<^item> \<open>Mtproto\<close> (\<open>mtproto.rs\<close>): the handshake, the init packet sent to the datacenter, the two pairs of
    ciphers. \<open>Routing\<close> (\<open>mtproto.rs\<close>): addresses, domains and fronts of a datacenter. \<open>Dc_Learn\<close>
    (\<open>dc_learn.rs\<close>): which address belongs to which datacenter, learned from clients and kept in a file.
  \<^item> \<open>Bridge\<close> (\<open>bridge.rs\<close>): the ladder of rungs (pooled, direct and fronted WebSocket; pooled and
    dialled Worker, proxy domains alone and then in a race; TCP) with every change of the shared state
    \<open>net_state\<close>. \<open>Ladder\<close> relates the Cloudflare rung to a choice among candidates. \<open>Cf_Proxy\<close>
    (\<open>cf_proxy.rs\<close>) connects to a proxy domain, \<open>Pools\<close> (\<open>ws_pool.rs\<close>, \<open>cf_worker_pool.rs\<close>) configures
    the two instances of \<open>Conn_Pool\<close> (\<open>conn_pool.rs\<close>).
  \<^item> \<open>Relay\<close> (\<open>bridge.rs\<close>): what runs once a bridge is up: \<open>Splitter\<close> (\<open>splitter.rs\<close>) cuts the upload
    into packets, \<open>Ws_Frame\<close> (\<open>ws.rs\<close>) frames them, the idle guard and the teardown end it. \<open>Ws\<close> (\<open>ws.rs\<close>)
    is the upgrade that opened the WebSocket.
  \<^item> \<open>Blind\<close> (\<open>bridge.rs\<close>): the blind relay, with \<open>Tls_Sni\<close> (\<open>tls_sni.rs\<close>) and \<open>Media\<close> (\<open>media.rs\<close>)
    finding the host and the targets and rewriting the Host line.
  \<^item> Shared state: \<open>Ttl_Map\<close>, \<open>Skip_State\<close> (\<open>ttl_map.rs\<close>, \<open>ip_fail.rs\<close>, \<open>ws_blacklist.rs\<close>,
    \<open>fronting.rs\<close>), \<open>Cooldown\<close> (\<open>cooldown429.rs\<close>, \<open>cf_worker_cooldown.rs\<close>, \<open>cf_proxy_cooldown.rs\<close>),
    \<open>Balancer\<close> (\<open>cf_balancer.rs\<close>), \<open>Stats\<close> (\<open>stats.rs\<close>, \<open>heap.rs\<close>).
  \<^item> Settings: \<open>Domains\<close> (\<open>cf_proxy_domains.rs\<close>), fetched by \<open>Https\<close> (\<open>https.rs\<close>); \<open>Config\<close>
    (\<open>config.rs\<close> and the arguments of \<open>main.rs\<close>). \<open>Check\<close> (\<open>check.rs\<close>) is \<open>wrtg --check\<close>.
  \<^item> \<open>Sections\<close> cuts what a session does to the shared state at its locks: each access is a section, a
    relation on one component, and a whole \<open>handle_conn\<close> a run of sections. \<open>Daemon\<close> (\<open>main.rs\<close>,
    \<open>config.rs\<close>) is the whole: the states of the shared state from startup on, as an inductive relation
    under every interleaving of those sections with the refill tasks, the refresh of the proxy domains
    and the stores of a reload.
  \<^item> \<open>Watchdog\<close> (\<open>watchdog.rs\<close>) is the accept loop as a step relation with the tasks it started,
    \<open>Sockets\<close> (\<open>sockopt\<close>, \<open>stats.rs\<close>) the system calls that make its listener and tune a connection,
    and the socket of the statistics.
  \<^item> \<open>Doh\<close> (\<open>cf_proxy_doh.rs\<close>) resolves the host of a proxy over HTTPS; \<open>Cf_Proxy\<close> takes the address it
    finds as a parameter. \<open>Host_Os\<close> (\<open>sockopt\<close>, \<open>logger.rs\<close>): the original destination as the
    kernel reports it, and which stream a log record goes to.
  \<^item> \<open>Rust_Prelude\<close> and \<open>Rust_Text\<close> hold the parts of the Rust library the code uses: slices, big-endian
    integers, string splitting, trimming and parsing, lossy UTF-8 decoding.

  A record field, a constructor or a function has the name it has in the source wherever Isabelle
  allows; a loop of an \<open>async fn\<close> is a recursive function over what its reads return.

  \<^bold>\<open>Groups of lemmas.\<close> Each component has its operations, then frame and invariant lemmas, then its
  properties. The interfaces are locales, each interpreted on the functions of the model:
  \<open>byte_stream\<close> and \<open>stream_cipher\<close> (\<open>Mtproto\<close>: processing a stream in pieces), \<open>framing\<close>
  (\<open>Splitter\<close>: packet lengths that later bytes do not change), \<open>cooldown_set\<close> (\<open>Ttl_Map\<close>: marks that
  run out), \<open>limiter\<close> (\<open>Cooldown\<close>: which endpoints a failure cools), \<open>rung\<close> (\<open>Ladder\<close>: candidates
  tried in turn), \<open>timed_cell\<close> (\<open>Sections\<close>: what the sections of a component and passing time keep;
  interpreted on each map of instants, the skip state, the cooldowns, the pools, and in \<open>Daemon\<close> on
  the whole shared state). \<open>Daemon\<close> draws from them the invariant of all reachable states, that no
  failure is remembered beyond its time, that the settings are always those of one configuration,
  and what a reload does to the proxy rung.

  \<^bold>\<open>Parameters.\<close> AES-256-CTR is a keystream, a function of key, IV and block number; \<open>lc\<close> is Unicode
  lower case; \<open>us\<close> is the number of values of \<open>usize\<close>; clocks are functions from the number of the
  reading to its value; random draws are a list. The network is data: \<open>read_ev\<close> lists for sockets,
  the records \<open>world\<close> and \<open>blind_net\<close> for what each dial and first write gives.

  \<^bold>\<open>Abstractions.\<close> Strings are the lists of their UTF-8 bytes. Durations are nanoseconds and instants
  natural numbers, whose overflow in Rust would panic only after centuries, or at once for a
  duration set to centuries. Counters of \<open>stats.rs\<close> are natural numbers. \<open>handle_conn\<close> and the ladder
  are functions of the state in which nothing comes between; \<open>Daemon\<close> and \<open>Conn_Pool\<close> cover what comes
  between, with sections in any order, each doing what some session could do at some time. The tasks
  of the proxy race are run one after the other in the order in which they complete. A refill is
  recorded when its bridge connects. The listener has an IPv4 address. The semaphore around proxy
  dials only delays them and is left out. Loops have no fuel, but for \<open>idle_reached\<close>: it is called
  with the number of wake-ups allowed, and the properties prove that enough of them suffice.

  \<^bold>\<open>Not modelled.\<close> \<open>tls.rs\<close> (one call into rustls) and the kernel behind the system calls, which
  messages are logged, the elapsed times \<open>--check\<close> prints, and the parts of the repository outside
  the daemon: the Worker script, the LuCI pages, the shell scripts and the packaging.
\<close>

end
